(* ===== verification/Prelude.thy ===== *)
theory Prelude
  imports Main "HOL-Library.Word" "HOL-Library.Monad_Syntax"
begin

text \<open>
  Shared vocabulary of the development: the machine integers of the C++ sources, the
  effect type of operations that may leave the defined behaviour of C++, little-endian
  byte views of objects, and the automation the component theories share.

  Integers. \<open>uintN_t\<close> and \<open>intN_t\<close> are both \<open>N word\<close>; a signed reading is written out
  with \<open>sint\<close>, \<open>scast\<close> or \<open>signed_drop_bit\<close> where the source has a signed type.
  Arithmetic that C++ leaves undefined only because a signed value wraps or because a
  shift count reaches the width is given its x86-64 meaning (two's complement
  wrap-around, shift counts taken modulo the operand width), which is what the compiler
  named in the Makefile emits.

  Undefined behaviour that is a memory or control error (an array index out of range, a
  read past the end of an object, a trapping integer division) is the value
  \<^term>\<open>None\<close> of the option type: no later state is claimed for it.
\<close>

unbundle bit_operations_syntax

type_synonym u8 = "8 word"
type_synonym u16 = "16 word"
type_synonym u32 = "32 word"
type_synonym u64 = "64 word"

named_theorems bits "evaluation of single bits of machine words"
named_theorems model "unfolding of the small auxiliary definitions of the model"

subsection \<open>Option as the effect of undefined behaviour\<close>

lemma bind_eq_Some_iff [simp]:
  "(Option.bind x f = Some y) \<longleftrightarrow> (\<exists>z. x = Some z \<and> f z = Some y)"
  by (cases x) auto

lemma bind_eq_None_iff [simp]:
  "(Option.bind x f = None) \<longleftrightarrow> (\<forall>z. x = Some z \<longrightarrow> f z = None)"
  by (cases x) auto

definition guard :: "bool \<Rightarrow> unit option" where
  "guard b = (if b then Some () else None)"

lemma guard_True [simp]: "guard True = Some ()"
  by (simp add: guard_def)

lemma guard_False [simp]: "guard False = None"
  by (simp add: guard_def)

lemma guard_eq_Some [simp]: "guard b = Some u \<longleftrightarrow> b"
  by (simp add: guard_def)

lemma guard_eq_None [simp]: "guard b = None \<longleftrightarrow> \<not> b"
  by (simp add: guard_def)

text \<open>Array elements: a read or write out of range is undefined.\<close>

definition nth_opt :: "'a list \<Rightarrow> nat \<Rightarrow> 'a option" where
  "nth_opt xs i = (if i < length xs then Some (xs ! i) else None)"

definition upd_opt :: "'a list \<Rightarrow> nat \<Rightarrow> 'a \<Rightarrow> 'a list option" where
  "upd_opt xs i v = (if i < length xs then Some (xs[i := v]) else None)"

lemma nth_opt_Some [simp]: "nth_opt xs i = Some v \<longleftrightarrow> i < length xs \<and> v = xs ! i"
  by (auto simp: nth_opt_def)

lemma nth_opt_None [simp]: "nth_opt xs i = None \<longleftrightarrow> length xs \<le> i"
  by (auto simp: nth_opt_def)

lemma upd_opt_Some [simp]: "upd_opt xs i v = Some ys \<longleftrightarrow> i < length xs \<and> ys = xs[i := v]"
  by (auto simp: upd_opt_def)

lemma upd_opt_None [simp]: "upd_opt xs i v = None \<longleftrightarrow> length xs \<le> i"
  by (auto simp: upd_opt_def)

lemma nth_opt_in_range: "i < length xs \<Longrightarrow> nth_opt xs i = Some (xs ! i)"
  by simp

lemma upd_opt_in_range: "i < length xs \<Longrightarrow> upd_opt xs i v = Some (xs[i := v])"
  by simp

text \<open>A counted loop whose body may be undefined.\<close>

fun for_each :: "('b \<Rightarrow> 's \<Rightarrow> 's option) \<Rightarrow> 'b list \<Rightarrow> 's \<Rightarrow> 's option" where
  "for_each f [] s = Some s"
| "for_each f (x # xs) s = do { s' \<leftarrow> f x s; for_each f xs s' }"

lemma for_each_append: "for_each f (xs @ ys) s = do { s' \<leftarrow> for_each f xs s; for_each f ys s' }"
  by (induction xs arbitrary: s) (simp_all split: Option.bind_splits)

lemma for_each_inv:
  assumes "for_each f xs s = Some s'" and "P s"
    and "\<And>x s s'. x \<in> set xs \<Longrightarrow> P s \<Longrightarrow> f x s = Some s' \<Longrightarrow> P s'"
  shows "P s'"
  using assms by (induction xs arbitrary: s) auto

lemma for_each_total:
  assumes "P s" and "\<And>x s. x \<in> set xs \<Longrightarrow> P s \<Longrightarrow> \<exists>s'. f x s = Some s' \<and> P s'"
  shows "\<exists>s'. for_each f xs s = Some s' \<and> P s'"
  using assms
proof (induction xs arbitrary: s)
  case (Cons x xs)
  then obtain s1 where "f x s = Some s1" "P s1" by fastforce
  then show ?case using Cons.IH[of s1] Cons.prems(2) by auto
qed simp

subsection \<open>Machine words\<close>

text \<open>\<open>sext b x\<close>: the source's idiom \<open>(int64_t)(x << (64-b)) >> (64-b)\<close>.\<close>

definition sext :: "nat \<Rightarrow> u64 \<Rightarrow> u64" where
  "sext b x = signed_drop_bit (64 - b) (push_bit (64 - b) x)"

text \<open>A C++ \<open>bool\<close> converted to an integer.\<close>

definition of_boolean :: "bool \<Rightarrow> u64" where
  "of_boolean b = (if b then 1 else 0)"

lemma of_boolean_simps [simp]: "of_boolean True = 1" "of_boolean False = 0"
  by (simp_all add: of_boolean_def)

text \<open>\<open>(int32_t)x\<close> widened again to 64 bits, and \<open>(uint32_t)x\<close> zero-extended.\<close>

definition lo32 :: "u64 \<Rightarrow> u32" where
  "lo32 x = ucast x"

definition sx32 :: "u32 \<Rightarrow> u64" where
  "sx32 x = scast x"

definition zx32 :: "u32 \<Rightarrow> u64" where
  "zx32 x = ucast x"

text \<open>Shifts by a variable amount on x86-64: the count is taken modulo 64.\<close>

definition shl64 :: "u64 \<Rightarrow> nat \<Rightarrow> u64" where
  "shl64 x n = push_bit (n mod 64) x"

definition shr64 :: "u64 \<Rightarrow> nat \<Rightarrow> u64" where
  "shr64 x n = drop_bit (n mod 64) x"

text \<open>
  \<open>ffsll x\<close> of the C library: one plus the position of the lowest set bit, 0 for 0.
  Its behaviour is documented by POSIX; the code calls it on 64-bit values.
\<close>

definition ffsll :: "u64 \<Rightarrow> nat" where
  "ffsll x = (case filter (bit x) [0..<64] of [] \<Rightarrow> 0 | n # _ \<Rightarrow> Suc n)"

subsection \<open>Bits\<close>

lemma bit_above: "LENGTH('a) \<le> n \<Longrightarrow> \<not> bit (w :: 'a::len word) n"
  by (meson bit_imp_le_length leD)

lemma bit_8_above: "8 \<le> n \<Longrightarrow> \<not> bit (w :: u8) n"
  by (rule bit_above) simp

lemma bit_64_above: "64 \<le> n \<Longrightarrow> \<not> bit (w :: u64) n"
  by (rule bit_above) simp

lemma bit_32_above: "32 \<le> n \<Longrightarrow> \<not> bit (w :: u32) n"
  by (rule bit_above) simp

text \<open>\<open>bmask lo n\<close>: the source's masks \<open>0b1 << lo\<close>, \<open>0b11 << lo\<close>, \<dots> of \<open>n\<close> ones.\<close>

definition bmask :: "nat \<Rightarrow> nat \<Rightarrow> 'a::len word" where
  "bmask lo n = push_bit lo (mask n)"

lemma bit_bmask [bits]:
  "bit (bmask lo n :: 'a::len word) k \<longleftrightarrow> k < LENGTH('a) \<and> lo \<le> k \<and> k < lo + n"
  by (auto simp: bmask_def bit_simps)

text \<open>\<open>get_field lo n w\<close>: the source's \<open>(w & (0b1\<dots>1 << lo)) >> lo\<close>.\<close>

definition get_field :: "nat \<Rightarrow> nat \<Rightarrow> u64 \<Rightarrow> u64" where
  "get_field lo n w = drop_bit lo (w AND bmask lo n)"

lemma bit_get_field [bits]: "bit (get_field lo n w) k \<longleftrightarrow> k < n \<and> bit w (lo + k)"
  by (cases "lo + k < 64") (auto simp: get_field_def bit_simps bit_bmask bit_64_above)

lemma bit_nat_less: "k < 2 ^ n \<Longrightarrow> \<not> bit (k :: nat) n"
  by (simp add: bit_iff_odd)

lemma bit_unat_less: "unat w < 2 ^ n \<Longrightarrow> \<not> bit w n"
  using bit_nat_less[of "unat w" n] by (simp add: bit_simps)

lemma less_pow_of_bits:
  fixes w :: "'a::len word"
  assumes "\<And>k. n \<le> k \<Longrightarrow> \<not> bit w k" and "n < LENGTH('a)"
  shows "w < 2 ^ n"
proof -
  have "w AND mask n = w"
    using assms(1) by (intro bit_word_eqI) (auto simp: bit_simps not_le[symmetric])
  then show ?thesis using assms(2) by (simp add: mask_eq_iff word_2p_lem word_size)
qed

end
