(* ===== verification/Hart.thy ===== *)
theory Hart
  imports Prelude
begin

text \<open>
  The state of a hart (\<open>cpu.h\<close>), its constants (\<open>constants.h\<close>) and its reset
  (\<open>reset_state\<close> of \<open>cpu.cpp\<close>, \<open>hart_init\<close> of \<open>main.cpp\<close>).  The field names are those
  of \<open>struct HartState\<close>; \<open>cycle_csr\<close> is its field \<open>cycle\<close> and \<open>tlb_size\<close> the field
  \<open>size\<close> of \<open>struct TLBEntry\<close>.  Register numbers are the source's \<open>uint8_t\<close>; the array
  \<open>regs[32]\<close> is a function of them, and the decoder theory shows that no number at or
  above 32 is ever used.
\<close>

subsection \<open>TLB and PMP entries\<close>

record TLBEntry =
  virt_page :: u64
  phy_page :: u64
  pte_addr :: u64
  tlb_size :: u8
  permissions :: u8
  user :: bool

record TLBStruct =
  max_entry_size :: u8
  size_count :: "nat \<Rightarrow> u8"
  tlb_entries :: "nat \<Rightarrow> TLBEntry"

record ExpPMP =
  enable :: bool
  lock :: bool
  lbound :: u64
  ubound :: u64
  lxwr :: u8

subsection \<open>Exceptions\<close>

datatype HartException =
    IMISALIGN | IAFAULT | ILLINST | BPOINT | LMISALIGN | LAFAULT | SMISALIGN | SAFAULT
  | UECALL | HSECALL | VSECALL | MECALL | IPFAULT | LPFAULT | RES2 | SPFAULT
  | NOEXC
  | RES3 | SSOFTINT | RES4 | MSOFTINT | RES5 | STIMEINT | RES6 | MTIMEINT
  | RES7 | SEXTINT | RES8 | MEXTINT

text \<open>The enumerators' values: traps count from 0, interrupts carry the sign bit.\<close>

fun exc_code :: "HartException \<Rightarrow> u64" where
  "exc_code IMISALIGN = 0" | "exc_code IAFAULT = 1" | "exc_code ILLINST = 2"
| "exc_code BPOINT = 3" | "exc_code LMISALIGN = 4" | "exc_code LAFAULT = 5"
| "exc_code SMISALIGN = 6" | "exc_code SAFAULT = 7" | "exc_code UECALL = 8"
| "exc_code HSECALL = 9" | "exc_code VSECALL = 10" | "exc_code MECALL = 11"
| "exc_code IPFAULT = 12" | "exc_code LPFAULT = 13" | "exc_code RES2 = 14"
| "exc_code SPFAULT = 15"
| "exc_code NOEXC = 0x8000000000000010"
| "exc_code RES3 = 0x8000000000000000" | "exc_code SSOFTINT = 0x8000000000000001"
| "exc_code RES4 = 0x8000000000000002" | "exc_code MSOFTINT = 0x8000000000000003"
| "exc_code RES5 = 0x8000000000000004" | "exc_code STIMEINT = 0x8000000000000005"
| "exc_code RES6 = 0x8000000000000006" | "exc_code MTIMEINT = 0x8000000000000007"
| "exc_code RES7 = 0x8000000000000008" | "exc_code SEXTINT = 0x8000000000000009"
| "exc_code RES8 = 0x800000000000000A" | "exc_code MEXTINT = 0x800000000000000B"

lemma exc_code_inject [simp]: "exc_code a = exc_code b \<longleftrightarrow> a = b"
  by (cases a; cases b) simp_all

subsection \<open>The hart\<close>

abbreviation (input) PMP_COUNT :: nat where "PMP_COUNT \<equiv> 16"
abbreviation (input) TLB_SIZE :: nat where "TLB_SIZE \<equiv> 64"

record HartState =
  hartid :: u16
  regs :: "u8 \<Rightarrow> u64"
  pc :: u64
  inst :: u32
  instbuf :: u16
  inst_len :: u8
  privmode :: u8
  mem_status :: bool
  page_fault :: bool
  tlb :: TLBStruct
  mstatus :: u64
  sstatus :: u64
  medeleg :: u64
  mideleg :: u64
  mie :: u64
  sie :: u64
  mtvec :: u64
  stvec :: u64
  mscratch :: u64
  sscratch :: u64
  mepc :: u64
  sepc :: u64
  mcause :: u64
  scause :: u64
  mtval :: u64
  stval :: u64
  mip :: u64
  mcycle :: u64
  minstret :: u64
  satp :: u64
  misa :: u64
  mhartid :: u64
  cycle_csr :: u64
  instret :: u64
  pmpcfg :: "nat \<Rightarrow> u8"
  pmpaddr :: "nat \<Rightarrow> u64"
  pmp_lockedaddr :: "nat \<Rightarrow> bool"
  pmp_expanded :: "nat \<Rightarrow> ExpPMP"
  pmp_all_enabled :: u64
  min_lbound :: u64
  max_ubound :: u64
  chk_int :: bool

subsection \<open>Constants and reset\<close>

definition MISA :: u64 where
  "MISA = push_bit 62 0b10 + 0b00000101000001000100000101"

definition MSTATUS :: u64 where
  "MSTATUS = 0b0000000000000000000000000000101000000000001011000000100010101010"

definition zero_TLBEntry :: TLBEntry where
  "zero_TLBEntry = \<lparr>virt_page = 0, phy_page = 0, pte_addr = 0, tlb_size = 0,
     permissions = 0, user = False\<rparr>"

definition zero_TLB :: TLBStruct where
  "zero_TLB = \<lparr>max_entry_size = 0, size_count = (\<lambda>_. 0), tlb_entries = (\<lambda>_. zero_TLBEntry)\<rparr>"

definition zero_ExpPMP :: ExpPMP where
  "zero_ExpPMP = \<lparr>enable = False, lock = False, lbound = 0, ubound = 0, lxwr = 0\<rparr>"

text \<open>\<open>memset(&hs, 0, sizeof(hs))\<close>\<close>

definition zero_hart :: HartState where
  "zero_hart = \<lparr>hartid = 0, regs = (\<lambda>_. 0), pc = 0, inst = 0, instbuf = 0, inst_len = 0,
     privmode = 0, mem_status = False, page_fault = False, tlb = zero_TLB,
     mstatus = 0, sstatus = 0, medeleg = 0, mideleg = 0, mie = 0, sie = 0,
     mtvec = 0, stvec = 0, mscratch = 0, sscratch = 0, mepc = 0, sepc = 0,
     mcause = 0, scause = 0, mtval = 0, stval = 0, mip = 0, mcycle = 0, minstret = 0,
     satp = 0, misa = 0, mhartid = 0, cycle_csr = 0, instret = 0,
     pmpcfg = (\<lambda>_. 0), pmpaddr = (\<lambda>_. 0), pmp_lockedaddr = (\<lambda>_. False),
     pmp_expanded = (\<lambda>_. zero_ExpPMP), pmp_all_enabled = 0, min_lbound = 0,
     max_ubound = 0, chk_int = False\<rparr>"

definition reset_state :: "u16 \<Rightarrow> HartState" where
  "reset_state hid = zero_hart\<lparr>hartid := hid, privmode := 0b11,
     misa := MISA, mstatus := MSTATUS, sstatus := MSTATUS,
     mie := 0b101010101010, sie := 0b101010101010 AND NOT 0b100010001000,
     satp := 0,
     pmpaddr := (pmpaddr zero_hart)(0 := 0x003fffffffffffff),
     pmpcfg := (pmpcfg zero_hart)(0 := pmpcfg zero_hart 0 OR 0b00011111)\<rparr>"

definition hart_init :: "u64 \<Rightarrow> u16 \<Rightarrow> HartState" where
  "hart_init mach_mem_size hid =
    (let hs = reset_state hid
     in hs\<lparr>pc := 0x1000,
           regs := (regs hs)(2 := 0x80000000 + mach_mem_size - 1, 1 := 0x81000000,
                             10 := ucast hid, 11 := 0x1100)\<rparr>)"

lemma hart_init_simps [simp]:
  "pc (hart_init n h) = 0x1000" "privmode (hart_init n h) = 3" "satp (hart_init n h) = 0"
  "hartid (hart_init n h) = h" "mhartid (hart_init n h) = 0" "instbuf (hart_init n h) = 0"
  "chk_int (hart_init n h) = False" "pmp_all_enabled (hart_init n h) = 0"
  "pmp_expanded (hart_init n h) = (\<lambda>_. zero_ExpPMP)" "mstatus (hart_init n h) = MSTATUS"
  "tlb (hart_init n h) = zero_TLB" "mem_status (hart_init n h) = False"
  "page_fault (hart_init n h) = False"
  by (simp_all add: hart_init_def reset_state_def zero_hart_def Let_def)

end
