(* ===== verification/Decode.thy ===== *)
theory Decode
  imports Hart
begin

text \<open>
  The decoding half of \<open>decode_exc\<close> (\<open>cpu.cpp\<close>): from the instruction word and its length
  to the operands the execution half reads.  The enumerations are those of \<open>cpu.h\<close>, in its
  order; the compressed opcodes carry the prefix \<open>C_\<close> because several names occur in both.
\<close>

datatype inst_type = R | R4 | I | S | B | U | J | DIFF

datatype inst_op_32 =
    LOAD | LOAD_FP | CST0 | MISC_MEM | OP_IMM | AUIPC | OP_IMM_32 | L1
  | STORE | STORE_FP | CST1 | AMO | OP | LUI | OP_32 | L2
  | MADD | MSUB | NMSUB | NMADD | OP_FP | RES1 | CST2 | L3
  | BRANCH | JALR | OPRES2 | JAL | SYSTEM | OPRES3 | CST3 | L4

datatype inst_op_16 =
    C_ADDI4SPN | C_FLD | C_LW | C_LD | C_RES1 | C_FSD | C_SW | C_SD
  | C_ADDI | C_ADDIW | C_LI | C_LUI | C_MISC_ALU | C_J | C_BEQZ | C_BNEZ
  | C_SLLI | C_FLDSP | C_LWSP | C_LDSP | C_JALR | C_FSDSP | C_SWSP | C_SDSP

text \<open>The enumerators in the order of their values: the casts from integers.\<close>

definition inst_op_32_enum :: "inst_op_32 list" where
  "inst_op_32_enum =
    [LOAD, LOAD_FP, CST0, MISC_MEM, OP_IMM, AUIPC, OP_IMM_32, L1,
     STORE, STORE_FP, CST1, AMO, OP, LUI, OP_32, L2,
     MADD, MSUB, NMSUB, NMADD, OP_FP, RES1, CST2, L3,
     BRANCH, JALR, OPRES2, JAL, SYSTEM, OPRES3, CST3, L4]"

fun inst_type_lookup_32 :: "inst_op_32 \<Rightarrow> inst_type" where
  "inst_type_lookup_32 LOAD = I" | "inst_type_lookup_32 MISC_MEM = I"
| "inst_type_lookup_32 OP_IMM = I" | "inst_type_lookup_32 AUIPC = U"
| "inst_type_lookup_32 OP_IMM_32 = I" | "inst_type_lookup_32 STORE = S"
| "inst_type_lookup_32 AMO = R" | "inst_type_lookup_32 OP = R"
| "inst_type_lookup_32 LUI = U" | "inst_type_lookup_32 OP_32 = R"
| "inst_type_lookup_32 MADD = R4" | "inst_type_lookup_32 MSUB = R4"
| "inst_type_lookup_32 NMSUB = R4" | "inst_type_lookup_32 NMADD = R4"
| "inst_type_lookup_32 OP_FP = R" | "inst_type_lookup_32 BRANCH = B"
| "inst_type_lookup_32 JALR = I" | "inst_type_lookup_32 JAL = J"
| "inst_type_lookup_32 SYSTEM = I"
| "inst_type_lookup_32 _ = DIFF"

definition inst_op_16_enum :: "inst_op_16 list" where
  "inst_op_16_enum =
    [C_ADDI4SPN, C_FLD, C_LW, C_LD, C_RES1, C_FSD, C_SW, C_SD,
     C_ADDI, C_ADDIW, C_LI, C_LUI, C_MISC_ALU, C_J, C_BEQZ, C_BNEZ,
     C_SLLI, C_FLDSP, C_LWSP, C_LDSP, C_JALR, C_FSDSP, C_SWSP, C_SDSP]"

text \<open>
  The local variables of \<open>decode_exc\<close> that decoding sets; \<open>dinst\<close> is \<open>hs.inst\<close>, which the
  compressed arithmetic instructions modify.
\<close>

record decoded =
  op_fun :: inst_op_32
  rd :: u8
  rs1 :: u8
  rs2 :: u8
  funct3 :: u8
  funct7 :: u8
  imm :: u64
  cebreak :: bool
  dinst :: u32

subsection \<open>Field extraction\<close>

definition reg5 :: "nat \<Rightarrow> u32 \<Rightarrow> u8" where
  "reg5 lo ins = ucast (drop_bit lo ins AND 0b11111)"

definition REG16TO32 :: "nat \<Rightarrow> u32 \<Rightarrow> u8" where
  "REG16TO32 lo ins = ucast (drop_bit lo ins AND 0b111) + 8"

subsection \<open>Compressed immediates\<close>

definition cimm_addi4spn :: "u64 \<Rightarrow> u64" where
  "cimm_addi4spn i = (drop_bit 1 i AND 0b1111000000) + (drop_bit 7 i AND 0b110000)
     + (drop_bit 2 i AND 0b1000) + (drop_bit 4 i AND 0b100)"

definition cimm_lw :: "u64 \<Rightarrow> u64" where
  "cimm_lw i = (push_bit 1 i AND 0b1000000) + (drop_bit 7 i AND 0b111000) + (drop_bit 4 i AND 0b100)"

definition cimm_ld :: "u64 \<Rightarrow> u64" where
  "cimm_ld i = (push_bit 1 i AND 0b11000000) + (drop_bit 7 i AND 0b111000)"

definition cimm_ci :: "u64 \<Rightarrow> u64" where
  "cimm_ci i = (drop_bit 7 i AND 0b100000) + (drop_bit 2 i AND 0b11111)"

definition cimm_addi16sp :: "u64 \<Rightarrow> u64" where
  "cimm_addi16sp i = (drop_bit 3 i AND 0b1000000000) + (push_bit 4 i AND 0b110000000)
     + (push_bit 1 i AND 0b1000000) + (push_bit 3 i AND 0b100000) + (drop_bit 2 i AND 0b10000)"

definition cimm_lui :: "u64 \<Rightarrow> u64" where
  "cimm_lui i = (push_bit 5 i AND 0x20000) + (push_bit 10 i AND 0x1F000)"

definition cimm_j :: "u64 \<Rightarrow> u64" where
  "cimm_j i = (drop_bit 1 i AND 0xB40) + (drop_bit 2 i AND 0xE) + (drop_bit 7 i AND 0x10)
     + (push_bit 1 i AND 0x80) + (push_bit 2 i AND 0x400) + (push_bit 3 i AND 0x20)"

definition cimm_b :: "u64 \<Rightarrow> u64" where
  "cimm_b i = (drop_bit 4 i AND 0b100000000) + (push_bit 1 i AND 0b11000000)
     + (push_bit 3 i AND 0b100000) + (drop_bit 7 i AND 0b11000) + (drop_bit 2 i AND 0b110)"

definition cimm_lwsp :: "u64 \<Rightarrow> u64" where
  "cimm_lwsp i = (push_bit 4 i AND 0b11000000) + (drop_bit 7 i AND 0b100000)
     + (drop_bit 2 i AND 0b11100)"

definition cimm_ldsp :: "u64 \<Rightarrow> u64" where
  "cimm_ldsp i = (push_bit 4 i AND 0b111000000) + (drop_bit 7 i AND 0b100000)
     + (drop_bit 2 i AND 0b11000)"

definition cimm_swsp :: "u64 \<Rightarrow> u64" where
  "cimm_swsp i = (drop_bit 1 i AND 0b11000000) + (drop_bit 7 i AND 0b111100)"

definition cimm_sdsp :: "u64 \<Rightarrow> u64" where
  "cimm_sdsp i = (drop_bit 1 i AND 0b111000000) + (drop_bit 7 i AND 0b111000)"

subsection \<open>Compressed instructions\<close>

definition dec16_base :: "u32 \<Rightarrow> decoded" where
  "dec16_base ins = \<lparr>op_fun = L4, rd = REG16TO32 2 ins, rs1 = REG16TO32 7 ins, rs2 = 0,
     funct3 = 0, funct7 = 0, imm = 0, cebreak = False, dinst = ins\<rparr>"

definition dec_misc_alu :: "u32 \<Rightarrow> decoded \<Rightarrow> decoded" where
  "dec_misc_alu ins d0 =
    (let d = d0\<lparr>rs2 := REG16TO32 2 ins, rd := rs1 d0, imm := cimm_ci (ucast ins)\<rparr>;
         sel = drop_bit 10 ins AND 0b11
     in if sel = 0b00 then
          d\<lparr>op_fun := OP_IMM, funct3 := 0b101, dinst := ins AND NOT (bmask 30 1)\<rparr>
        else if sel = 0b01 then
          d\<lparr>op_fun := OP_IMM, funct3 := 0b101, dinst := ins OR bmask 30 1\<rparr>
        else if sel = 0b10 then
          d\<lparr>op_fun := OP_IMM, funct3 := 0b111, imm := sext 6 (imm d)\<rparr>
        else if bit ins 12 then
          d\<lparr>op_fun := OP_32, funct3 := 0b000,
            dinst := (if \<not> bit ins 5 then ins OR bmask 30 1 else ins)\<rparr>
        else
          (let op = drop_bit 5 ins AND 0b11
           in if op = 0b00 then
                d\<lparr>op_fun := OP, dinst := ins OR bmask 30 1, funct3 := 0b000\<rparr>
              else if op = 0b01 then d\<lparr>op_fun := OP, funct3 := 0b100\<rparr>
              else if op = 0b10 then d\<lparr>op_fun := OP, funct3 := 0b110\<rparr>
              else d\<lparr>op_fun := OP, funct3 := 0b111\<rparr>))"

definition dec_c_jalr :: "u32 \<Rightarrow> decoded \<Rightarrow> decoded" where
  "dec_c_jalr ins d0 =
    (if ins = 0x9002 then d0\<lparr>op_fun := SYSTEM, cebreak := True\<rparr>
     else
       let d = d0\<lparr>rs1 := reg5 7 ins, rs2 := reg5 2 ins\<rparr>
       in if bit ins 12 then
            (if rs2 d \<noteq> 0 then d\<lparr>op_fun := OP, funct3 := 0b000, rd := rs1 d\<rparr>
             else d\<lparr>op_fun := JALR, rd := 1, imm := 0\<rparr>)
          else
            (if rs2 d \<noteq> 0 then d\<lparr>op_fun := OP, funct3 := 0b000, rd := rs1 d, rs1 := 0\<rparr>
             else d\<lparr>op_fun := JALR, rd := 0, imm := 0\<rparr>))"

text \<open>\<^term>\<open>None\<close>: the reserved opcode that raises \<open>ILLINST\<close> while decoding.\<close>

definition dec16_op :: "inst_op_16 \<Rightarrow> u32 \<Rightarrow> decoded option" where
  "dec16_op op ins =
    (let d = dec16_base ins; i = ucast ins in case op of
       C_ADDI4SPN \<Rightarrow> Some (d\<lparr>op_fun := OP_IMM, funct3 := 0b000, rs1 := 2, imm := cimm_addi4spn i\<rparr>)
     | C_FLD \<Rightarrow> Some d
     | C_LW \<Rightarrow> Some (d\<lparr>op_fun := LOAD, funct3 := 0b010, imm := cimm_lw i\<rparr>)
     | C_LD \<Rightarrow> Some (d\<lparr>op_fun := LOAD, funct3 := 0b011, imm := cimm_ld i\<rparr>)
     | C_RES1 \<Rightarrow> None
     | C_FSD \<Rightarrow> Some d
     | C_SW \<Rightarrow> Some (d\<lparr>op_fun := STORE, funct3 := 0b010, rs2 := rd d, imm := cimm_lw i\<rparr>)
     | C_SD \<Rightarrow> Some (d\<lparr>op_fun := STORE, funct3 := 0b011, rs2 := rd d, imm := cimm_ld i\<rparr>)
     | C_ADDI \<Rightarrow> Some (d\<lparr>op_fun := OP_IMM, funct3 := 0b000, rd := reg5 7 ins, rs1 := reg5 7 ins,
                          imm := sext 6 (cimm_ci i)\<rparr>)
     | C_ADDIW \<Rightarrow> Some (d\<lparr>op_fun := OP_IMM_32, funct3 := 0b000, rd := reg5 7 ins,
                           rs1 := reg5 7 ins, imm := sext 6 (cimm_ci i)\<rparr>)
     | C_LI \<Rightarrow> Some (d\<lparr>op_fun := OP_IMM, funct3 := 0b000, rd := reg5 7 ins, rs1 := 0,
                        imm := sext 6 (cimm_ci i)\<rparr>)
     | C_LUI \<Rightarrow>
         Some (if reg5 7 ins = 2
               then d\<lparr>op_fun := OP_IMM, funct3 := 0b000, rs1 := 2, rd := 2,
                      imm := sext 10 (cimm_addi16sp i)\<rparr>
               else d\<lparr>rd := reg5 7 ins, op_fun := LUI, imm := sext 18 (cimm_lui i)\<rparr>)
     | C_MISC_ALU \<Rightarrow> Some (dec_misc_alu ins d)
     | C_J \<Rightarrow> Some (d\<lparr>op_fun := JAL, rd := 0, rs1 := reg5 7 ins, imm := sext 12 (cimm_j i)\<rparr>)
     | C_BEQZ \<Rightarrow> Some (d\<lparr>op_fun := BRANCH, funct3 := ucast (drop_bit 13 ins AND 1), rs2 := 0,
                          imm := sext 9 (cimm_b i)\<rparr>)
     | C_BNEZ \<Rightarrow> Some (d\<lparr>op_fun := BRANCH, funct3 := ucast (drop_bit 13 ins AND 1), rs2 := 0,
                          imm := sext 9 (cimm_b i)\<rparr>)
     | C_SLLI \<Rightarrow> Some (d\<lparr>op_fun := OP_IMM, funct3 := 0b001, rs1 := reg5 7 ins, rd := reg5 7 ins,
                          imm := cimm_ci i\<rparr>)
     | C_FLDSP \<Rightarrow> Some d
     | C_LWSP \<Rightarrow> Some (d\<lparr>op_fun := LOAD, funct3 := 0b010, rd := reg5 7 ins, rs1 := 2,
                          imm := cimm_lwsp i\<rparr>)
     | C_LDSP \<Rightarrow> Some (d\<lparr>op_fun := LOAD, funct3 := 0b011, rd := reg5 7 ins, rs1 := 2,
                          imm := cimm_ldsp i\<rparr>)
     | C_JALR \<Rightarrow> Some (dec_c_jalr ins d)
     | C_FSDSP \<Rightarrow> Some d
     | C_SWSP \<Rightarrow> Some (d\<lparr>op_fun := STORE, funct3 := 0b010, rs2 := reg5 2 ins, rs1 := 2,
                          imm := cimm_swsp i\<rparr>)
     | C_SDSP \<Rightarrow> Some (d\<lparr>op_fun := STORE, funct3 := 0b011, rs2 := reg5 2 ins, rs1 := 2,
                          imm := cimm_sdsp i\<rparr>))"

definition op16_index :: "u32 \<Rightarrow> nat" where
  "op16_index ins = unat (push_bit 3 (ins AND 0b11) + drop_bit 13 (ins AND 0xE000))"

definition decode16 :: "u32 \<Rightarrow> decoded option" where
  "decode16 ins =
    (if op16_index ins < length inst_op_16_enum
     then dec16_op (inst_op_16_enum ! op16_index ins) ins
     else Some (dec16_base ins))"

subsection \<open>Instructions of 32 bits\<close>

definition imm_i :: "u32 \<Rightarrow> u64" where
  "imm_i ins = scast (signed_drop_bit 20 ins)"

definition imm_s :: "u32 \<Rightarrow> u64" where
  "imm_s ins = signed_drop_bit 20 (scast (ins AND push_bit 25 0b1111111)) OR ucast (reg5 7 ins)"

text \<open>The tail shared by the B and J formats: bit 0 moves to bit 11 and is cleared.\<close>

definition bit0_to_11 :: "u64 \<Rightarrow> u64" where
  "bit0_to_11 im = (if bit im 0 then im OR bmask 11 1 else im AND NOT (bmask 11 1)) AND NOT 0b1"

definition imm_b :: "u32 \<Rightarrow> u64" where
  "imm_b ins = bit0_to_11 (imm_s ins)"

definition imm_u :: "u32 \<Rightarrow> u64" where
  "imm_u ins = scast (ins AND NOT 0b111111111111)"

definition imm_j :: "u32 \<Rightarrow> u64" where
  "imm_j ins = bit0_to_11
     ((scast (signed_drop_bit 20 (ins AND NOT 0b111111111111)) AND NOT (push_bit 12 0b11111111))
      OR scast (ins AND push_bit 12 0b11111111))"

definition op32_of :: "u32 \<Rightarrow> inst_op_32" where
  "op32_of ins = inst_op_32_enum ! unat (drop_bit 2 (ins AND 0x7f) AND 0b11111)"

definition decode32 :: "u32 \<Rightarrow> decoded" where
  "decode32 ins =
    (let op = op32_of ins;
         d = \<lparr>op_fun = op, rd = reg5 7 ins, rs1 = reg5 15 ins, rs2 = 0,
              funct3 = ucast (drop_bit 12 ins AND 0b111), funct7 = 0, imm = 0,
              cebreak = False, dinst = ins\<rparr>
     in case inst_type_lookup_32 op of
          R4 \<Rightarrow> d\<lparr>rs2 := reg5 20 ins\<rparr>
        | R \<Rightarrow> d\<lparr>rs2 := reg5 20 ins, funct7 := ucast (drop_bit 25 ins AND 0b1111111)\<rparr>
        | I \<Rightarrow> d\<lparr>imm := imm_i ins\<rparr>
        | S \<Rightarrow> d\<lparr>rs2 := reg5 20 ins, imm := imm_s ins\<rparr>
        | B \<Rightarrow> d\<lparr>rs2 := reg5 20 ins, imm := imm_b ins\<rparr>
        | U \<Rightarrow> d\<lparr>imm := imm_u ins\<rparr>
        | J \<Rightarrow> d\<lparr>imm := imm_j ins\<rparr>
        | DIFF \<Rightarrow> d)"

subsection \<open>Register numbers stay below 32\<close>

lemma mask_numerals:
  "(0b11111 :: u32) = mask 5" "(0b111 :: u32) = mask 3" "(0x7f :: u32) = mask 7"
  "(0b11 :: u32) = mask 2" "(0b1111111 :: u32) = mask 7" "(0b111111111111 :: u32) = mask 12"
  by (simp_all add: mask_eq_exp_minus_1)

lemma bit_reg5 [bits]: "bit (reg5 lo ins) n \<longleftrightarrow> n < 5 \<and> bit ins (lo + n)"
  unfolding reg5_def mask_numerals by (auto simp: bit_simps dest: bit_imp_le_length)

lemma reg5_bound [simp]: "reg5 lo ins < 32"
  using less_pow_of_bits[of 5 "reg5 lo ins"] by (simp add: bits)

lemma REG16TO32_bound: "REG16TO32 lo ins < 16" "8 \<le> REG16TO32 lo ins"
proof -
  let ?r = "ucast (drop_bit lo ins AND 0b111) :: u8"
  have "?r < 2 ^ 3"
    unfolding mask_numerals by (rule less_pow_of_bits) (auto simp: bit_simps)
  then have "?r \<le> 7" by (simp add: word_less_nat_alt word_le_nat_alt)
  then show "REG16TO32 lo ins < 16" "8 \<le> REG16TO32 lo ins"
    by (simp_all add: REG16TO32_def word_less_nat_alt word_le_nat_alt unat_word_ariths)
qed

lemma REG16TO32_bound32 [simp]: "REG16TO32 lo ins < 32"
  using REG16TO32_bound(1)[of lo ins] by (rule less_trans) (simp add: word_less_nat_alt)

definition regs_ok :: "decoded \<Rightarrow> bool" where
  "regs_ok d \<longleftrightarrow> rd d < 32 \<and> rs1 d < 32 \<and> rs2 d < 32"

lemma small_reg [simp]: "(0 :: u8) < 32" "(1 :: u8) < 32" "(2 :: u8) < 32"
  by (simp_all add: word_less_nat_alt)

lemma regs_ok_base [simp]: "regs_ok (dec16_base ins)"
  by (simp add: regs_ok_def dec16_base_def)

lemma base_regs: "rd (dec16_base ins) < 32" "rs1 (dec16_base ins) < 32" "rs2 (dec16_base ins) < 32"
  by (simp_all add: dec16_base_def)

lemma regs_ok_misc_alu: "regs_ok d \<Longrightarrow> regs_ok (dec_misc_alu ins d)"
  by (simp add: regs_ok_def dec_misc_alu_def Let_def)

lemma regs_ok_c_jalr: "regs_ok d \<Longrightarrow> regs_ok (dec_c_jalr ins d)"
  by (simp add: regs_ok_def dec_c_jalr_def Let_def)

lemma regs_ok_dec16_op: "dec16_op op ins = Some d \<Longrightarrow> regs_ok d"
  by (cases op) (auto simp: dec16_op_def Let_def regs_ok_misc_alu regs_ok_c_jalr,
      simp_all add: regs_ok_def base_regs)

lemma regs_ok_decode16: "decode16 ins = Some d \<Longrightarrow> regs_ok d"
  by (auto simp: decode16_def regs_ok_dec16_op split: if_splits)

lemma regs_ok_decode32: "regs_ok (decode32 ins)"
  by (simp add: regs_ok_def decode32_def Let_def split: inst_type.split)

text \<open>
  C30. Whatever the instruction word, compressed or not, the decoder produces register numbers
  below 32: the execution units never leave the array \<open>regs[32]\<close>.
\<close>

lemma decoded_registers:
  "(case decode16 ins of None \<Rightarrow> True | Some d \<Rightarrow> rd d < 32 \<and> rs1 d < 32 \<and> rs2 d < 32)
   \<and> rd (decode32 ins) < 32 \<and> rs1 (decode32 ins) < 32 \<and> rs2 (decode32 ins) < 32"
  using regs_ok_decode16[of ins] regs_ok_decode32[of ins] by (auto simp: regs_ok_def split: option.splits)

subsection \<open>The immediates, bit by bit\<close>

lemma bit_imm_i: "n < 64 \<Longrightarrow> bit (imm_i w) n = bit w (if n < 11 then 20 + n else 31)"
  by (cases "n = 11") (auto simp: imm_i_def bit_simps min_def)

lemma bit_imm_s:
  "n < 64 \<Longrightarrow> bit (imm_s w) n = bit w (if n < 5 then 7 + n else if n < 11 then 20 + n else 31)"
  unfolding imm_s_def mask_numerals by (auto simp: bit_simps bits min_def)

lemma bit_bit0_to_11:
  "n < 64 \<Longrightarrow> bit (bit0_to_11 im) n = (n \<noteq> 0 \<and> bit im (if n = 11 then 0 else n))"
  by (cases n) (auto simp: bit0_to_11_def bit_simps bits)

lemma bit_imm_b:
  "n < 64 \<Longrightarrow> bit (imm_b w) n =
    (n \<noteq> 0 \<and> bit w (if n < 5 then 7 + n else if n < 11 then 20 + n else if n = 11 then 7 else 31))"
  by (auto simp: imm_b_def bit_bit0_to_11 bit_imm_s)

lemma bit_imm_u:
  "n < 64 \<Longrightarrow> bit (imm_u w) n = (12 \<le> n \<and> bit w (if n < 31 then n else 31))"
  unfolding imm_u_def mask_numerals by (auto simp: bit_simps min_def)

lemma mask_8: "(0b11111111 :: 'a::len word) = mask 8"
  by (simp add: mask_eq_exp_minus_1)

lemma bit_imm_j:
  "n < 64 \<Longrightarrow> bit (imm_j w) n =
    (n \<noteq> 0 \<and> bit w (if n < 11 then 20 + n else if n = 11 then 20 else if n < 20 then n else 31))"
  unfolding imm_j_def mask_8 mask_numerals
  by (auto simp: bit_bit0_to_11 bit_simps min_def)

subsection \<open>The instruction formats of the ISA manual, as assemblers\<close>

text \<open>
  Each assembler lays its operands out as the manual's format tables do, independently of
  the decoder; decoding an assembled instruction returns the operands.  Branch and jump
  offsets are even: the assembler takes the offset without its bit 0.
\<close>

definition asm_r :: "7 word \<Rightarrow> 5 word \<Rightarrow> 3 word \<Rightarrow> 5 word \<Rightarrow> 5 word \<Rightarrow> 7 word \<Rightarrow> u32" where
  "asm_r opc d f3 s1 s2 f7 = ucast opc OR push_bit 7 (ucast d) OR push_bit 12 (ucast f3)
     OR push_bit 15 (ucast s1) OR push_bit 20 (ucast s2) OR push_bit 25 (ucast f7)"

definition asm_i :: "7 word \<Rightarrow> 5 word \<Rightarrow> 3 word \<Rightarrow> 5 word \<Rightarrow> 12 word \<Rightarrow> u32" where
  "asm_i opc d f3 s1 im = ucast opc OR push_bit 7 (ucast d) OR push_bit 12 (ucast f3)
     OR push_bit 15 (ucast s1) OR push_bit 20 (ucast im)"

definition asm_s :: "7 word \<Rightarrow> 3 word \<Rightarrow> 5 word \<Rightarrow> 5 word \<Rightarrow> 12 word \<Rightarrow> u32" where
  "asm_s opc f3 s1 s2 im = ucast opc OR push_bit 7 (ucast (take_bit 5 im))
     OR push_bit 12 (ucast f3) OR push_bit 15 (ucast s1) OR push_bit 20 (ucast s2)
     OR push_bit 25 (ucast (drop_bit 5 im))"

text \<open>\<open>off\<close> is \<open>imm[12:1]\<close>: bits 12, 10:5 go to 31:25 and bits 4:1, 11 to 11:7.\<close>

definition asm_b :: "7 word \<Rightarrow> 3 word \<Rightarrow> 5 word \<Rightarrow> 5 word \<Rightarrow> 12 word \<Rightarrow> u32" where
  "asm_b opc f3 s1 s2 off = ucast opc OR push_bit 7 (of_bool (bit off 10))
     OR push_bit 8 (ucast (take_bit 4 off)) OR push_bit 12 (ucast f3)
     OR push_bit 15 (ucast s1) OR push_bit 20 (ucast s2)
     OR push_bit 25 (ucast (take_bit 6 (drop_bit 4 off))) OR push_bit 31 (ucast (drop_bit 11 off))"

definition asm_u :: "7 word \<Rightarrow> 5 word \<Rightarrow> 20 word \<Rightarrow> u32" where
  "asm_u opc d im = ucast opc OR push_bit 7 (ucast d) OR push_bit 12 (ucast im)"

text \<open>\<open>off\<close> is \<open>imm[20:1]\<close>, laid out as bits 20, 10:1, 11, 19:12.\<close>

definition asm_j :: "7 word \<Rightarrow> 5 word \<Rightarrow> 20 word \<Rightarrow> u32" where
  "asm_j opc d off = ucast opc OR push_bit 7 (ucast d)
     OR push_bit 12 (ucast (take_bit 8 (drop_bit 11 off)))
     OR push_bit 20 (of_bool (bit off 10))
     OR push_bit 21 (ucast (take_bit 10 off)) OR push_bit 31 (ucast (drop_bit 19 off))"

lemmas asm_defs = asm_r_def asm_i_def asm_s_def asm_b_def asm_u_def asm_j_def

lemma small_bits:
  "7 \<le> n \<Longrightarrow> \<not> bit (a :: 7 word) n" "5 \<le> n \<Longrightarrow> \<not> bit (b :: 5 word) n"
  "3 \<le> n \<Longrightarrow> \<not> bit (c :: 3 word) n" "12 \<le> n \<Longrightarrow> \<not> bit (d :: 12 word) n"
  "20 \<le> n \<Longrightarrow> \<not> bit (e :: 20 word) n"
  by (rule bit_above; simp)+

lemma asm_i_imm: "imm_i (asm_i opc d f3 s1 im) = scast im"
proof (rule bit_word_eqI)
  fix n assume "n < LENGTH(64)"
  then show "bit (imm_i (asm_i opc d f3 s1 im)) n = bit (scast im :: u64) n"
    by (auto simp: bit_imm_i asm_i_def bit_simps small_bits min_def)
qed

lemma asm_s_imm: "imm_s (asm_s opc f3 s1 s2 im) = scast im"
proof (rule bit_word_eqI)
  fix n assume "n < LENGTH(64)"
  then show "bit (imm_s (asm_s opc f3 s1 s2 im)) n = bit (scast im :: u64) n"
    by (auto simp: bit_imm_s asm_s_def bit_simps small_bits min_def)
qed

lemma asm_b_imm: "imm_b (asm_b opc f3 s1 s2 off) = push_bit 1 (scast off)"
proof (rule bit_word_eqI)
  fix n assume "n < LENGTH(64)"
  then show "bit (imm_b (asm_b opc f3 s1 s2 off)) n = bit (push_bit 1 (scast off) :: u64) n"
    unfolding bit_push_bit_iff
    by (auto simp: bit_imm_b asm_b_def bit_simps small_bits min_def)
qed

lemma asm_u_imm: "imm_u (asm_u opc d im) = push_bit 12 (scast im)"
proof (rule bit_word_eqI)
  fix n assume "n < LENGTH(64)"
  then show "bit (imm_u (asm_u opc d im)) n = bit (push_bit 12 (scast im) :: u64) n"
    by (auto simp: bit_imm_u asm_u_def bit_simps small_bits min_def)
qed

lemma asm_j_imm: "imm_j (asm_j opc d off) = push_bit 1 (scast off)"
proof (rule bit_word_eqI)
  fix n assume "n < LENGTH(64)"
  then show "bit (imm_j (asm_j opc d off)) n = bit (push_bit 1 (scast off) :: u64) n"
    unfolding bit_push_bit_iff
    by (auto simp: bit_imm_j asm_j_def bit_simps small_bits min_def)
qed

lemma asm_fields:
  "reg5 7 (asm_r opc d f3 s1 s2 f7) = ucast d" "reg5 15 (asm_r opc d f3 s1 s2 f7) = ucast s1"
  "reg5 20 (asm_r opc d f3 s1 s2 f7) = ucast s2"
  "reg5 7 (asm_i opc d f3 s1 im) = ucast d" "reg5 15 (asm_i opc d f3 s1 im) = ucast s1"
  "reg5 15 (asm_s opc f3 s1 s2 im) = ucast s1" "reg5 20 (asm_s opc f3 s1 s2 im) = ucast s2"
  "reg5 15 (asm_b opc f3 s1 s2 im) = ucast s1" "reg5 20 (asm_b opc f3 s1 s2 im) = ucast s2"
  "reg5 7 (asm_u opc d im20) = ucast d" "reg5 7 (asm_j opc d im20) = ucast d"
  by (rule bit_word_eqI; auto simp: bits asm_defs bit_simps small_bits dest: bit_imp_le_length)+

lemma asm_low7:
  assumes "m < 7"
  shows "bit (asm_r opc d f3 s1 s2 f7) m = bit opc m" "bit (asm_i opc d f3 s1 im) m = bit opc m"
    "bit (asm_s opc f3 s1 s2 im) m = bit opc m" "bit (asm_b opc f3 s1 s2 im) m = bit opc m"
    "bit (asm_u opc d im20) m = bit opc m" "bit (asm_j opc d im20) m = bit opc m"
  using assms by (auto simp: asm_defs bit_simps)

definition opc_op :: "7 word \<Rightarrow> inst_op_32" where
  "opc_op opc = inst_op_32_enum ! unat (drop_bit 2 opc)"

lemma op32_of_low7:
  assumes "\<And>m. m < 7 \<Longrightarrow> bit ins m = bit (opc :: 7 word) m"
  shows "op32_of ins = opc_op opc"
proof -
  have "bit (drop_bit 2 (ins AND 0x7f) AND 0b11111) n = bit (ucast (drop_bit 2 opc) :: u32) n" for n
    unfolding mask_numerals bit_and_iff bit_drop_bit_eq bit_ucast_iff comp_def bit_mask_iff
    using assms[of "2 + n"] small_bits(1)[of "2 + n" opc] by (cases "n < 5") auto
  then have "drop_bit 2 (ins AND 0x7f) AND 0b11111 = (ucast (drop_bit 2 opc) :: u32)"
    by (rule bit_word_eqI)
  moreover have "unat (ucast (drop_bit 2 opc) :: u32) = unat (drop_bit 2 opc)"
    by (rule bit_eqI) (auto simp: bit_simps small_bits dest: bit_imp_le_length)
  ultimately show ?thesis by (simp only: op32_of_def opc_op_def)
qed

lemma op32_of_asm:
  "op32_of (asm_r opc d f3 s1 s2 f7) = opc_op opc" "op32_of (asm_i opc d f3 s1 im) = opc_op opc"
  "op32_of (asm_s opc f3 s1 s2 im) = opc_op opc" "op32_of (asm_b opc f3 s1 s2 im) = opc_op opc"
  "op32_of (asm_u opc d im20) = opc_op opc" "op32_of (asm_j opc d im20) = opc_op opc"
  by (rule op32_of_low7, erule asm_low7)+

lemma asm_functs:
  "ucast (drop_bit 12 (asm_r opc d f3 s1 s2 f7) AND 0b111) = (ucast f3 :: u8)"
  "ucast (drop_bit 25 (asm_r opc d f3 s1 s2 f7) AND 0b1111111) = (ucast f7 :: u8)"
  "ucast (drop_bit 12 (asm_i opc d f3 s1 im) AND 0b111) = (ucast f3 :: u8)"
  "ucast (drop_bit 12 (asm_s opc f3 s1 s2 im) AND 0b111) = (ucast f3 :: u8)"
  "ucast (drop_bit 12 (asm_b opc f3 s1 s2 im) AND 0b111) = (ucast f3 :: u8)"
  unfolding mask_numerals
  by (rule bit_word_eqI; auto simp: asm_defs bit_simps small_bits dest: bit_imp_le_length)+

datatype asm =
    AsmR "7 word" "5 word" "3 word" "5 word" "5 word" "7 word"
  | AsmI "7 word" "5 word" "3 word" "5 word" "12 word"
  | AsmS "7 word" "3 word" "5 word" "5 word" "12 word"
  | AsmB "7 word" "3 word" "5 word" "5 word" "12 word"
  | AsmU "7 word" "5 word" "20 word"
  | AsmJ "7 word" "5 word" "20 word"

fun assemble :: "asm \<Rightarrow> u32" where
  "assemble (AsmR opc d f3 s1 s2 f7) = asm_r opc d f3 s1 s2 f7"
| "assemble (AsmI opc d f3 s1 im) = asm_i opc d f3 s1 im"
| "assemble (AsmS opc f3 s1 s2 im) = asm_s opc f3 s1 s2 im"
| "assemble (AsmB opc f3 s1 s2 off) = asm_b opc f3 s1 s2 off"
| "assemble (AsmU opc d im) = asm_u opc d im"
| "assemble (AsmJ opc d off) = asm_j opc d off"

text \<open>The decoder assigns the assembler's format to the opcode.\<close>

fun asm_wf :: "asm \<Rightarrow> bool" where
  "asm_wf (AsmR opc d f3 s1 s2 f7) = (inst_type_lookup_32 (opc_op opc) = R)"
| "asm_wf (AsmI opc d f3 s1 im) = (inst_type_lookup_32 (opc_op opc) = I)"
| "asm_wf (AsmS opc f3 s1 s2 im) = (inst_type_lookup_32 (opc_op opc) = S)"
| "asm_wf (AsmB opc f3 s1 s2 off) = (inst_type_lookup_32 (opc_op opc) = B)"
| "asm_wf (AsmU opc d im) = (inst_type_lookup_32 (opc_op opc) = U)"
| "asm_wf (AsmJ opc d off) = (inst_type_lookup_32 (opc_op opc) = J)"

text \<open>The operands an execution unit is to see: opcode, registers, functs, immediate.\<close>

fun operands :: "asm \<Rightarrow> inst_op_32 \<times> u8 option \<times> u8 option \<times> u8 option \<times> u8 option \<times> u8 option \<times> u64 option" where
  "operands (AsmR opc d f3 s1 s2 f7) =
     (opc_op opc, Some (ucast d), Some (ucast s1), Some (ucast s2), Some (ucast f3), Some (ucast f7), None)"
| "operands (AsmI opc d f3 s1 im) =
     (opc_op opc, Some (ucast d), Some (ucast s1), None, Some (ucast f3), None, Some (scast im))"
| "operands (AsmS opc f3 s1 s2 im) =
     (opc_op opc, None, Some (ucast s1), Some (ucast s2), Some (ucast f3), None, Some (scast im))"
| "operands (AsmB opc f3 s1 s2 off) =
     (opc_op opc, None, Some (ucast s1), Some (ucast s2), Some (ucast f3), None, Some (push_bit 1 (scast off)))"
| "operands (AsmU opc d im) =
     (opc_op opc, Some (ucast d), None, None, None, None, Some (push_bit 12 (scast im)))"
| "operands (AsmJ opc d off) =
     (opc_op opc, Some (ucast d), None, None, None, None, Some (push_bit 1 (scast off)))"

definition agrees :: "'a option \<Rightarrow> 'a \<Rightarrow> bool" where
  "agrees x y \<longleftrightarrow> x = None \<or> x = Some y"

definition decodes_to :: "decoded \<Rightarrow> asm \<Rightarrow> bool" where
  "decodes_to d a = (case operands a of (op, d1, s1, s2, f3, f7, im) \<Rightarrow>
     op_fun d = op \<and> agrees d1 (rd d) \<and> agrees s1 (rs1 d) \<and> agrees s2 (rs2 d) \<and>
     agrees f3 (funct3 d) \<and> agrees f7 (funct7 d) \<and> agrees im (imm d) \<and>
     \<not> cebreak d \<and> dinst d = assemble a)"

text \<open>
  C12. Decoding inverts assembling: for every 32-bit instruction of the six base formats whose
  opcode the decoder gives that format, the decoder returns the opcode, registers, function
  fields and (sign-extended, scaled) immediate the instruction was assembled from.
\<close>

lemma decode32_assemble: "asm_wf a \<Longrightarrow> decodes_to (decode32 (assemble a)) a"
  by (cases a)
    (simp_all add: decodes_to_def agrees_def decode32_def Let_def op32_of_asm
      asm_fields asm_functs asm_i_imm asm_s_imm asm_b_imm asm_u_imm asm_j_imm)

lemma decode32_assemble_witness:
  "decodes_to (decode32 (assemble (AsmI 0b0010011 8 0 0 1))) (AsmI 0b0010011 8 0 0 1)"
  by (rule decode32_assemble) (simp add: opc_op_def inst_op_32_enum_def)

end
