(* ===== verification/Trap.thy ===== *)
theory Trap
  imports Hart
begin

text \<open>
  Traps and interrupts (\<open>hartexc.cpp\<close>), and the two trap returns, which \<open>decode_exc\<close> in
  \<open>cpu.cpp\<close> executes in place.  A trap taken and then returned from is shown to be the
  identity on the program counter, the privilege mode and the interrupt enable.
\<close>

subsection \<open>Taking a trap\<close>

definition trap_pc :: "u64 \<Rightarrow> u64 \<Rightarrow> u64" where
  "trap_pc tvec cause =
    (let base = tvec AND NOT 0b1
     in if tvec AND 0b11 = 1 then base + 4 * cause else base)"

definition s_trap_mstatus :: "u64 \<Rightarrow> u8 \<Rightarrow> u64" where
  "s_trap_mstatus ms p =
    (let ms1 = (ms AND NOT (bmask 8 2)) OR push_bit 8 (ucast p);
         ms2 = (ms1 AND NOT (bmask 5 1)) OR push_bit (5 - 1) (ms1 AND bmask 1 1)
     in ms2 AND NOT (bmask 1 1))"

definition trap_to_s :: "HartState \<Rightarrow> u64 \<Rightarrow> u64 \<Rightarrow> u64 \<Rightarrow> HartState" where
  "trap_to_s hs code cause tval = hs\<lparr>
     mstatus := s_trap_mstatus (mstatus hs) (privmode hs),
     privmode := 0b01,
     scause := code,
     sepc := pc hs,
     stval := tval,
     pc := trap_pc (stvec hs) cause\<rparr>"

definition m_trap_mstatus :: "u64 \<Rightarrow> u8 \<Rightarrow> u64" where
  "m_trap_mstatus ms p =
    (let ms1 = (ms AND NOT (bmask 11 2)) OR push_bit 11 (ucast p);
         ms2 = (ms1 AND NOT (bmask 7 1)) OR push_bit (7 - 3) (ms1 AND bmask 3 1)
     in ms2 AND NOT (bmask 3 1))"

definition trap_to_m :: "HartState \<Rightarrow> u64 \<Rightarrow> u64 \<Rightarrow> u64 \<Rightarrow> HartState" where
  "trap_to_m hs code cause tval = hs\<lparr>
     mstatus := m_trap_mstatus (mstatus hs) (privmode hs),
     privmode := 0b11,
     mcause := code,
     mepc := pc hs,
     mtval := tval,
     pc := trap_pc (mtvec hs) cause\<rparr>"

definition is_interrupt :: "HartException \<Rightarrow> bool" where
  "is_interrupt he = bit (exc_code he) 63"

definition exc_cause :: "HartException \<Rightarrow> u64" where
  "exc_cause he = exc_code he AND NOT (bmask 63 1)"

definition int_mask :: "HartException \<Rightarrow> u64" where
  "int_mask he = shl64 1 (unat (exc_cause he))"

definition create_exception :: "HartState \<Rightarrow> HartException \<Rightarrow> u64 \<Rightarrow> HartException \<times> HartState" where
  "create_exception hs0 he tval =
    (let hs = hs0\<lparr>instbuf := 0\<rparr>;
         interrupt = is_interrupt he;
         cause = exc_cause he
     in if interrupt \<and> privmode hs = 0b11 \<and> \<not> bit (mstatus hs) 3 then (NOEXC, hs)
        else if interrupt \<and> privmode hs = 0b01 \<and> \<not> bit (mstatus hs) 1 \<and>
                cause \<noteq> 3 \<and> cause \<noteq> 7 \<and> cause \<noteq> 11 then (NOEXC, hs)
        else if (if interrupt then mideleg hs else medeleg hs) AND int_mask he \<noteq> 0 \<and>
                privmode hs \<le> 1 then
          (if interrupt \<and> sie hs AND int_mask he = 0 then (NOEXC, hs)
           else (he, trap_to_s hs (exc_code he) cause tval))
        else
          (if interrupt \<and> mie hs AND int_mask he = 0 then (NOEXC, hs)
           else (he, trap_to_m hs (exc_code he) cause tval)))"

subsection \<open>Pending interrupts\<close>

fun try_setints :: "HartState \<Rightarrow> (nat \<times> HartException) list \<Rightarrow> bool \<times> HartState" where
  "try_setints hs [] = (False, hs)"
| "try_setints hs ((b, x) # rest) =
    (if bit (mip hs) b then
       (let (e, hs') = create_exception hs x 0
        in if e \<noteq> NOEXC then (True, hs') else try_setints hs' rest)
     else try_setints hs rest)"

definition mip_order :: "(nat \<times> HartException) list" where
  "mip_order = [(11, MEXTINT), (3, MSOFTINT), (7, MTIMEINT), (9, SEXTINT), (1, SSOFTINT),
     (5, STIMEINT)]"

definition sip_order :: "(nat \<times> HartException) list" where
  "sip_order = [(9, SEXTINT), (1, SSOFTINT), (5, STIMEINT)]"

definition setup_pending_int :: "HartState \<Rightarrow> bool \<times> HartState" where
  "setup_pending_int hs =
    (let (taken, hs1) =
       (if (bit (mstatus hs) 3 \<or> privmode hs < 0b11) \<and> mip hs \<noteq> 0
        then try_setints hs mip_order else (False, hs))
     in if taken then (True, hs1)
        else if bit (mstatus hs1) 1 \<and> mip hs1 \<noteq> 0 then try_setints hs1 sip_order
        else (False, hs1))"

subsection \<open>Trap returns\<close>

definition mret_mstatus :: "u64 \<Rightarrow> u64" where
  "mret_mstatus ms = ((ms AND NOT (bmask 3 1)) OR drop_bit (7 - 3) (ms AND bmask 7 1))
     OR bmask 7 1"

definition exec_mret :: "HartState \<Rightarrow> HartState" where
  "exec_mret hs =
    (let ms = mret_mstatus (mstatus hs);
         p = ucast (get_field 11 2 ms);
         ms' = ms AND NOT (bmask 11 2)
     in hs\<lparr>mstatus := (if p \<noteq> 0b11 then ms' AND NOT (bmask 17 1) else ms'),
           pc := mepc hs AND NOT 0b1,
           privmode := p,
           chk_int := True\<rparr>)"

definition sret_mstatus :: "u64 \<Rightarrow> u64" where
  "sret_mstatus ms = ((ms AND NOT (bmask 1 1)) OR drop_bit (5 - 1) (ms AND bmask 5 1))
     OR bmask 5 1"

definition exec_sret :: "HartState \<Rightarrow> HartState" where
  "exec_sret hs =
    (let ms = sret_mstatus (mstatus hs);
         p = ucast (get_field 8 1 ms);
         ms' = ms AND NOT (bmask 8 1)
     in hs\<lparr>mstatus := (if p \<noteq> 0b11 then ms' AND NOT (bmask 17 1) else ms'),
           pc := sepc hs AND NOT 0b1,
           privmode := p,
           chk_int := True\<rparr>)"

subsection \<open>Status-word bits\<close>

lemma bit_small_priv:
  assumes "p \<le> 3" and "2 \<le> n"
  shows "\<not> bit (p :: u8) n"
  by (rule bit_unat_less)
    (use assms power_increasing[of 2 n "2 :: nat"] in \<open>simp add: word_le_nat_alt\<close>)

lemma priv_ext: "p \<le> 3 \<Longrightarrow> q \<le> 3 \<Longrightarrow> bit p 0 = bit q 0 \<Longrightarrow> bit p 1 = bit q 1 \<Longrightarrow> p = (q :: u8)"
proof (rule bit_word_eqI)
  fix n assume "p \<le> 3" "q \<le> 3" "bit p 0 = bit q 0" "bit p 1 = bit q 1"
  then show "bit p n = bit q n"
    using bit_small_priv[of p n] bit_small_priv[of q n]
    by (cases "n = 0"; cases "n = 1") auto
qed

lemma m_trap_mstatus_bits:
  assumes "p \<le> 3" and "n < 64"
  shows "bit (m_trap_mstatus ms p) n =
    (if n = 3 then False else if n = 7 then bit ms 3
     else if n = 11 then bit p 0 else if n = 12 then bit p 1 else bit ms n)"
proof -
  have "n \<noteq> 11 \<Longrightarrow> n \<noteq> 12 \<Longrightarrow> 11 \<le> n \<Longrightarrow> \<not> bit p (n - 11)"
    by (rule bit_small_priv[OF assms(1)]) auto
  with assms(2) show ?thesis
    by (auto simp: m_trap_mstatus_def Let_def bit_simps bits)
qed

lemma s_trap_mstatus_bits:
  assumes "p \<le> 3" and "n < 64"
  shows "bit (s_trap_mstatus ms p) n =
    (if n = 1 then False else if n = 5 then bit ms 1
     else if n = 8 then bit p 0 else if n = 9 then bit p 1 else bit ms n)"
proof -
  have "n \<noteq> 8 \<Longrightarrow> n \<noteq> 9 \<Longrightarrow> 8 \<le> n \<Longrightarrow> \<not> bit p (n - 8)"
    by (rule bit_small_priv[OF assms(1)]) auto
  with assms(2) show ?thesis
    by (auto simp: s_trap_mstatus_def Let_def bit_simps bits)
qed

lemma mret_mstatus_bits:
  "n < 64 \<Longrightarrow> bit (mret_mstatus ms) n = (if n = 3 then bit ms 7 else if n = 7 then True else bit ms n)"
  by (auto simp: mret_mstatus_def bit_simps bits)

lemma sret_mstatus_bits:
  "n < 64 \<Longrightarrow> bit (sret_mstatus ms) n = (if n = 1 then bit ms 5 else if n = 5 then True else bit ms n)"
  by (auto simp: sret_mstatus_def bit_simps bits)

lemma mpp_field: "ucast (get_field 11 2 ms) = (p :: u8) \<longleftrightarrow>
    p \<le> 3 \<and> bit p 0 = bit ms 11 \<and> bit p 1 = bit ms 12"
proof -
  let ?q = "ucast (get_field 11 2 ms) :: u8"
  have b: "bit ?q n \<longleftrightarrow> n < 2 \<and> bit ms (11 + n)" for n
    by (auto simp: bit_simps bits)
  have "?q < 2 ^ 2" by (rule less_pow_of_bits) (simp_all add: b)
  then have q3: "?q \<le> 3" by (simp add: word_le_nat_alt word_less_nat_alt)
  have q: "bit ?q 0 = bit ms 11" "bit ?q 1 = bit ms 12" by (simp_all add: b)
  show ?thesis using q3 q priv_ext[of ?q p] by metis
qed

lemma spp_field:
  assumes "p \<le> 1"
  shows "ucast (get_field 8 (Suc 0) ms) = (p :: u8) \<longleftrightarrow> bit p 0 = bit ms 8"
proof -
  have b: "bit (ucast (get_field 8 (Suc 0) ms) :: u8) n \<longleftrightarrow> n = 0 \<and> bit ms 8" for n
    by (auto simp: bit_simps bits)
  have p': "\<not> bit p n" if "n \<noteq> 0" for n
    by (rule bit_unat_less)
      (use assms that power_increasing[of 1 n "2 :: nat"] in \<open>simp add: word_le_nat_alt\<close>)
  show ?thesis
    using b p' by (metis bit_word_eqI)
qed

subsection \<open>A trap and its return\<close>

text \<open>
  C16. A trap to machine mode followed by MRET restores the program counter (with bit 0 cleared),
  the privilege mode and the interrupt enable, and leaves the registers alone.
\<close>

lemma trap_m_mret:
  assumes "privmode hs \<le> 3"
  shows "pc (exec_mret (trap_to_m hs c k v)) = pc hs AND NOT 1
    \<and> privmode (exec_mret (trap_to_m hs c k v)) = privmode hs
    \<and> bit (mstatus (exec_mret (trap_to_m hs c k v))) 3 = bit (mstatus hs) 3
    \<and> regs (exec_mret (trap_to_m hs c k v)) = regs hs"
proof (intro conjI)
  note tb = m_trap_mstatus_bits[OF assms(1), of _ "mstatus hs"]
  show "pc (exec_mret (trap_to_m hs c k v)) = pc hs AND NOT 1" "regs (exec_mret (trap_to_m hs c k v)) = regs hs"
    by (simp_all add: exec_mret_def trap_to_m_def Let_def)
  show "privmode (exec_mret (trap_to_m hs c k v)) = privmode hs"
    using assms(1) by (simp add: exec_mret_def trap_to_m_def Let_def mpp_field mret_mstatus_bits tb)
  show "bit (mstatus (exec_mret (trap_to_m hs c k v))) 3 = bit (mstatus hs) 3"
    by (simp add: exec_mret_def trap_to_m_def Let_def bit_simps bits mret_mstatus_bits tb)
qed

lemma trap_m_mret_witness:
  "privmode (exec_mret (trap_to_m (hart_init 0x1000 1) 2 2 0)) = 3
    \<and> pc (exec_mret (trap_to_m (hart_init 0x1000 1) 2 2 0)) = 0x1000"
  using trap_m_mret[of "hart_init 0x1000 1" 2 2 0] by simp

text \<open>
  C17. A trap to supervisor mode, taken in user or supervisor mode, followed by SRET restores the
  program counter (with bit 0 cleared), the privilege mode and the interrupt enable, and leaves
  the registers alone.
\<close>

lemma trap_s_sret:
  assumes "privmode hs \<le> 1"
  shows "pc (exec_sret (trap_to_s hs c k v)) = pc hs AND NOT 1
    \<and> privmode (exec_sret (trap_to_s hs c k v)) = privmode hs
    \<and> bit (mstatus (exec_sret (trap_to_s hs c k v))) 1 = bit (mstatus hs) 1
    \<and> regs (exec_sret (trap_to_s hs c k v)) = regs hs"
proof (intro conjI)
  have p3: "privmode hs \<le> 3" using assms(1) by (rule order_trans) (simp add: word_le_nat_alt)
  note tb = s_trap_mstatus_bits[OF p3, of _ "mstatus hs"]
  show "pc (exec_sret (trap_to_s hs c k v)) = pc hs AND NOT 1" "regs (exec_sret (trap_to_s hs c k v)) = regs hs"
    by (simp_all add: exec_sret_def trap_to_s_def Let_def)
  show "privmode (exec_sret (trap_to_s hs c k v)) = privmode hs"
    using assms(1) by (simp add: exec_sret_def trap_to_s_def Let_def spp_field sret_mstatus_bits tb)
  show "bit (mstatus (exec_sret (trap_to_s hs c k v))) 1 = bit (mstatus hs) 1"
    by (simp add: exec_sret_def trap_to_s_def Let_def bit_simps bits sret_mstatus_bits tb)
qed

lemma trap_s_sret_witness:
  "privmode (exec_sret (trap_to_s (hart_init 0x1000 1\<lparr>privmode := 1\<rparr>) 8 8 0)) = 1"
  using trap_s_sret[of "hart_init 0x1000 1\<lparr>privmode := 1\<rparr>" 8 8 0] by simp

lemma create_exception_cases:
  "create_exception hs he v = (NOEXC, hs\<lparr>instbuf := 0\<rparr>) \<or>
   create_exception hs he v =
     (he, trap_to_s (hs\<lparr>instbuf := 0\<rparr>) (exc_code he) (exc_cause he) v) \<and> privmode hs \<le> 1 \<or>
   create_exception hs he v =
     (he, trap_to_m (hs\<lparr>instbuf := 0\<rparr>) (exc_code he) (exc_cause he) v)"
  by (simp add: create_exception_def Let_def)

lemma create_exception_sync_taken: "\<not> is_interrupt he \<Longrightarrow> fst (create_exception hs he v) = he"
  by (simp add: create_exception_def Let_def)

text \<open>
  C14. A synchronous exception is always taken: the cause, the faulting program counter and the
  trap value are recorded for the mode that handles it, which is supervisor mode exactly if the
  exception is delegated and comes from user or supervisor mode, and no fetched half-word survives.
\<close>

lemma create_exception_sync:
  assumes "\<not> is_interrupt he"
  shows "fst (create_exception hs he v) = he \<and> instbuf (snd (create_exception hs he v)) = 0 \<and>
    (if medeleg hs AND int_mask he \<noteq> 0 \<and> privmode hs \<le> 1
     then privmode (snd (create_exception hs he v)) = 1 \<and> scause (snd (create_exception hs he v)) = exc_code he
       \<and> sepc (snd (create_exception hs he v)) = pc hs \<and> stval (snd (create_exception hs he v)) = v
       \<and> mepc (snd (create_exception hs he v)) = mepc hs
     else privmode (snd (create_exception hs he v)) = 3 \<and> mcause (snd (create_exception hs he v)) = exc_code he
       \<and> mepc (snd (create_exception hs he v)) = pc hs \<and> mtval (snd (create_exception hs he v)) = v
       \<and> sepc (snd (create_exception hs he v)) = sepc hs)"
  using assms by (simp add: create_exception_def Let_def trap_to_m_def trap_to_s_def)

lemma create_exception_sync_witness:
  "mepc (snd (create_exception (hart_init 0x1000 1) ILLINST 0)) = 0x1000
   \<and> privmode (snd (create_exception (hart_init 0x1000 1) ILLINST 0)) = 3"
proof -
  have "\<not> is_interrupt ILLINST" by (simp add: is_interrupt_def)
  from create_exception_sync[OF this, of "hart_init 0x1000 1" 0] show ?thesis
    by (simp add: hart_init_def reset_state_def zero_hart_def Let_def split: if_splits)
qed

subsection \<open>Which interrupt is taken\<close>

text \<open>
  \<open>int_ready hs x\<close>: interrupt \<open>x\<close>, were it pending, is enabled in the current mode and for
  the mode it is directed to.
\<close>

definition int_ready :: "HartState \<Rightarrow> HartException \<Rightarrow> bool" where
  "int_ready hs x \<longleftrightarrow>
    (privmode hs = 3 \<longrightarrow> bit (mstatus hs) 3) \<and>
    (privmode hs = 1 \<longrightarrow> bit (mstatus hs) 1 \<or> exc_cause x \<in> {3, 7, 11}) \<and>
    (if mideleg hs AND int_mask x \<noteq> 0 \<and> privmode hs \<le> 1
     then sie hs AND int_mask x \<noteq> 0 else mie hs AND int_mask x \<noteq> 0)"

lemma create_exception_int:
  assumes "is_interrupt x"
  shows "fst (create_exception hs x v) = (if int_ready hs x then x else NOEXC)"
    and "\<not> int_ready hs x \<Longrightarrow> snd (create_exception hs x v) = hs\<lparr>instbuf := 0\<rparr>"
  using assms by (auto simp: create_exception_def int_ready_def Let_def)

lemma create_exception_ready:
  assumes "is_interrupt x" and "int_ready hs x"
  shows "create_exception hs x v =
    (x, if mideleg hs AND int_mask x \<noteq> 0 \<and> privmode hs \<le> 1
        then trap_to_s (hs\<lparr>instbuf := 0\<rparr>) (exc_code x) (exc_cause x) v
        else trap_to_m (hs\<lparr>instbuf := 0\<rparr>) (exc_code x) (exc_cause x) v)"
  using assms by (auto simp: create_exception_def int_ready_def Let_def)

lemma create_exception_instbuf: "create_exception (hs\<lparr>instbuf := b\<rparr>) x v = create_exception hs x v"
  by (simp add: create_exception_def Let_def)

lemma int_ready_instbuf [simp]: "int_ready (hs\<lparr>instbuf := b\<rparr>) x = int_ready hs x"
  by (simp add: int_ready_def)

definition int_order_ok :: "(nat \<times> HartException) list \<Rightarrow> bool" where
  "int_order_ok l \<longleftrightarrow> (\<forall>(b, x) \<in> set l. is_interrupt x \<and> x \<noteq> NOEXC)"

lemma try_setints_spec:
  assumes "int_order_ok l"
  shows "case find (\<lambda>(b, x). bit (mip hs) b \<and> int_ready hs x) l of
       None \<Rightarrow> fst (try_setints hs l) = False \<and>
               (\<exists>ib. ib \<in> {0, instbuf hs} \<and> snd (try_setints hs l) = hs\<lparr>instbuf := ib\<rparr>)
     | Some (b, x) \<Rightarrow> try_setints hs l = (True, snd (create_exception hs x 0))"
  using assms
proof (induction hs l rule: try_setints.induct)
  case (1 hs)
  have "hs = hs\<lparr>instbuf := instbuf hs\<rparr>" by simp
  then show ?case by auto
next
  case (2 hs b x rest)
  have x: "is_interrupt x" "x \<noteq> NOEXC" and ok: "int_order_ok rest"
    using 2(3) by (auto simp: int_order_ok_def)
  note ce = create_exception_int[OF x(1), of hs 0]
  show ?case
  proof (cases "bit (mip hs) b \<and> int_ready hs x")
    case True
    then have "fst (create_exception hs x 0) \<noteq> NOEXC" using ce(1) x(2) by simp
    then show ?thesis using True by (simp add: case_prod_unfold)
  next
    case False
    show ?thesis
    proof (cases "bit (mip hs) b")
      case True
      with False have nr: "\<not> int_ready hs x" by simp
      then have e: "create_exception hs x 0 = (NOEXC, hs\<lparr>instbuf := 0\<rparr>)"
        using ce by (metis prod.collapse)
      have step: "try_setints hs ((b, x) # rest) = try_setints (hs\<lparr>instbuf := 0\<rparr>) rest"
        using True e by simp
      show ?thesis
        using "2.IH"(1)[OF True e[symmetric] refl _ ok] nr
        unfolding step by (auto split: option.splits simp: create_exception_instbuf)
    next
      case False
      then show ?thesis using "2.IH"(2)[OF False ok] by (auto split: option.splits)
    qed
  qed
qed

lemma orders_ok: "int_order_ok mip_order" "int_order_ok sip_order"
  by (simp_all add: int_order_ok_def mip_order_def sip_order_def is_interrupt_def)

definition int_candidate :: "HartState \<Rightarrow> nat \<times> HartException \<Rightarrow> bool" where
  "int_candidate hs = (\<lambda>(b, x). bit (mip hs) b \<and> int_ready hs x)"

lemma int_candidate_instbuf [simp]: "int_candidate (hs\<lparr>instbuf := b\<rparr>) = int_candidate hs"
  by (auto simp: int_candidate_def)

lemmas try_setints_find = try_setints_spec[folded int_candidate_def]

lemma find_none_subset: "find P xs = None \<Longrightarrow> set ys \<subseteq> set xs \<Longrightarrow> find P ys = None"
  by (auto simp: find_None_iff)

text \<open>The second pass, over the supervisor interrupts, never finds anything new.\<close>

lemma second_pass_idle:
  assumes "find (int_candidate hs) mip_order = None" and "ib \<in> {0, instbuf hs}"
  shows "fst (try_setints (hs\<lparr>instbuf := ib\<rparr>) sip_order) = False \<and>
    (\<exists>ib'. ib' \<in> {0, instbuf hs} \<and>
       snd (try_setints (hs\<lparr>instbuf := ib\<rparr>) sip_order) = hs\<lparr>instbuf := ib'\<rparr>)"
proof -
  have "find (int_candidate hs) sip_order = None"
    by (rule find_none_subset[OF assms(1)]) (auto simp: mip_order_def sip_order_def)
  then show ?thesis
    using try_setints_find[OF orders_ok(2), of "hs\<lparr>instbuf := ib\<rparr>"] assms(2) by auto
qed

lemma setup_pending_int_scan:
  assumes "privmode hs \<le> 3"
  shows "case find (int_candidate hs) mip_order of
       None \<Rightarrow> fst (setup_pending_int hs) = False \<and>
               (\<exists>ib. ib \<in> {0, instbuf hs} \<and> snd (setup_pending_int hs) = hs\<lparr>instbuf := ib\<rparr>)
     | Some (b, x) \<Rightarrow> setup_pending_int hs = (True, snd (create_exception hs x 0))"
proof (cases "(bit (mstatus hs) 3 \<or> privmode hs < 0b11) \<and> mip hs \<noteq> 0")
  case True
  note first = try_setints_find[OF orders_ok(1), of hs]
  show ?thesis
  proof (cases "find (int_candidate hs) mip_order")
    case None
    with first obtain ib where ib: "ib \<in> {0, instbuf hs}"
      and f: "fst (try_setints hs mip_order) = False"
      and s: "snd (try_setints hs mip_order) = hs\<lparr>instbuf := ib\<rparr>"
      by auto
    have e: "try_setints hs mip_order = (False, hs\<lparr>instbuf := ib\<rparr>)"
      using f s by (metis prod.collapse)
    have "setup_pending_int hs =
      (if bit (mstatus hs) 1 then try_setints (hs\<lparr>instbuf := ib\<rparr>) sip_order
       else (False, hs\<lparr>instbuf := ib\<rparr>))"
      using True by (simp add: setup_pending_int_def e)
    then show ?thesis
      using second_pass_idle[OF None ib(1)] ib(1) None by auto
  next
    case (Some bx)
    then show ?thesis using first True by (cases bx) (simp add: setup_pending_int_def)
  qed
next
  case False
  have "find (int_candidate hs) mip_order = None"
  proof (cases "mip hs = 0")
    case True
    then show ?thesis by (auto simp: find_None_iff int_candidate_def)
  next
    case nz: False
    with False assms have "privmode hs = 3" "\<not> bit (mstatus hs) 3" by auto
    then show ?thesis by (auto simp: find_None_iff int_candidate_def int_ready_def)
  qed
  moreover have "setup_pending_int hs =
      (if bit (mstatus hs) 1 \<and> mip hs \<noteq> 0 then try_setints hs sip_order else (False, hs))"
    unfolding setup_pending_int_def if_not_P[OF False] by simp
  moreover have "hs\<lparr>instbuf := instbuf hs\<rparr> = hs" by simp
  ultimately show ?thesis
    using second_pass_idle[of hs "instbuf hs"] by (auto intro: exI[of _ "instbuf hs"])
qed

subsection \<open>Interrupt priority and enabling by cause number\<close>

text \<open>
  The enabling condition stated on cause numbers and bits of the CSRs, without the code's tables
  and masks.  The interrupt is directed to supervisor mode if \<open>mideleg\<close> says so and the hart is
  in user or supervisor mode.  In machine mode \<open>mstatus.MIE\<close> gates everything; in supervisor
  mode \<open>mstatus.SIE\<close> gates everything but the three machine-level causes 3, 7 and 11.
\<close>

definition delegated_int :: "HartState \<Rightarrow> nat \<Rightarrow> bool" where
  "delegated_int hs c \<longleftrightarrow> bit (mideleg hs) c \<and> privmode hs \<le> 1"

definition int_enabled :: "HartState \<Rightarrow> nat \<Rightarrow> bool" where
  "int_enabled hs c \<longleftrightarrow>
    (privmode hs = 3 \<longrightarrow> bit (mstatus hs) 3) \<and>
    (privmode hs = 1 \<longrightarrow> bit (mstatus hs) 1 \<or> c = 3 \<or> c = 7 \<or> c = 11) \<and>
    (if delegated_int hs c then bit (sie hs) c else bit (mie hs) c)"

text \<open>Machine external, software, timer; then supervisor external, software, timer.\<close>

definition int_priority :: "nat list" where
  "int_priority = [11, 3, 7, 9, 1, 5]"

lemma mip_order_causes:
  assumes "(c, x) \<in> set mip_order"
  shows "int_mask x = 2 ^ c" and "exc_cause x = word_of_nat c"
    and "exc_code x = 0x8000000000000000 + word_of_nat c" and "c < 64" and "is_interrupt x"
  using assms
  by (auto simp: mip_order_def int_mask_def exc_cause_def shl64_def bmask_def is_interrupt_def)

lemma and_power_bit: "(w :: u64) AND 2 ^ c = 0 \<longleftrightarrow> \<not> bit w c"
  by (rule and_exp_eq_0_iff_not_bit)

lemma int_ready_enabled:
  assumes "(c, x) \<in> set mip_order"
  shows "int_ready hs x = int_enabled hs c"
proof -
  have "exc_cause x \<in> {3, 7, 11} \<longleftrightarrow> c = 3 \<or> c = 7 \<or> c = 11"
    using assms by (auto simp: mip_order_def exc_cause_def bmask_def)
  then show ?thesis
    using mip_order_causes[OF assms]
    by (simp add: int_ready_def int_enabled_def delegated_int_def and_power_bit)
qed

lemma find_by_key:
  "(\<And>c x. (c, x) \<in> set l \<Longrightarrow> Q (c, x) = P c) \<Longrightarrow>
    find P (map fst l) = map_option fst (find Q l)"
  by (induction l) auto

lemma find_candidate:
  "find (\<lambda>c. bit (mip hs) c \<and> int_enabled hs c) int_priority =
    map_option fst (find (int_candidate hs) mip_order)"
proof -
  have "int_priority = map fst mip_order" by (simp add: int_priority_def mip_order_def)
  moreover have "int_candidate hs (c, x) = (bit (mip hs) c \<and> int_enabled hs c)"
    if "(c, x) \<in> set mip_order" for c x
    using that by (simp add: int_candidate_def int_ready_enabled)
  ultimately show ?thesis
    using find_by_key[of mip_order "int_candidate hs" "\<lambda>c. bit (mip hs) c \<and> int_enabled hs c"] by simp
qed

text \<open>
  C15. Of the pending interrupts that are enabled, the one taken is the first in the fixed order of
  cause numbers 11, 3, 7, 9, 1, 5 (machine external, software, timer, then supervisor external,
  software, timer); the second, supervisor pass of the code never finds another one.  A delegated
  interrupt enters supervisor mode and any other one machine mode, with the cause number (and the
  interrupt bit), the interrupted pc and a zero trap value recorded, at the handler the vector
  register names.  If there is none, nothing changes but possibly the fetch buffer.
\<close>

lemma setup_pending_int_find:
  assumes "privmode hs \<le> 3" and "setup_pending_int hs = (taken, hs')"
  shows "case find (\<lambda>c. bit (mip hs) c \<and> int_enabled hs c) [11, 3, 7, 9, 1, 5] of
       None \<Rightarrow> \<not> taken \<and> (hs' = hs \<or> hs' = hs\<lparr>instbuf := 0\<rparr>)
     | Some c \<Rightarrow> taken \<and> regs hs' = regs hs \<and> mip hs' = mip hs \<and> instbuf hs' = 0 \<and>
         (if bit (mideleg hs) c \<and> privmode hs \<le> 1
          then privmode hs' = 1 \<and> scause hs' = 0x8000000000000000 + word_of_nat c \<and>
            sepc hs' = pc hs \<and> stval hs' = 0 \<and>
            pc hs' = (stvec hs AND NOT 1) +
              (if stvec hs AND 3 = 1 then 4 * word_of_nat c else 0) \<and>
            mcause hs' = mcause hs \<and> mepc hs' = mepc hs
          else privmode hs' = 3 \<and> mcause hs' = 0x8000000000000000 + word_of_nat c \<and>
            mepc hs' = pc hs \<and> mtval hs' = 0 \<and>
            pc hs' = (mtvec hs AND NOT 1) +
              (if mtvec hs AND 3 = 1 then 4 * word_of_nat c else 0) \<and>
            scause hs' = scause hs \<and> sepc hs' = sepc hs)"
proof (cases "find (int_candidate hs) mip_order")
  case None
  have "hs = hs\<lparr>instbuf := instbuf hs\<rparr>" by simp
  then show ?thesis
    using setup_pending_int_scan[OF assms(1)] find_candidate[of hs] assms(2) None
    by (auto simp: int_priority_def)
next
  case (Some cx)
  obtain c x where cx: "cx = (c, x)" by (cases cx)
  have mem: "(c, x) \<in> set mip_order" and ready: "int_ready hs x"
    using Some cx by (auto simp: find_Some_iff int_candidate_def) (metis nth_mem)
  have hs': "taken" "hs' = snd (create_exception hs x 0)"
    using setup_pending_int_scan[OF assms(1)] assms(2) Some cx by auto
  have c: "find (\<lambda>c. bit (mip hs) c \<and> int_enabled hs c) [11, 3, 7, 9, 1, 5] = Some c"
    using find_candidate[of hs] Some cx by (simp add: int_priority_def)
  note x = mip_order_causes[OF mem]
  show ?thesis
    unfolding c using hs'(1)
    by (simp add: hs'(2) create_exception_ready[OF x(5) ready] x and_power_bit trap_to_m_def
        trap_to_s_def trap_pc_def)
qed

text \<open>
  The machine timer and software interrupts are both pending: the software interrupt (cause 3)
  wins, and it goes to machine mode.
\<close>

lemma setup_pending_int_find_witness:
  "privmode (snd (setup_pending_int (hart_init 0x1000 1\<lparr>privmode := 1, mip := 0x88\<rparr>))) = 3
    \<and> mcause (snd (setup_pending_int (hart_init 0x1000 1\<lparr>privmode := 1, mip := 0x88\<rparr>))) = 0x8000000000000003"
proof -
  let ?hs = "hart_init 0x1000 1\<lparr>privmode := 1, mip := 0x88\<rparr>"
  have "find (\<lambda>c. bit (mip ?hs) c \<and> int_enabled ?hs c) [11, 3, 7, 9, 1, 5] = Some 3" "mideleg ?hs = 0"
    by (simp_all add: int_enabled_def delegated_int_def hart_init_def reset_state_def zero_hart_def)
  then show ?thesis
    using setup_pending_int_find[of ?hs "fst (setup_pending_int ?hs)" "snd (setup_pending_int ?hs)"]
    by (simp add: word_le_nat_alt)
qed

end
