(* ===== verification/Alu.thy ===== *)
theory Alu
  imports Decode Trap "HOL-Library.Signed_Division"
begin

text \<open>
  The register-only instructions of \<open>decode_exc\<close> (\<open>cpu.cpp\<close>): the integer base set, the M
  extension, jumps and branches.  Each operation is a function of the operand values; the
  \<open>exec_\<close> functions place its result in the hart.
\<close>

subsection \<open>Control of the execution switch\<close>

text \<open>
  How an arm of the switch ends: \<open>Done c\<close> leaves it with \<open>pc_chgd = c\<close>; \<open>Return e\<close> returns
  \<open>e\<close> from \<open>decode_exc\<close> at once.
\<close>

datatype ctl = Done bool | Return HartException

definition set_reg :: "u8 \<Rightarrow> u64 \<Rightarrow> HartState \<Rightarrow> HartState" where
  "set_reg r v hs = hs\<lparr>regs := (regs hs)(r := v)\<rparr>"

definition raise :: "HartException \<Rightarrow> u64 \<Rightarrow> HartState \<Rightarrow> ctl \<times> HartState" where
  "raise he tval hs = (let (e, hs') = create_exception hs he tval in (Return e, hs'))"

definition inst_bytes :: "HartState \<Rightarrow> u64" where
  "inst_bytes hs = ucast (inst_len hs div 8)"

definition slt :: "u64 \<Rightarrow> u64 \<Rightarrow> bool" where
  "slt a b \<longleftrightarrow> sint a < sint b"

subsection \<open>OP-IMM and OP-IMM-32\<close>

definition op_imm_val :: "u8 \<Rightarrow> bool \<Rightarrow> u64 \<Rightarrow> u64 \<Rightarrow> u64" where
  "op_imm_val f3 b30 a im =
    (if f3 = 0b000 then a + im
     else if f3 = 0b011 then of_boolean (a < im)
     else if f3 = 0b010 then of_boolean (slt a im)
     else if f3 = 0b100 then a XOR im
     else if f3 = 0b110 then a OR im
     else if f3 = 0b111 then a AND im
     else if f3 = 0b001 then push_bit (unat (im AND 0b111111)) a
     else if b30 then signed_drop_bit (unat (im AND 0b111111)) a
     else drop_bit (unat (im AND 0b111111)) a)"

definition op_imm_32_val :: "u8 \<Rightarrow> bool \<Rightarrow> u64 \<Rightarrow> u64 \<Rightarrow> u64" where
  "op_imm_32_val f3 b30 a im =
    (if f3 = 0b000 then sx32 (lo32 (a + im))
     else if f3 = 0b011 then of_boolean (zx32 (lo32 a) < im)
     else if f3 = 0b010 then of_boolean (slt (sx32 (lo32 a)) im)
     else if f3 = 0b100 then sx32 (lo32 a) XOR im
     else if f3 = 0b110 then sx32 (lo32 a) OR im
     else if f3 = 0b111 then sx32 (lo32 a) AND im
     else if f3 = 0b001 then sx32 (push_bit (unat (im AND 0b11111)) (lo32 a))
     else if b30 then sx32 (signed_drop_bit (unat (im AND 0b11111)) (lo32 a))
     else sx32 (drop_bit (unat (im AND 0b11111)) (lo32 a)))"

subsection \<open>OP\<close>

definition op_base_val :: "u8 \<Rightarrow> bool \<Rightarrow> u64 \<Rightarrow> u64 \<Rightarrow> u64" where
  "op_base_val f3 b30 a b =
    (if f3 = 0b000 then (if b30 then a - b else a + b)
     else if f3 = 0b011 then of_boolean (a < b)
     else if f3 = 0b010 then of_boolean (slt a b)
     else if f3 = 0b100 then a XOR b
     else if f3 = 0b110 then a OR b
     else if f3 = 0b111 then a AND b
     else if f3 = 0b001 then push_bit (unat (b AND 0b111111)) a
     else if b30 then signed_drop_bit (unat (b AND 0b111111)) a
     else drop_bit (unat (b AND 0b111111)) a)"

text \<open>The products are computed in 128 bits and shifted down, as the source does.\<close>

definition mulh_val :: "u64 \<Rightarrow> u64 \<Rightarrow> u64" where
  "mulh_val a b = ucast (signed_drop_bit 64 (scast a * scast b :: 128 word))"

definition mulhsu_val :: "u64 \<Rightarrow> u64 \<Rightarrow> u64" where
  "mulhsu_val a b = ucast (signed_drop_bit 64 (scast a * ucast b :: 128 word))"

definition mulhu_val :: "u64 \<Rightarrow> u64 \<Rightarrow> u64" where
  "mulhu_val a b = ucast (signed_drop_bit 64 (ucast a * ucast b :: 128 word))"

abbreviation INT64_MIN :: u64 where "INT64_MIN \<equiv> 0x8000000000000000"

definition div_val :: "u64 \<Rightarrow> u64 \<Rightarrow> u64" where
  "div_val a b =
    (if b = 0 then - 1
     else if a = INT64_MIN \<and> b = - 1 then a
     else word_of_int (sint a sdiv sint b))"

definition divu_val :: "u64 \<Rightarrow> u64 \<Rightarrow> u64" where
  "divu_val a b = (if b = 0 then 0xffffffffffffffff else a div b)"

definition rem_val :: "u64 \<Rightarrow> u64 \<Rightarrow> u64" where
  "rem_val a b =
    (if b = 0 then a
     else if a = INT64_MIN \<and> b = - 1 then 0
     else word_of_int (sint a smod sint b))"

definition remu_val :: "u64 \<Rightarrow> u64 \<Rightarrow> u64" where
  "remu_val a b = (if b = 0 then a else a mod b)"

definition op_mul_val :: "u8 \<Rightarrow> u64 \<Rightarrow> u64 \<Rightarrow> u64" where
  "op_mul_val f3 a b =
    (if f3 = 0b000 then a * b
     else if f3 = 0b001 then mulh_val a b
     else if f3 = 0b010 then mulhsu_val a b
     else if f3 = 0b011 then mulhu_val a b
     else if f3 = 0b100 then div_val a b
     else if f3 = 0b101 then divu_val a b
     else if f3 = 0b110 then rem_val a b
     else remu_val a b)"

subsection \<open>OP-32\<close>

definition op32_base_val :: "u8 \<Rightarrow> bool \<Rightarrow> u64 \<Rightarrow> u64 \<Rightarrow> u64" where
  "op32_base_val f3 b30 a b =
    (if f3 = 0b000 then (if b30 then sx32 (lo32 a - lo32 b) else sx32 (lo32 a + lo32 b))
     else if f3 = 0b011 then of_boolean (lo32 a < lo32 b)
     else if f3 = 0b010 then of_boolean (sint (lo32 a) < sint (lo32 b))
     else if f3 = 0b100 then sx32 (lo32 a XOR lo32 b)
     else if f3 = 0b110 then sx32 (lo32 a OR lo32 b)
     else if f3 = 0b111 then sx32 (lo32 a AND lo32 b)
     else if f3 = 0b001 then sx32 (push_bit (unat (lo32 b AND 0b11111)) (lo32 a))
     else if b30 then sx32 (signed_drop_bit (unat (b AND 0b11111)) (lo32 a))
     else sx32 (drop_bit (unat (b AND 0b11111)) (lo32 a)))"

abbreviation INT32_MIN :: u32 where "INT32_MIN \<equiv> 0x80000000"

text \<open>
  The overflow test of DIVW compares the 64-bit registers, so an operand pair that is
  \<open>INT32_MIN\<close>, \<open>-1\<close> only in its low halves reaches the division, which traps: \<open>None\<close>.
\<close>

definition divw_val :: "u64 \<Rightarrow> u64 \<Rightarrow> u64 option" where
  "divw_val a b =
    (if lo32 b = 0 then Some (- 1)
     else if a = sx32 INT32_MIN \<and> b = - 1 then Some (sx32 (lo32 a))
     else if lo32 a = INT32_MIN \<and> lo32 b = - 1 then None
     else Some (sx32 (word_of_int (sint (lo32 a) sdiv sint (lo32 b)))))"

definition divuw_val :: "u64 \<Rightarrow> u64 \<Rightarrow> u64" where
  "divuw_val a b = (if lo32 b = 0 then 0xffffffffffffffff else sx32 (lo32 a div lo32 b))"

definition remw_val :: "u64 \<Rightarrow> u64 \<Rightarrow> u64" where
  "remw_val a b =
    (if lo32 b = 0 then sx32 (lo32 a)
     else if lo32 a = INT32_MIN \<and> lo32 b = - 1 then 0
     else word_of_int (sint (lo32 a) smod sint (lo32 b)))"

definition remuw_val :: "u64 \<Rightarrow> u64 \<Rightarrow> u64" where
  "remuw_val a b = (if lo32 b = 0 then sx32 (lo32 a) else sx32 (lo32 a mod lo32 b))"

subsection \<open>Execution\<close>

text \<open>\<open>hs.inst & (0b1 << 30)\<close>\<close>

definition inst_b30 :: "HartState \<Rightarrow> bool" where
  "inst_b30 hs = bit (inst hs) 30"

definition exec_op_imm :: "decoded \<Rightarrow> HartState \<Rightarrow> HartState" where
  "exec_op_imm d hs = set_reg (rd d) (op_imm_val (funct3 d) (inst_b30 hs) (regs hs (rs1 d)) (imm d)) hs"

definition exec_op_imm_32 :: "decoded \<Rightarrow> HartState \<Rightarrow> HartState" where
  "exec_op_imm_32 d hs =
     set_reg (rd d) (op_imm_32_val (funct3 d) (inst_b30 hs) (regs hs (rs1 d)) (imm d)) hs"

definition exec_op :: "decoded \<Rightarrow> HartState \<Rightarrow> HartState" where
  "exec_op d hs =
    (let a = regs hs (rs1 d); b = regs hs (rs2 d)
     in if funct7 d = 0b0100000 \<or> funct7 d = 0b0000000 then
          set_reg (rd d) (op_base_val (funct3 d) (inst_b30 hs) a b) hs
        else if funct7 d = 0b0000001 then set_reg (rd d) (op_mul_val (funct3 d) a b) hs
        else hs)"

definition exec_op_32 :: "decoded \<Rightarrow> HartState \<Rightarrow> HartState option" where
  "exec_op_32 d hs =
    (let a = regs hs (rs1 d); b = regs hs (rs2 d)
     in if funct7 d = 0b0100000 \<or> funct7 d = 0b0000000 then
          Some (set_reg (rd d) (op32_base_val (funct3 d) (inst_b30 hs) a b) hs)
        else if funct7 d = 0b0000001 then
          (if funct3 d = 0b000 then Some (set_reg (rd d) (sx32 (lo32 a * lo32 b)) hs)
           else if funct3 d = 0b100 then
             (case divw_val a b of None \<Rightarrow> None | Some v \<Rightarrow> Some (set_reg (rd d) v hs))
           else if funct3 d = 0b101 then Some (set_reg (rd d) (divuw_val a b) hs)
           else if funct3 d = 0b110 then Some (set_reg (rd d) (remw_val a b) hs)
           else if funct3 d = 0b111 then Some (set_reg (rd d) (remuw_val a b) hs)
           else Some hs)
        else Some hs)"

definition exec_lui :: "decoded \<Rightarrow> HartState \<Rightarrow> HartState" where
  "exec_lui d hs = set_reg (rd d) (imm d) hs"

definition exec_auipc :: "decoded \<Rightarrow> HartState \<Rightarrow> HartState" where
  "exec_auipc d hs = set_reg (rd d) (imm d + pc hs) hs"

definition exec_jal :: "decoded \<Rightarrow> HartState \<Rightarrow> ctl \<times> HartState" where
  "exec_jal d hs =
    (let hs1 = (set_reg (rd d) (pc hs + inst_bytes hs) hs)\<lparr>pc := pc hs + imm d\<rparr>
     in if bit (pc hs1) 0 then raise IMISALIGN (pc hs1) hs1 else (Done True, hs1))"

definition exec_jalr :: "decoded \<Rightarrow> HartState \<Rightarrow> ctl \<times> HartState" where
  "exec_jalr d hs =
    (let swap_tmp = pc hs + inst_bytes hs;
         hs1 = set_reg (rd d) swap_tmp (hs\<lparr>pc := (regs hs (rs1 d) + imm d) AND NOT 0b1\<rparr>)
     in if bit (pc hs1) 0 then raise IMISALIGN (pc hs1) hs1 else (Done True, hs1))"

definition branch_taken :: "u8 \<Rightarrow> u64 \<Rightarrow> u64 \<Rightarrow> bool" where
  "branch_taken f3 a b =
    (if f3 = 0b000 then a = b
     else if f3 = 0b001 then a \<noteq> b
     else if f3 = 0b100 then slt a b
     else if f3 = 0b101 then \<not> slt a b
     else if f3 = 0b110 then a < b
     else if f3 = 0b111 then \<not> a < b
     else False)"

definition exec_branch :: "decoded \<Rightarrow> HartState \<Rightarrow> ctl \<times> HartState" where
  "exec_branch d hs =
    (if branch_taken (funct3 d) (regs hs (rs1 d)) (regs hs (rs2 d)) then
       (let hs1 = hs\<lparr>pc := pc hs + imm d\<rparr>
        in if bit (pc hs1) 0 then raise IMISALIGN (pc hs1) hs1 else (Done True, hs1))
     else (Done False, hs))"

subsection \<open>The high halves of products\<close>

lemma high_half: "ucast (signed_drop_bit 64 (word_of_int x :: 128 word)) = (word_of_int (drop_bit 64 x) :: u64)"
  by (rule bit_word_eqI) (auto simp: bit_simps)

lemma scast_int: "(scast (a :: u64) :: 128 word) = word_of_int (sint a)"
  by simp

lemma ucast_int: "(ucast (a :: u64) :: 128 word) = word_of_int (uint a)"
  by simp

lemma mulh_val_int: "mulh_val a b = word_of_int ((sint a * sint b) div 2 ^ 64)"
  unfolding mulh_val_def scast_int of_int_mult[symmetric] high_half by (simp add: drop_bit_eq_div)

lemma mulhsu_val_int: "mulhsu_val a b = word_of_int ((sint a * uint b) div 2 ^ 64)"
  unfolding mulhsu_val_def scast_int ucast_int of_int_mult[symmetric] high_half
  by (simp add: drop_bit_eq_div)

lemma mulhu_val_int: "mulhu_val a b = word_of_int ((uint a * uint b) div 2 ^ 64)"
  unfolding mulhu_val_def ucast_int of_int_mult[symmetric] high_half
  by (simp add: drop_bit_eq_div)

subsection \<open>Division\<close>

lemma sint_range64: "- (2 ^ 63) \<le> sint (a :: u64)" "sint (a :: u64) < 2 ^ 63"
  using sint_ge[of a] sint_lt[of a] by simp_all

lemma sint_range32: "- (2 ^ 31) \<le> sint (a :: u32)" "sint (a :: u32) < 2 ^ 31"
  using sint_ge[of a] sint_lt[of a] by simp_all

lemma sdiv_bounds:
  fixes x y :: int
  assumes "- M \<le> x" "x < M" "y \<noteq> 0" "\<not> (x = - M \<and> y = - 1)"
  shows "- M \<le> x sdiv y" "x sdiv y < M"
proof -
  have r: "x sdiv y \<in> {- \<bar>x\<bar>..\<bar>x\<bar>}" by (rule sdiv_int_range)
  then show "- M \<le> x sdiv y" using assms(1,2) by auto
  have "x sdiv y \<noteq> M"
  proof
    assume e: "x sdiv y = M"
    with r assms(1,2) have x: "x = - M" and M: "M > 0" by auto
    with e have q: "- sgn y * (M div \<bar>y\<bar>) = M" by (simp add: signed_divide_int_def)
    have nonneg: "0 \<le> M div \<bar>y\<bar>" using M by (simp add: pos_imp_zdiv_nonneg_iff assms(3))
    have y: "y < 0"
    proof (rule ccontr)
      assume "\<not> y < 0"
      with assms(3) q have "- (M div \<bar>y\<bar>) = M" by simp
      with nonneg M show False by simp
    qed
    with q have "M div \<bar>y\<bar> = M" by simp
    then have "\<not> 1 < \<bar>y\<bar>" using int_div_less_self[OF M, of "\<bar>y\<bar>"] by auto
    with y have "y = - 1" by simp
    with x assms(4) show False by simp
  qed
  then show "x sdiv y < M" using r assms(1,2) by auto
qed

lemma sint_word_of_int64: "- (2 ^ 63) \<le> x \<Longrightarrow> x < 2 ^ 63 \<Longrightarrow> sint (word_of_int x :: u64) = x"
  by (simp add: signed_take_bit_int_eq_self sint_sbintrunc')

lemma sint_word_of_int32: "- (2 ^ 31) \<le> x \<Longrightarrow> x < 2 ^ 31 \<Longrightarrow> sint (word_of_int x :: u32) = x"
  by (simp add: signed_take_bit_int_eq_self sint_sbintrunc')

lemma sint_INT64_MIN: "sint a = - (2 ^ 63) \<longleftrightarrow> a = INT64_MIN"
proof -
  have "sint INT64_MIN = - (2 ^ 63)" by simp
  then show ?thesis using signed_word_eqI by metis
qed

lemma sint_INT32_MIN: "sint a = - (2 ^ 31) \<longleftrightarrow> a = INT32_MIN"
proof -
  have "sint INT32_MIN = - (2 ^ 31)" by simp
  then show ?thesis using signed_word_eqI by metis
qed

lemma sint_m1: "sint a = - 1 \<longleftrightarrow> a = - 1"
proof -
  have "sint (- 1 :: 'a word) = - 1" by simp
  then show ?thesis using signed_word_eqI by metis
qed

lemma div_val_sint:
  assumes "b \<noteq> 0" and "\<not> (a = INT64_MIN \<and> b = - 1)"
  shows "sint (div_val a b) = sint a sdiv sint b"
proof -
  have nz: "sint b \<noteq> 0" using assms(1) signed_word_eqI[of b 0] by auto
  have ov: "\<not> (sint a = - (2 ^ 63) \<and> sint b = - 1)"
    using assms(2) unfolding sint_INT64_MIN sint_m1 .
  then show ?thesis
    using assms sdiv_bounds[OF sint_range64[of a] nz ov]
    by (simp add: div_val_def sint_word_of_int64)
qed

lemma rem_val_sint:
  assumes "b \<noteq> 0" and "\<not> (a = INT64_MIN \<and> b = - 1)"
  shows "sint (rem_val a b) = sint a smod sint b"
proof -
  have nz: "sint b \<noteq> 0" using assms(1) signed_word_eqI[of b 0] by auto
  have "sint a smod sint b \<in> {- \<bar>sint b\<bar> + 1 .. \<bar>sint b\<bar> - 1}"
    using smod_int_range[OF nz, of "sint a"] .
  then have "- (2 ^ 63) \<le> sint a smod sint b" "sint a smod sint b < 2 ^ 63"
    using sint_range64[of b] by auto
  then show ?thesis
    unfolding rem_val_def if_not_P[OF assms(1)] if_not_P[OF assms(2)] by (rule sint_word_of_int64)
qed

lemma div_rem_identity:
  assumes "b \<noteq> 0"
  shows "div_val a b * b + rem_val a b = a"
proof (cases "a = INT64_MIN \<and> b = - 1")
  case True
  then show ?thesis by (simp add: div_val_def rem_val_def)
next
  case False
  have "div_val a b * b + rem_val a b =
      word_of_int (sint a sdiv sint b * sint b + sint a smod sint b)"
    using assms unfolding div_val_def rem_val_def if_not_P[OF assms] if_not_P[OF False]
    by simp
  then show ?thesis by (simp add: sdiv_mult_smod_eq)
qed

lemma divu_remu_identity: "b \<noteq> 0 \<Longrightarrow> divu_val a b * b + remu_val a b = a"
  by (simp add: divu_val_def remu_val_def word_mod_div_equality)

text \<open>
  C25. DIV and REM round towards zero on signed operands; division by zero gives all ones and the
  dividend, the overflow case the dividend and zero; and for every divisor but zero quotient and
  remainder fit together in wrap-around arithmetic.
\<close>

lemma signed_division:
  "(b \<noteq> 0 \<and> \<not> (a = INT64_MIN \<and> b = - 1) \<longrightarrow>
      sint (div_val a b) = sint a sdiv sint b \<and> sint (rem_val a b) = sint a smod sint b)
   \<and> div_val a 0 = - 1 \<and> rem_val a 0 = a
   \<and> div_val INT64_MIN (- 1) = INT64_MIN \<and> rem_val INT64_MIN (- 1) = 0
   \<and> (b \<noteq> 0 \<longrightarrow> div_val a b * b + rem_val a b = a)"
  using div_val_sint[of b a] rem_val_sint[of b a] div_rem_identity[of b a]
  by (auto simp: div_val_def rem_val_def)

lemma signed_division_witness: "sint (div_val (- 7) 2) = - 3 \<and> sint (rem_val (- 7) 2) = - 1"
  using signed_division[of 2 "- 7"] by simp

text \<open>
  C27. The three high multiplications return bits 64 to 127 of the exact product of their
  operands, read as signed or unsigned as the instruction says.
\<close>

lemma high_products:
  "mulh_val a b = word_of_int ((sint a * sint b) div 2 ^ 64)
   \<and> mulhsu_val a b = word_of_int ((sint a * uint b) div 2 ^ 64)
   \<and> mulhu_val a b = word_of_int ((uint a * uint b) div 2 ^ 64)"
  by (intro conjI) (rule mulh_val_int mulhsu_val_int mulhu_val_int)+

text \<open>
  DIVW has undefined behaviour (the host's division traps) exactly when the low words are
  \<open>INT32_MIN\<close> and -1 but the full registers are not their sign extensions: the overflow test
  of the code looks at all 64 bits.
\<close>

lemma divw_undefined:
  "divw_val a b = None \<longleftrightarrow>
     lo32 a = INT32_MIN \<and> lo32 b = - 1 \<and> \<not> (a = sx32 INT32_MIN \<and> b = - 1)"
  by (auto simp: divw_val_def)

subsection \<open>W instructions produce sign-extended words\<close>

definition is_sx32 :: "u64 \<Rightarrow> bool" where
  "is_sx32 v \<longleftrightarrow> sx32 (lo32 v) = v"

lemma lo32_sx32 [simp]: "lo32 (sx32 w) = w"
proof (rule bit_word_eqI)
  fix n assume "n < LENGTH(32)"
  then show "bit (lo32 (sx32 w)) n = bit w n"
    by (cases "n = 31") (simp_all add: lo32_def sx32_def bit_simps min_def)
qed

lemma is_sx32_sx32 [simp]: "is_sx32 (sx32 w)"
  by (simp add: is_sx32_def)

lemma is_sx32_const [simp]: "is_sx32 0" "is_sx32 1" "is_sx32 (- 1)" "is_sx32 0xffffffffffffffff"
proof -
  show "is_sx32 0" "is_sx32 1" "is_sx32 0xffffffffffffffff"
    by (simp_all add: is_sx32_def sx32_def lo32_def)
  moreover have "(0xffffffffffffffff :: u64) = - 1" by simp
  ultimately show "is_sx32 (- 1)" by metis
qed

lemma is_sx32_of_boolean [simp]: "is_sx32 (of_boolean b)"
  by (cases b) simp_all

lemma is_sx32_word_of_int:
  assumes "- (2 ^ 31) \<le> x" and "x < 2 ^ 31"
  shows "is_sx32 (word_of_int x)"
proof -
  have "sint (word_of_int x :: u32) = x" using assms by (rule sint_word_of_int32)
  moreover have "lo32 (word_of_int x) = word_of_int x"
    unfolding lo32_def by (rule bit_word_eqI) (simp add: bit_simps)
  moreover have "sx32 w = word_of_int (sint w)" for w by (simp add: sx32_def)
  ultimately show ?thesis by (simp only: is_sx32_def)
qed

lemma is_sx32_remw: "is_sx32 (remw_val a b)"
proof (cases "lo32 b = 0")
  case True
  then show ?thesis by (simp add: remw_val_def)
next
  case False
  then have nz: "sint (lo32 b) \<noteq> 0" using signed_word_eqI[of "lo32 b" 0] by auto
  have "sint (lo32 a) smod sint (lo32 b) \<in> {- \<bar>sint (lo32 b)\<bar> + 1 .. \<bar>sint (lo32 b)\<bar> - 1}"
    using smod_int_range[OF nz, of "sint (lo32 a)"] .
  then have "is_sx32 (word_of_int (sint (lo32 a) smod sint (lo32 b)))"
    using sint_range32[of "lo32 b"] by (intro is_sx32_word_of_int) auto
  then show ?thesis by (simp add: remw_val_def)
qed

lemma is_sx32_divw: "divw_val a b = Some v \<Longrightarrow> is_sx32 v"
  by (auto simp: divw_val_def split: if_splits)

lemma is_sx32_op32_base: "is_sx32 (op32_base_val f3 b30 a b)"
  by (simp add: op32_base_val_def)

lemma exec_op_32_result:
  assumes "exec_op_32 d hs = Some hs'"
  shows "hs' = hs \<or> (\<exists>v. is_sx32 v \<and> hs' = set_reg (rd d) v hs)"
  using assms
  by (auto simp: exec_op_32_def Let_def is_sx32_op32_base is_sx32_remw divuw_val_def remuw_val_def
      split: if_splits option.splits dest: is_sx32_divw intro!: exI)

text \<open>
  C26. Every OP-32 instruction (ADDW to REMUW) either changes nothing or writes its destination
  register, and then with the sign extension of a 32-bit value; no other state of the hart changes.
\<close>

lemma op_32_sign_extends:
  assumes "exec_op_32 d hs = Some hs'"
  shows "hs' = set_reg (rd d) (regs hs' (rd d)) hs
    \<and> (hs' \<noteq> hs \<longrightarrow> (\<exists>w :: u32. regs hs' (rd d) = scast w))"
proof (cases "hs' = hs")
  case True
  then show ?thesis by (simp add: set_reg_def)
next
  case False
  then obtain v where "is_sx32 v" "hs' = set_reg (rd d) v hs" using exec_op_32_result[OF assms] by blast
  then show ?thesis by (auto simp: set_reg_def is_sx32_def sx32_def intro: exI[of _ "lo32 v"])
qed

definition demo_divw :: decoded where
  "demo_divw = \<lparr>op_fun = OP_32, rd = 5, rs1 = 1, rs2 = 0, funct3 = 4, funct7 = 1, imm = 0,
     cebreak = False, dinst = 0x0200c2bb\<rparr>"

lemma op_32_sign_extends_witness:
  "exec_op_32 demo_divw (hart_init 0x1000 1) = Some (set_reg 5 (- 1) (hart_init 0x1000 1))
   \<and> (\<exists>w :: u32. - 1 = (scast w :: u64))"
proof -
  have z: "regs (hart_init 0x1000 1) 0 = 0" by (simp add: hart_init_def reset_state_def zero_hart_def Let_def)
  have e: "exec_op_32 demo_divw (hart_init 0x1000 1) = Some (set_reg 5 (- 1) (hart_init 0x1000 1))"
    by (simp add: demo_divw_def exec_op_32_def Let_def divw_val_def z lo32_def)
  have "regs (set_reg 5 (- 1) (hart_init 0x1000 1)) 5 \<noteq> regs (hart_init 0x1000 1) 5"
    by (simp add: set_reg_def hart_init_def reset_state_def zero_hart_def Let_def)
  then have "set_reg 5 (- 1) (hart_init 0x1000 1) \<noteq> hart_init 0x1000 1" by metis
  then show ?thesis using e op_32_sign_extends[OF e] by (simp add: set_reg_def demo_divw_def)
qed

end
