(* ===== verification/Pmp.thy ===== *)
theory Pmp
  imports Hart
begin

text \<open>
  Physical memory protection: \<open>chk_pmp\<close>, \<open>chk_pmp_range\<close>, \<open>sync_exp_pmp\<close>,
  \<open>chk_pmp_exp\<close> and \<open>chk_pmp_range_exp\<close> of \<open>mem.cpp\<close>.  The emulator keeps, beside the raw
  registers, a table of decoded entries and the smallest range holding every entry that
  restricts anything; the theory relates both to a first-match specification on the raw
  registers, for a byte (\<open>pmp_spec\<close>) and for a whole access (\<open>pmp_rule\<close>).
\<close>

subsection \<open>Decoding one entry\<close>

definition pmp_a :: "u8 \<Rightarrow> u8" where
  "pmp_a cfg = drop_bit 3 (cfg AND 0b11000)"

definition napot_bounds :: "u64 \<Rightarrow> u64 \<times> u64" where
  "napot_bounds pmp_addr =
    (if pmp_addr \<noteq> 0xffffffffffffffff then
       (let size = ffsll (NOT pmp_addr) - 1;
            lower = shl64 (shr64 pmp_addr size) (size + 2)
        in (lower, lower + shl64 1 (size + 2)))
     else (0, 0xffffffffffffffff))"

definition pmp_bounds :: "HartState \<Rightarrow> nat \<Rightarrow> u64 \<times> u64" where
  "pmp_bounds hs i =
    (if pmp_a (pmpcfg hs i) = 1 then
       ((if i = 0 then 0 else push_bit 2 (pmpaddr hs (i - 1))), push_bit 2 (pmpaddr hs i))
     else if pmp_a (pmpcfg hs i) = 2 then
       (push_bit 2 (pmpaddr hs i), push_bit 2 (pmpaddr hs i) + 4)
     else napot_bounds (pmpaddr hs i))"

text \<open>
  \<open>chk_pmp\<close> takes the bounds of TOR and NA4 entries from \<open>pmpcfg\<close>, not from
  \<open>pmpaddr\<close>, as written (nothing calls it).
\<close>

definition chk_pmp_bounds :: "HartState \<Rightarrow> nat \<Rightarrow> u64 \<times> u64" where
  "chk_pmp_bounds hs i =
    (if pmp_a (pmpcfg hs i) = 1 then
       ((if i = 0 then 0 else push_bit 2 (ucast (pmpcfg hs (i - 1)))),
        push_bit 2 (ucast (pmpcfg hs i)))
     else if pmp_a (pmpcfg hs i) = 2 then
       (push_bit 2 (ucast (pmpcfg hs i)), push_bit 2 (ucast (pmpcfg hs i)) + 4)
     else napot_bounds (pmpaddr hs i))"

definition in_bounds :: "u64 \<times> u64 \<Rightarrow> u64 \<Rightarrow> bool" where
  "in_bounds b a \<longleftrightarrow> fst b \<le> a \<and> a < snd b"

fun chk_pmp_loop :: "HartState \<Rightarrow> u64 \<Rightarrow> nat list \<Rightarrow> u16" where
  "chk_pmp_loop hs addr [] = 0xFFF0"
| "chk_pmp_loop hs addr (ind # rest) =
    (let pmp_entry = pmpcfg hs ind
     in if pmp_a pmp_entry = 0 then chk_pmp_loop hs addr rest
        else if privmode hs = 3 \<and> \<not> bit pmp_entry 7 then chk_pmp_loop hs addr rest
        else if in_bounds (chk_pmp_bounds hs ind) addr
          then push_bit 6 (ucast pmp_entry AND 0b10000111) + of_nat ind
        else chk_pmp_loop hs addr rest)"

definition chk_pmp :: "HartState \<Rightarrow> u64 \<Rightarrow> u16" where
  "chk_pmp hs addr = chk_pmp_loop hs addr [0..<PMP_COUNT]"

fun chk_pmp_range_loop :: "HartState \<Rightarrow> u64 \<Rightarrow> u64 \<Rightarrow> nat list \<Rightarrow> u8" where
  "chk_pmp_range_loop hs addrl addrh [] = 0xFF"
| "chk_pmp_range_loop hs addrl addrh (ind # rest) =
    (let pmp_entry = pmpcfg hs ind
     in if pmp_a pmp_entry = 0 then chk_pmp_range_loop hs addrl addrh rest
        else if privmode hs = 3 \<and> \<not> bit pmp_entry 7 then chk_pmp_range_loop hs addrl addrh rest
        else let lowchk = in_bounds (pmp_bounds hs ind) addrl;
                 hichk = in_bounds (pmp_bounds hs ind) addrh
             in if lowchk \<and> hichk then pmp_entry AND 0b10000111
                else if lowchk \<noteq> hichk then 0xF7
                else chk_pmp_range_loop hs addrl addrh rest)"

definition chk_pmp_range :: "HartState \<Rightarrow> u64 \<Rightarrow> u64 \<Rightarrow> u8" where
  "chk_pmp_range hs addrl addrh = chk_pmp_range_loop hs addrl addrh [0..<PMP_COUNT]"

subsection \<open>The expanded entries\<close>

definition sync_exp_entry :: "nat \<Rightarrow> HartState \<Rightarrow> HartState" where
  "sync_exp_entry i hs =
    (let cfg = pmpcfg hs i in
     if pmp_a cfg = 0 then
       hs\<lparr>pmp_expanded := (pmp_expanded hs)(i := (pmp_expanded hs i)\<lparr>enable := False\<rparr>)\<rparr>
     else
       let lb = fst (pmp_bounds hs i);
           ub = snd (pmp_bounds hs i);
           lx = cfg AND 0b10000111;
           is_rwx = (lx = 0b111)
       in hs\<lparr>pmp_expanded := (pmp_expanded hs)(i :=
             \<lparr>enable = True, lock = (drop_bit 7 cfg = 1), lbound = lb, ubound = ub, lxwr = lx\<rparr>),
           min_lbound := (if lb < min_lbound hs \<and> \<not> is_rwx then lb else min_lbound hs),
           max_ubound := (if max_ubound hs < ub \<and> \<not> is_rwx then ub else max_ubound hs),
           pmp_all_enabled := (if lb = 0 \<and> ub = 0xffffffffffffffff \<and> is_rwx then 1
                               else pmp_all_enabled hs)\<rparr>)"

definition sync_exp_pmp :: "HartState \<Rightarrow> HartState" where
  "sync_exp_pmp hs = fold sync_exp_entry [0..<PMP_COUNT]
     (hs\<lparr>pmp_all_enabled := 0, min_lbound := 0xffffffffffffffff, max_ubound := 0\<rparr>)"

fun chk_pmp_exp_loop :: "HartState \<Rightarrow> u64 \<Rightarrow> nat list \<Rightarrow> u16" where
  "chk_pmp_exp_loop hs addr [] = 0xFFF0"
| "chk_pmp_exp_loop hs addr (i # rest) =
    (let thispmp = pmp_expanded hs i
     in if \<not> enable thispmp then chk_pmp_exp_loop hs addr rest
        else if privmode hs = 3 \<and> \<not> lock thispmp then chk_pmp_exp_loop hs addr rest
        else if lbound thispmp \<le> addr \<and> addr < ubound thispmp
          then push_bit 6 (ucast (lxwr thispmp)) + of_nat i
        else chk_pmp_exp_loop hs addr rest)"

definition chk_pmp_exp :: "HartState \<Rightarrow> u64 \<Rightarrow> u16" where
  "chk_pmp_exp hs addr =
    (if pmp_all_enabled hs \<noteq> 0 \<and> (max_ubound hs < addr \<or> addr < min_lbound hs)
     then push_bit 6 0b111
     else chk_pmp_exp_loop hs addr [0..<PMP_COUNT])"

fun chk_pmp_range_exp_loop :: "HartState \<Rightarrow> u64 \<Rightarrow> u64 \<Rightarrow> nat list \<Rightarrow> u8" where
  "chk_pmp_range_exp_loop hs addrl addrh [] = 0xFF"
| "chk_pmp_range_exp_loop hs addrl addrh (i # rest) =
    (let thispmp = pmp_expanded hs i
     in if \<not> enable thispmp then chk_pmp_range_exp_loop hs addrl addrh rest
        else if privmode hs = 3 \<and> \<not> lock thispmp then chk_pmp_range_exp_loop hs addrl addrh rest
        else let lowchk = (lbound thispmp \<le> addrl \<and> addrl < ubound thispmp);
                 hichk = (lbound thispmp \<le> addrh \<and> addrh < ubound thispmp)
             in if lowchk \<and> hichk then lxwr thispmp
                else if lowchk \<noteq> hichk then 0xF7
                else chk_pmp_range_exp_loop hs addrl addrh rest)"

definition chk_pmp_range_exp :: "HartState \<Rightarrow> u64 \<Rightarrow> u64 \<Rightarrow> u8" where
  "chk_pmp_range_exp hs addrl addrh =
    (if pmp_all_enabled hs \<noteq> 0 \<and> (max_ubound hs < addrl \<or> addrh < min_lbound hs)
     then 0b111
     else chk_pmp_range_exp_loop hs addrl addrh [0..<PMP_COUNT])"

subsection \<open>What a synchronised hart satisfies\<close>

text \<open>
  \<open>entry_synced hs i\<close>: the expanded entry \<open>i\<close> is the decoding of the raw registers.
  \<open>pmp_synced\<close> adds what the fast path relies on: every entry that restricts something
  lies between the two cached bounds.
\<close>

definition entry_synced :: "HartState \<Rightarrow> nat \<Rightarrow> bool" where
  "entry_synced hs i \<longleftrightarrow>
    (let e = pmp_expanded hs i; cfg = pmpcfg hs i in
     (enable e \<longleftrightarrow> pmp_a cfg \<noteq> 0) \<and>
     (enable e \<longrightarrow> lock e = bit cfg 7 \<and> (lbound e, ubound e) = pmp_bounds hs i \<and>
        lxwr e = cfg AND 0b10000111))"

definition entry_in_range :: "HartState \<Rightarrow> nat \<Rightarrow> bool" where
  "entry_in_range hs i \<longleftrightarrow>
    (enable (pmp_expanded hs i) \<and> lxwr (pmp_expanded hs i) \<noteq> 0b111 \<longrightarrow>
       min_lbound hs \<le> lbound (pmp_expanded hs i) \<and> ubound (pmp_expanded hs i) \<le> max_ubound hs)"

definition pmp_synced :: "HartState \<Rightarrow> bool" where
  "pmp_synced hs \<longleftrightarrow>
    (\<forall>i < PMP_COUNT. entry_synced hs i \<and> entry_in_range hs i) \<and>
    (pmp_all_enabled hs \<noteq> 0 \<longrightarrow>
       (\<exists>i < PMP_COUNT. enable (pmp_expanded hs i) \<and> lbound (pmp_expanded hs i) = 0 \<and>
          ubound (pmp_expanded hs i) = 0xffffffffffffffff \<and> lxwr (pmp_expanded hs i) = 0b111))"

lemma drop_bit_7_eq_1: "(drop_bit 7 (c :: u8) = 1) = bit c 7"
proof -
  have "bit c (7 + n) \<longleftrightarrow> n = 0 \<and> bit c 7" for n
    using bit_8_above[of "7 + n" c] by (cases n) auto
  then have "drop_bit 7 c = (if bit c 7 then 1 else 0)"
    by (intro bit_word_eqI) (auto simp: bit_simps)
  then show ?thesis by simp
qed

lemma sync_exp_entry_frame [simp]:
  "pmpcfg (sync_exp_entry i hs) = pmpcfg hs" "pmpaddr (sync_exp_entry i hs) = pmpaddr hs"
  "privmode (sync_exp_entry i hs) = privmode hs" "mem_status (sync_exp_entry i hs) = mem_status hs"
  by (simp_all add: sync_exp_entry_def Let_def)

lemma pmp_bounds_frame [simp]: "pmp_bounds (sync_exp_entry i hs) j = pmp_bounds hs j"
  by (simp add: pmp_bounds_def)

lemma sync_exp_entry_other [simp]:
  "j \<noteq> i \<Longrightarrow> pmp_expanded (sync_exp_entry i hs) j = pmp_expanded hs j"
  by (simp add: sync_exp_entry_def Let_def)

lemma sync_exp_entry_self:
  "enable (pmp_expanded (sync_exp_entry i hs) i) \<longleftrightarrow> pmp_a (pmpcfg hs i) \<noteq> 0"
  "pmp_a (pmpcfg hs i) \<noteq> 0 \<Longrightarrow> pmp_expanded (sync_exp_entry i hs) i =
     \<lparr>enable = True, lock = bit (pmpcfg hs i) 7, lbound = fst (pmp_bounds hs i),
      ubound = snd (pmp_bounds hs i), lxwr = pmpcfg hs i AND 0b10000111\<rparr>"
  by (simp_all add: sync_exp_entry_def Let_def drop_bit_7_eq_1)

lemma sync_exp_entry_range:
  "min_lbound (sync_exp_entry i hs) \<le> min_lbound hs"
  "max_ubound hs \<le> max_ubound (sync_exp_entry i hs)"
  "pmp_a (pmpcfg hs i) \<noteq> 0 \<Longrightarrow> pmpcfg hs i AND 0b10000111 \<noteq> 0b111 \<Longrightarrow>
     min_lbound (sync_exp_entry i hs) \<le> fst (pmp_bounds hs i) \<and>
     snd (pmp_bounds hs i) \<le> max_ubound (sync_exp_entry i hs)"
  by (auto simp: sync_exp_entry_def Let_def)

lemma sync_exp_entry_all_enabled:
  "pmp_all_enabled (sync_exp_entry i hs) \<noteq> 0 \<Longrightarrow> pmp_all_enabled hs \<noteq> 0 \<or>
     enable (pmp_expanded (sync_exp_entry i hs) i) \<and>
     lbound (pmp_expanded (sync_exp_entry i hs) i) = 0 \<and>
     ubound (pmp_expanded (sync_exp_entry i hs) i) = 0xffffffffffffffff \<and>
     lxwr (pmp_expanded (sync_exp_entry i hs) i) = 0b111"
  by (auto simp: sync_exp_entry_def Let_def split: if_splits)

definition sync_inv :: "nat \<Rightarrow> HartState \<Rightarrow> bool" where
  "sync_inv n hs \<longleftrightarrow> (\<forall>i < n. entry_synced hs i \<and> entry_in_range hs i) \<and>
    (pmp_all_enabled hs \<noteq> 0 \<longrightarrow>
       (\<exists>i < n. enable (pmp_expanded hs i) \<and> lbound (pmp_expanded hs i) = 0 \<and>
          ubound (pmp_expanded hs i) = 0xffffffffffffffff \<and> lxwr (pmp_expanded hs i) = 0b111))"

lemma sync_inv_step:
  assumes inv: "sync_inv n hs"
  shows "sync_inv (Suc n) (sync_exp_entry n hs)"
proof -
  let ?t = "sync_exp_entry n hs"
  have old: "entry_synced ?t i \<and> entry_in_range ?t i" if "i < n" for i
    using inv that sync_exp_entry_range(1,2)[where i = n and hs = hs]
    by (auto simp: sync_inv_def entry_synced_def entry_in_range_def Let_def intro: order_trans)
  have new: "entry_synced ?t n \<and> entry_in_range ?t n"
    using sync_exp_entry_self[where i = n and hs = hs]
      sync_exp_entry_range(3)[where i = n and hs = hs]
    by (cases "pmp_a (pmpcfg hs n) = 0")
      (auto simp: entry_synced_def entry_in_range_def Let_def)
  have "\<exists>i < Suc n. enable (pmp_expanded ?t i) \<and> lbound (pmp_expanded ?t i) = 0 \<and>
      ubound (pmp_expanded ?t i) = 0xffffffffffffffff \<and> lxwr (pmp_expanded ?t i) = 0b111"
    if "pmp_all_enabled ?t \<noteq> 0"
  proof (cases "pmp_all_enabled hs = 0")
    case True
    with that sync_exp_entry_all_enabled[where i = n and hs = hs] show ?thesis by blast
  next
    case False
    with inv obtain i where "i < n" "enable (pmp_expanded hs i)" "lbound (pmp_expanded hs i) = 0"
      "ubound (pmp_expanded hs i) = 0xffffffffffffffff" "lxwr (pmp_expanded hs i) = 0b111"
      by (auto simp: sync_inv_def)
    then show ?thesis by (intro exI[of _ i]) simp
  qed
  with old new show ?thesis by (auto simp: sync_inv_def less_Suc_eq)
qed

lemma sync_inv_fold: "sync_inv 0 hs \<Longrightarrow> sync_inv n (fold sync_exp_entry [0..<n] hs)"
  by (induction n) (simp_all add: sync_inv_step)

lemma sync_exp_pmp_synced: "pmp_synced (sync_exp_pmp hs)"
proof -
  have "sync_inv PMP_COUNT (sync_exp_pmp hs)"
    unfolding sync_exp_pmp_def by (rule sync_inv_fold) (simp add: sync_inv_def)
  then show ?thesis by (simp add: sync_inv_def pmp_synced_def)
qed

subsection \<open>The fast path and the expanded table against the raw registers\<close>

lemma entry_syncedD:
  assumes "entry_synced hs i"
  shows "enable (pmp_expanded hs i) \<longleftrightarrow> pmp_a (pmpcfg hs i) \<noteq> 0"
    and "pmp_a (pmpcfg hs i) \<noteq> 0 \<Longrightarrow> lock (pmp_expanded hs i) = bit (pmpcfg hs i) 7"
    and "pmp_a (pmpcfg hs i) \<noteq> 0 \<Longrightarrow> lbound (pmp_expanded hs i) = fst (pmp_bounds hs i)"
    and "pmp_a (pmpcfg hs i) \<noteq> 0 \<Longrightarrow> ubound (pmp_expanded hs i) = snd (pmp_bounds hs i)"
    and "pmp_a (pmpcfg hs i) \<noteq> 0 \<Longrightarrow> lxwr (pmp_expanded hs i) = pmpcfg hs i AND 0b10000111"
  using assms by (auto simp: entry_synced_def Let_def prod_eq_iff)

lemma range_loop_synced:
  "\<forall>i \<in> set is. entry_synced hs i \<Longrightarrow>
     chk_pmp_range_exp_loop hs l h is = chk_pmp_range_loop hs l h is"
proof (induction "is")
  case Nil
  then show ?case by simp
next
  case (Cons i "is")
  then have "entry_synced hs i" by simp
  note sync = entry_syncedD[OF this]
  from Cons show ?case
    by (cases "pmp_a (pmpcfg hs i) = 0") (simp_all add: sync in_bounds_def Let_def)
qed

definition pmp_touches :: "HartState \<Rightarrow> u64 \<Rightarrow> nat \<Rightarrow> bool" where
  "pmp_touches hs a i \<longleftrightarrow> pmp_a (pmpcfg hs i) \<noteq> 0 \<and> (privmode hs = 3 \<longrightarrow> bit (pmpcfg hs i) 7) \<and>
     in_bounds (pmp_bounds hs i) a"

text \<open>
  The specification: the first entry that holds either end of the access decides; it must
  hold both ends and grant permission bit \<open>b\<close> (0 read, 1 write, 2 execute).  With no such
  entry only machine mode may proceed.
\<close>

definition pmp_spec :: "HartState \<Rightarrow> nat \<Rightarrow> u64 \<Rightarrow> u64 \<Rightarrow> bool" where
  "pmp_spec hs b lo hi =
    (case find (\<lambda>i. pmp_touches hs lo i \<or> pmp_touches hs hi i) [0..<PMP_COUNT] of
       None \<Rightarrow> privmode hs = 3
     | Some i \<Rightarrow> pmp_touches hs lo i \<and> pmp_touches hs hi i \<and> bit (pmpcfg hs i) b)"

text \<open>The decisions the callers in \<open>mem.ipp\<close> and \<open>mem.cpp\<close> take on the returned codes.\<close>

definition range_grants :: "HartState \<Rightarrow> nat \<Rightarrow> u8 \<Rightarrow> bool" where
  "range_grants hs b s \<longleftrightarrow> s \<noteq> 0xF7 \<and> \<not> (s = 0xFF \<and> privmode hs < 3) \<and> bit s b"

definition byte_grants :: "HartState \<Rightarrow> nat \<Rightarrow> u16 \<Rightarrow> bool" where
  "byte_grants hs b s \<longleftrightarrow> \<not> (s = 0xFFF0 \<and> privmode hs \<le> 1) \<and> bit s (6 + b)"

lemma less_3_cases: "(b :: nat) < 3 \<Longrightarrow> b = 0 \<or> b = 1 \<or> b = 2"
  by auto

lemma bit_lxwr: "b < 3 \<Longrightarrow> bit (c AND 0b10000111 :: u8) b = bit c b"
  by (drule less_3_cases) (auto simp: bit_simps)

lemma lxwr_distinct: "c AND 0b10000111 \<noteq> (0xF7 :: u8)" "c AND 0b10000111 \<noteq> (0xFF :: u8)"
proof -
  have "\<not> bit (c AND 0b10000111 :: u8) 4" by (simp add: bit_simps)
  moreover have "bit (0xF7 :: u8) 4" "bit (0xFF :: u8) 4" by simp_all
  ultimately show "c AND 0b10000111 \<noteq> (0xF7 :: u8)" "c AND 0b10000111 \<noteq> (0xFF :: u8)" by metis+
qed

lemma lxwr_rwx:
  assumes "c AND 0b10000111 = (0b111 :: u8)"
  shows "\<not> bit c 7" and "b < 3 \<Longrightarrow> bit c b"
proof -
  have "bit (c AND 0b10000111) 7 = bit (0b111 :: u8) 7" using assms by simp
  then show "\<not> bit c 7" by (simp add: bit_simps)
  show "bit c b" if "b < 3"
    using that bit_lxwr[OF that, of c] assms less_3_cases[OF that] by auto
qed

lemma range_loop_spec:
  assumes "privmode hs \<le> 3" and "b < 3"
  shows "range_grants hs b (chk_pmp_range_loop hs lo hi is) =
    (case find (\<lambda>i. pmp_touches hs lo i \<or> pmp_touches hs hi i) is of
       None \<Rightarrow> privmode hs = 3
     | Some i \<Rightarrow> pmp_touches hs lo i \<and> pmp_touches hs hi i \<and> bit (pmpcfg hs i) b)"
proof (induction "is")
  case Nil
  have "privmode hs = 3 \<longleftrightarrow> \<not> privmode hs < 3" using assms(1) by auto
  moreover have "bit (0xFF :: u8) b" using less_3_cases[OF assms(2)] by auto
  ultimately show ?case by (simp add: range_grants_def)
next
  case (Cons i "is")
  then show ?case
    using lxwr_distinct[of "pmpcfg hs i"] bit_lxwr[OF assms(2), of "pmpcfg hs i"]
    by (auto simp: range_grants_def pmp_touches_def Let_def)
qed

definition pmp_fast :: "HartState \<Rightarrow> u64 \<Rightarrow> u64 \<Rightarrow> bool" where
  "pmp_fast hs lo hi \<longleftrightarrow>
     pmp_all_enabled hs \<noteq> 0 \<and> (max_ubound hs < lo \<or> hi < min_lbound hs)"

lemma pmp_synced_entry: "pmp_synced hs \<Longrightarrow> i < PMP_COUNT \<Longrightarrow> entry_synced hs i"
  by (simp add: pmp_synced_def)

lemma range_exp_slow:
  assumes "pmp_synced hs" and "\<not> pmp_fast hs lo hi" and "privmode hs \<le> 3" and "b < 3"
  shows "range_grants hs b (chk_pmp_range_exp hs lo hi) = pmp_spec hs b lo hi"
proof -
  have "chk_pmp_range_exp hs lo hi = chk_pmp_range_loop hs lo hi [0..<PMP_COUNT]"
    using assms(1,2) range_loop_synced[of "[0..<PMP_COUNT]" hs lo hi]
    by (auto simp: chk_pmp_range_exp_def pmp_fast_def pmp_synced_entry)
  then show ?thesis
    using range_loop_spec[OF assms(3,4), of lo hi "[0..<PMP_COUNT]"] by (simp add: pmp_spec_def)
qed

text \<open>On the fast path every entry that holds the address grants everything.\<close>

lemma fast_touch_rwx:
  assumes "pmp_synced hs" and "pmp_fast hs a a" and "i < PMP_COUNT" and "pmp_touches hs a i"
  shows "pmpcfg hs i AND 0b10000111 = 0b111"
proof (rule ccontr)
  assume *: "pmpcfg hs i AND 0b10000111 \<noteq> 0b111"
  note sync = entry_syncedD[OF pmp_synced_entry[OF assms(1,3)]]
  from assms(4) have en: "pmp_a (pmpcfg hs i) \<noteq> 0"
    and ib: "fst (pmp_bounds hs i) \<le> a" "a < snd (pmp_bounds hs i)"
    by (auto simp: pmp_touches_def in_bounds_def)
  from assms(1,3) have "entry_in_range hs i" by (simp add: pmp_synced_def)
  with en * have "min_lbound hs \<le> fst (pmp_bounds hs i)" "snd (pmp_bounds hs i) \<le> max_ubound hs"
    by (simp_all add: entry_in_range_def sync)
  with ib assms(2) show False by (auto simp: pmp_fast_def)
qed

lemma fast_full_entry:
  assumes "pmp_synced hs" and "pmp_fast hs a a" and "a \<noteq> 0xffffffffffffffff" and "privmode hs \<noteq> 3"
  shows "\<exists>i < PMP_COUNT. pmp_touches hs a i"
proof -
  from assms(1,2) obtain i where i: "i < PMP_COUNT" "enable (pmp_expanded hs i)"
    "lbound (pmp_expanded hs i) = 0" "ubound (pmp_expanded hs i) = 0xffffffffffffffff"
    by (auto simp: pmp_synced_def pmp_fast_def)
  note sync = entry_syncedD[OF pmp_synced_entry[OF assms(1) i(1)]]
  from i(2) have en: "pmp_a (pmpcfg hs i) \<noteq> 0" by (simp add: sync)
  have m1: "(0xffffffffffffffff :: u64) = - 1" by simp
  have "a < 0xffffffffffffffff"
    using assms(3) word_order.not_eq_extremum[of a] unfolding m1 by blast
  with i en assms(4) have "pmp_touches hs a i"
    by (simp add: pmp_touches_def in_bounds_def sync)
  with i(1) show ?thesis by blast
qed

lemma fast_grants_spec:
  assumes "pmp_synced hs" and "pmp_fast hs a a" and "a \<noteq> 0xffffffffffffffff" and "b < 3"
  shows "pmp_spec hs b a a"
proof (cases "find (pmp_touches hs a) [0..<PMP_COUNT]")
  case None
  then have "\<not> (\<exists>i < PMP_COUNT. pmp_touches hs a i)"
    by (auto simp: find_None_iff)
  then have "privmode hs = 3" using fast_full_entry[OF assms(1-3)] by blast
  then show ?thesis using None by (simp add: pmp_spec_def)
next
  case (Some i)
  then have "i < PMP_COUNT" and t: "pmp_touches hs a i"
    by (auto simp: find_Some_iff)
  then have "pmpcfg hs i AND 0b10000111 = 0b111"
    using fast_touch_rwx[OF assms(1,2)] by blast
  then have "bit (pmpcfg hs i) b" using assms(4) by (rule lxwr_rwx(2))
  then show ?thesis using Some t by (simp add: pmp_spec_def)
qed

lemma fast_range_ends:
  assumes "pmp_fast hs lo hi" and "lo \<le> hi"
  shows "pmp_fast hs lo lo" "pmp_fast hs hi hi"
  using assms by (auto simp: pmp_fast_def)

text \<open>The single-byte checker, against the specification.\<close>

lemma byte_code:
  assumes "i < PMP_COUNT" and "b < 3"
  shows "push_bit 6 (ucast (c AND 0b10000111 :: u8)) + of_nat i \<noteq> (0xFFF0 :: u16)"
    and "bit (push_bit 6 (ucast (c AND 0b10000111 :: u8)) + of_nat i :: u16) (6 + b) = bit c b"
proof -
  let ?l = "push_bit 6 (ucast (c AND 0b10000111 :: u8)) :: u16"
  have small: "\<not> bit (of_nat i :: u16) n" if "4 \<le> n" for n
  proof -
    have "i < 2 ^ n" using assms(1) that power_increasing[of 4 n "2 :: nat"] by simp
    then have "\<not> bit i n" by (simp add: bit_iff_odd)
    then show ?thesis by (simp add: bit_simps)
  qed
  have "?l AND of_nat i = 0"
    using small by (intro bit_word_eqI) (auto simp: bit_simps)
  then have sum: "?l + of_nat i = ?l OR of_nat i"
    by (rule disjunctive_add_eq_or)
  have "\<not> bit (?l + of_nat i) 15"
    unfolding sum using small[of 15] by (simp add: bit_simps)
  then show "?l + of_nat i \<noteq> 0xFFF0" by auto
  have "b < 10" using assms(2) by simp
  then show "bit (?l + of_nat i) (6 + b) = bit c b"
    unfolding sum using small[of "6 + b"] bit_lxwr[OF assms(2), of c] assms(2)
    by (simp add: bit_push_bit_iff bit_or_iff bit_ucast_iff)
qed

lemma exp_loop_byte:
  assumes "\<forall>i \<in> set is. entry_synced hs i \<and> i < PMP_COUNT" and "privmode hs \<le> 1 \<or> privmode hs = 3"
    and "b < 3"
  shows "byte_grants hs b (chk_pmp_exp_loop hs a is) =
    (case find (pmp_touches hs a) is of
       None \<Rightarrow> privmode hs = 3 | Some i \<Rightarrow> bit (pmpcfg hs i) b)"
  using assms(1)
proof (induction "is")
  case Nil
  have "bit (0xFFF0 :: u16) (6 + b)" using less_3_cases[OF assms(3)] by auto
  moreover have "\<not> (3 :: u8) \<le> 1" by (simp add: word_le_nat_alt)
  ultimately show ?case using assms(2) by (auto simp: byte_grants_def)
next
  case (Cons i "is")
  then have e: "entry_synced hs i" and i: "i < PMP_COUNT" by auto
  note sync = entry_syncedD[OF e]
  note code = byte_code[OF i assms(3), of "pmpcfg hs i"]
  from Cons show ?case
    by (cases "pmp_a (pmpcfg hs i) = 0")
      (auto simp: sync pmp_touches_def in_bounds_def code byte_grants_def Let_def)
qed

text \<open>Its fast path answers as the specification does, so it can be used without more ado.\<close>

lemma byte_exp_spec:
  assumes "pmp_synced hs" and "privmode hs \<le> 1 \<or> privmode hs = 3" and "b < 3"
    and "a \<noteq> 0xffffffffffffffff"
  shows "byte_grants hs b (chk_pmp_exp hs a) = pmp_spec hs b a a"
proof (cases "pmp_fast hs a a")
  case True
  have "bit (push_bit 6 0b111 :: u16) (6 + b)" using less_3_cases[OF assms(3)] by auto
  then have "byte_grants hs b (chk_pmp_exp hs a)"
    using True by (auto simp: byte_grants_def chk_pmp_exp_def pmp_fast_def)
  then show ?thesis using fast_grants_spec[OF assms(1) True assms(4,3)] by simp
next
  case False
  have "byte_grants hs b (chk_pmp_exp_loop hs a [0..<PMP_COUNT]) =
    (case find (pmp_touches hs a) [0..<PMP_COUNT] of
       None \<Rightarrow> privmode hs = 3 | Some i \<Rightarrow> bit (pmpcfg hs i) b)"
    by (rule exp_loop_byte[OF _ assms(2,3)]) (use assms(1) in \<open>simp add: pmp_synced_def\<close>)
  also have "\<dots> = pmp_spec hs b a a"
    by (cases "find (pmp_touches hs a) [0..<PMP_COUNT]")
      (simp_all add: pmp_spec_def, auto simp: find_Some_iff)
  finally show ?thesis using False by (auto simp: chk_pmp_exp_def pmp_fast_def)
qed

subsection \<open>The promises of the PMP unit\<close>

lemma sync_exp_pmp_frame [simp]:
  "pmpcfg (sync_exp_pmp hs) = pmpcfg hs" "pmpaddr (sync_exp_pmp hs) = pmpaddr hs"
  "privmode (sync_exp_pmp hs) = privmode hs"
proof -
  have "pmpcfg (fold sync_exp_entry is s) = pmpcfg s \<and> pmpaddr (fold sync_exp_entry is s) = pmpaddr s
      \<and> privmode (fold sync_exp_entry is s) = privmode s" for "is" s
    by (induction "is" arbitrary: s) simp_all
  then show "pmpcfg (sync_exp_pmp hs) = pmpcfg hs" "pmpaddr (sync_exp_pmp hs) = pmpaddr hs"
    "privmode (sync_exp_pmp hs) = privmode hs"
    by (simp_all add: sync_exp_pmp_def)
qed

lemma pmp_spec_sync [simp]: "pmp_spec (sync_exp_pmp hs) = pmp_spec hs"
proof -
  have "pmp_bounds (sync_exp_pmp hs) = pmp_bounds hs" by (rule ext) (simp add: pmp_bounds_def)
  then have "pmp_touches (sync_exp_pmp hs) = pmp_touches hs" by (intro ext) (simp add: pmp_touches_def)
  then show ?thesis by (intro ext) (simp add: pmp_spec_def cong: option.case_cong)
qed

subsection \<open>The rule for a whole access\<close>

text \<open>
  The rule of the privileged manual for an access of \<open>n\<close> bytes at \<open>a\<close>: the lowest-numbered
  entry that is active for the current mode and holds any byte of the access decides; it must
  hold all of them and grant permission bit \<open>b\<close> (0 read, 1 write, 2 execute).  Without such an
  entry only machine mode may proceed.  What an entry holds is \<open>pmp_bounds\<close>.
\<close>

definition access_bytes :: "u64 \<Rightarrow> nat \<Rightarrow> u64 list" where
  "access_bytes a n = map (\<lambda>k. a + of_nat k) [0..<n]"

definition pmp_rule :: "HartState \<Rightarrow> nat \<Rightarrow> u64 \<Rightarrow> nat \<Rightarrow> bool" where
  "pmp_rule hs b a n =
    (case find (\<lambda>i. list_ex (\<lambda>x. pmp_touches hs x i) (access_bytes a n)) [0..<PMP_COUNT] of
       None \<Rightarrow> privmode hs = 3
     | Some i \<Rightarrow> list_all (\<lambda>x. pmp_touches hs x i) (access_bytes a n) \<and> bit (pmpcfg hs i) b)"

text \<open>
  The shortcut of the checks, on the raw registers: some entry opens the whole address space to
  all, and the access ends below, or begins above, every entry that restricts anything.
\<close>

definition pmp_restricts :: "HartState \<Rightarrow> nat \<Rightarrow> bool" where
  "pmp_restricts hs i \<longleftrightarrow> pmp_a (pmpcfg hs i) \<noteq> 0 \<and> pmpcfg hs i AND 0b10000111 \<noteq> 0b111"

definition pmp_opens_all :: "HartState \<Rightarrow> nat \<Rightarrow> bool" where
  "pmp_opens_all hs i \<longleftrightarrow> pmp_a (pmpcfg hs i) \<noteq> 0 \<and> pmpcfg hs i AND 0b10000111 = 0b111 \<and>
     pmp_bounds hs i = (0, 0xffffffffffffffff)"

definition pmp_bypass :: "HartState \<Rightarrow> u64 \<Rightarrow> u64 \<Rightarrow> bool" where
  "pmp_bypass hs lo hi \<longleftrightarrow> list_ex (pmp_opens_all hs) [0..<PMP_COUNT] \<and>
    (0 < lo \<and> list_all (\<lambda>i. pmp_restricts hs i \<longrightarrow> snd (pmp_bounds hs i) < lo) [0..<PMP_COUNT] \<or>
     hi < 0xffffffffffffffff \<and>
       list_all (\<lambda>i. pmp_restricts hs i \<longrightarrow> hi < fst (pmp_bounds hs i)) [0..<PMP_COUNT])"

lemma access_bytes_mem: "k < n \<Longrightarrow> a + of_nat k \<in> set (access_bytes a n)"
  by (auto simp: access_bytes_def)

lemma access_bytes_ends: "0 < n \<Longrightarrow> a \<in> set (access_bytes a n) \<and> a + of_nat (n - 1) \<in> set (access_bytes a n)"
  using access_bytes_mem[of 0 n a] access_bytes_mem[of "n - 1" n a] by simp

lemma access_bytes_one [simp]: "access_bytes a (Suc 0) = [a]"
  by (simp add: access_bytes_def)

lemma sync_exp_entry_shortcut:
  "x < min_lbound (sync_exp_entry i hs) \<longleftrightarrow>
     x < min_lbound hs \<and> (pmp_restricts hs i \<longrightarrow> x < fst (pmp_bounds hs i))"
  "max_ubound (sync_exp_entry i hs) < x \<longleftrightarrow>
     max_ubound hs < x \<and> (pmp_restricts hs i \<longrightarrow> snd (pmp_bounds hs i) < x)"
  "pmp_all_enabled (sync_exp_entry i hs) = 0 \<longleftrightarrow> pmp_all_enabled hs = 0 \<and> \<not> pmp_opens_all hs i"
  by (auto simp: sync_exp_entry_def pmp_restricts_def pmp_opens_all_def Let_def prod_eq_iff)

lemma pmp_raw_frame [simp]:
  "pmp_restricts (sync_exp_entry i hs) = pmp_restricts hs"
  "pmp_opens_all (sync_exp_entry i hs) = pmp_opens_all hs"
  by (rule ext, simp add: pmp_restricts_def pmp_opens_all_def)+

lemma sync_shortcut:
  "x < min_lbound (fold sync_exp_entry is hs) \<longleftrightarrow>
     x < min_lbound hs \<and> list_all (\<lambda>i. pmp_restricts hs i \<longrightarrow> x < fst (pmp_bounds hs i)) is"
  "max_ubound (fold sync_exp_entry is hs) < x \<longleftrightarrow>
     max_ubound hs < x \<and> list_all (\<lambda>i. pmp_restricts hs i \<longrightarrow> snd (pmp_bounds hs i) < x) is"
  "pmp_all_enabled (fold sync_exp_entry is hs) = 0 \<longleftrightarrow>
     pmp_all_enabled hs = 0 \<and> \<not> list_ex (pmp_opens_all hs) is"
  by (induction "is" arbitrary: hs) (auto simp: sync_exp_entry_shortcut)

lemma pmp_fast_bypass: "pmp_fast (sync_exp_pmp hs) lo hi = pmp_bypass hs lo hi"
proof -
  let ?s = "hs\<lparr>pmp_all_enabled := 0, min_lbound := 0xffffffffffffffff, max_ubound := 0\<rparr>"
  have "pmp_bounds ?s = pmp_bounds hs" by (rule ext) (simp add: pmp_bounds_def)
  then have "pmp_restricts ?s = pmp_restricts hs" "pmp_opens_all ?s = pmp_opens_all hs"
    by (auto simp: pmp_restricts_def pmp_opens_all_def fun_eq_iff)
  then show ?thesis
    using \<open>pmp_bounds ?s = pmp_bounds hs\<close>
    by (simp only: pmp_fast_def pmp_bypass_def sync_exp_pmp_def sync_shortcut) auto
qed

text \<open>
  Entries are made of 4-byte words, but for NAPOT registers with 62 or 63 trailing ones, whose
  shifts overflow.
\<close>

definition pmp_addrs_ok :: "HartState \<Rightarrow> bool" where
  "pmp_addrs_ok hs \<longleftrightarrow> list_all (\<lambda>i. pmpaddr hs i = 0xffffffffffffffff \<or>
     take_bit 62 (pmpaddr hs i) \<noteq> 0x3fffffffffffffff) [0..<PMP_COUNT]"

lemma dvd_4_take_bit: "4 dvd unat (w :: u64) \<longleftrightarrow> take_bit 2 w = 0"
proof -
  have "take_bit 2 w = 0 \<longleftrightarrow> unat (take_bit 2 w) = 0" by (simp only: unsigned_eq_0_iff)
  also have "\<dots> \<longleftrightarrow> unat w mod 4 = 0" by (simp only: unsigned_take_bit_eq) (simp add: take_bit_eq_mod)
  finally show ?thesis by auto
qed

lemma unat_dvd_4:
  "4 dvd unat (push_bit (m + 2) (w :: u64))" "4 dvd unat w \<Longrightarrow> 4 dvd unat (w + push_bit (m + 2) 1)"
proof -
  have d: "take_bit 2 (push_bit (m + 2) x) = 0" for x :: u64
    by (rule bit_word_eqI) (simp add: bit_simps del: add_2_eq_Suc')
  then show p: "4 dvd unat (push_bit (m + 2) (w :: u64))" for w by (simp only: dvd_4_take_bit)
  assume "4 dvd unat w"
  then have "4 dvd unat w + unat (push_bit (m + 2) (1 :: u64))" using p by (rule dvd_add)
  moreover have "(4 :: nat) dvd 2 ^ LENGTH(64)" by simp
  ultimately show "4 dvd unat (w + push_bit (m + 2) 1)"
    unfolding unat_word_ariths by (rule dvd_mod)
qed

lemma ffsll_le:
  assumes "bit x k" and "k < 64"
  shows "0 < ffsll x" and "ffsll x \<le> Suc k"
proof -
  have "k \<in> set (filter (bit x) [0..<64])" using assms by simp
  then obtain n rest where e: "filter (bit x) [0..<64] = n # rest"
    by (cases "filter (bit x) [0..<64]") auto
  have "sorted (filter (bit x) [0..<64])" by (intro sorted_wrt_filter) simp
  then have "n \<le> k" using \<open>k \<in> set _\<close> unfolding e by auto
  then show "0 < ffsll x" "ffsll x \<le> Suc k" by (simp_all add: ffsll_def e)
qed

lemma napot_bounds_words:
  assumes "a = 0xffffffffffffffff \<or> take_bit 62 a \<noteq> 0x3fffffffffffffff"
  shows "4 dvd unat (fst (napot_bounds a)) \<and>
    (4 dvd unat (snd (napot_bounds a)) \<or> snd (napot_bounds a) = 0xffffffffffffffff)"
proof (cases "a = 0xffffffffffffffff")
  case False
  have "\<exists>k<62. \<not> bit a k"
  proof (rule ccontr)
    assume "\<not> (\<exists>k<62. \<not> bit a k)"
    then have "take_bit 62 a = mask 62" by (intro bit_word_eqI) (auto simp: bit_simps)
    then show False using assms False by (simp add: mask_eq_exp_minus_1)
  qed
  then obtain k where k: "k < 62" "bit (NOT a) k" by (auto simp: bit_simps)
  then have s: "ffsll (NOT a) - 1 + 2 < 64" using ffsll_le[of "NOT a" k] by simp
  then show ?thesis
    using unat_dvd_4(1)[of "ffsll (NOT a) - 1"] unat_dvd_4(2)[of _ "ffsll (NOT a) - 1"] False
    by (simp add: napot_bounds_def Let_def shl64_def del: add_2_eq_Suc')
qed (simp add: napot_bounds_def)

lemma pmp_bounds_words:
  assumes "pmp_addrs_ok hs" and "i < PMP_COUNT"
  shows "4 dvd unat (fst (pmp_bounds hs i))"
    and "4 dvd unat (snd (pmp_bounds hs i)) \<or> snd (pmp_bounds hs i) = 0xffffffffffffffff"
proof -
  have a: "pmpaddr hs i = 0xffffffffffffffff \<or> take_bit 62 (pmpaddr hs i) \<noteq> 0x3fffffffffffffff"
    using assms by (auto simp: pmp_addrs_ok_def list_all_iff)
  have p: "4 dvd unat (push_bit 2 w)" for w :: u64 using unat_dvd_4(1)[of 0] by (simp add: numeral_2_eq_2)
  have q: "4 dvd unat (push_bit 2 w + 4)" for w :: u64
    using unat_dvd_4(2)[of "push_bit 2 w" 0] p by (simp add: numeral_2_eq_2)
  show "4 dvd unat (fst (pmp_bounds hs i))"
    "4 dvd unat (snd (pmp_bounds hs i)) \<or> snd (pmp_bounds hs i) = 0xffffffffffffffff"
    using napot_bounds_words[OF a] p q by (auto simp: pmp_bounds_def)
qed

lemma no_interior_entry:
  assumes ok: "pmp_addrs_ok hs" "i < PMP_COUNT"
    and n: "unat lo mod 4 + n \<le> 8" "unat lo + n < 2 ^ 64" "k < n"
    and t: "pmp_touches hs (lo + of_nat k) i"
  shows "pmp_touches hs lo i \<or> pmp_touches hs (lo + of_nat (n - 1)) i"
proof (rule ccontr)
  assume *: "\<not> ?thesis"
  have u: "unat (lo + of_nat j) = unat lo + j" if "j < n" for j
    using n(2) that by (simp add: unat_word_ariths unat_of_nat)
  obtain lb ub where b: "pmp_bounds hs i = (lb, ub)" by (cases "pmp_bounds hs i")
  note w = pmp_bounds_words[OF ok, unfolded b]
  have l: "unat lb \<le> unat lo + k" "unat lo + k < unat ub"
    using t u[OF n(3)] by (auto simp: pmp_touches_def in_bounds_def b word_le_nat_alt word_less_nat_alt)
  have out: "\<not> (unat lb \<le> unat lo \<and> unat lo < unat ub)"
      "\<not> (unat lb \<le> unat lo + (n - 1) \<and> unat lo + (n - 1) < unat ub)"
    using * t u[of "n - 1"] n(3)
    by (auto simp: pmp_touches_def in_bounds_def b word_le_nat_alt word_less_nat_alt)
  have lo: "unat lo < unat lb" and hi: "unat ub \<le> unat lo + (n - 1)"
    using l out n(3) by auto
  have "ub \<noteq> 0xffffffffffffffff"
  proof
    assume "ub = 0xffffffffffffffff"
    then have "unat ub = 2 ^ 64 - 1" by simp
    then show False using hi n(2,3) by linarith
  qed
  then obtain x y where "unat lb = 4 * x" "unat ub = 4 * y" using w by (auto elim!: dvdE)
  then have y: "x < y" "unat lo < 4 * x" "4 * y \<le> unat lo + (n - 1)" using l lo hi by auto
  define q where "q = unat lo div 4"
  have "unat lo = 4 * q + unat lo mod 4" by (simp add: q_def)
  then have "4 * q < 4 * x" "4 * y < 4 * q + 8" using y n(1,3) by linarith+
  then show False using y(1) by simp
qed

text \<open>For an access within two words the rule looks at no more than its two ends.\<close>

lemma find_cong_set: "(\<And>x. x \<in> set xs \<Longrightarrow> P x = Q x) \<Longrightarrow> find P xs = find Q xs"
  by (induction xs) auto

lemma pmp_rule_ends:
  assumes ok: "pmp_addrs_ok hs" and n: "unat lo mod 4 + n \<le> 8" "unat lo + n < 2 ^ 64" "0 < n"
  shows "pmp_rule hs b lo n = pmp_spec hs b lo (lo + of_nat (n - 1))"
proof -
  let ?hi = "lo + of_nat (n - 1)"
  have u: "unat (lo + of_nat j) = unat lo + j" if "j < n" for j
    using n(2) that by (simp add: unat_word_ariths unat_of_nat)
  have any: "list_ex (\<lambda>x. pmp_touches hs x i) (access_bytes lo n) \<longleftrightarrow>
      pmp_touches hs lo i \<or> pmp_touches hs ?hi i" if "i \<in> set [0..<PMP_COUNT]" for i
  proof
    assume "list_ex (\<lambda>x. pmp_touches hs x i) (access_bytes lo n)"
    then obtain k where "k < n" "pmp_touches hs (lo + of_nat k) i"
      by (auto simp: list_ex_iff access_bytes_def)
    then show "pmp_touches hs lo i \<or> pmp_touches hs ?hi i"
      using no_interior_entry[OF ok _ n(1,2), of i k] that by simp
  next
    assume "pmp_touches hs lo i \<or> pmp_touches hs ?hi i"
    then show "list_ex (\<lambda>x. pmp_touches hs x i) (access_bytes lo n)"
      using access_bytes_ends[OF n(3), of lo] unfolding list_ex_iff by blast
  qed
  have all: "list_all (\<lambda>x. pmp_touches hs x i) (access_bytes lo n) \<longleftrightarrow>
      pmp_touches hs lo i \<and> pmp_touches hs ?hi i" for i
  proof
    assume a: "list_all (\<lambda>x. pmp_touches hs x i) (access_bytes lo n)"
    then show "pmp_touches hs lo i \<and> pmp_touches hs ?hi i"
      using access_bytes_ends[OF n(3), of lo] unfolding list_all_iff by blast
  next
    assume e: "pmp_touches hs lo i \<and> pmp_touches hs ?hi i"
    have "pmp_touches hs (lo + of_nat k) i" if "k < n" for k
      using e u[OF that] u[of "n - 1"] that n(3)
      by (auto simp: pmp_touches_def in_bounds_def word_le_nat_alt word_less_nat_alt)
    then show "list_all (\<lambda>x. pmp_touches hs x i) (access_bytes lo n)"
      by (auto simp: list_all_iff access_bytes_def)
  qed
  show ?thesis
    unfolding pmp_rule_def pmp_spec_def all
    by (simp only: find_cong_set[of "[0..<PMP_COUNT]", OF any] conj_assoc)
qed

lemma pmp_rule_byte: "pmp_rule hs b a 1 = pmp_spec hs b a a"
  by (simp add: pmp_rule_def pmp_spec_def cong: option.case_cong)

lemma pmp_rule_sync [simp]: "pmp_rule (sync_exp_pmp hs) = pmp_rule hs"
proof -
  have "pmp_bounds (sync_exp_pmp hs) = pmp_bounds hs" by (rule ext) (simp add: pmp_bounds_def)
  then have "pmp_touches (sync_exp_pmp hs) = pmp_touches hs" by (intro ext) (simp add: pmp_touches_def)
  then show ?thesis by (intro ext) (simp add: pmp_rule_def cong: option.case_cong)
qed

text \<open>
  A NAPOT register without trailing ones stands for eight bytes in the manual; the code decodes
  it, as every NAPOT register, to half of that.
\<close>

lemma napot_half: "\<not> bit a 0 \<Longrightarrow> napot_bounds a = (push_bit 2 a, push_bit 2 a + 4)"
proof -
  assume a: "\<not> bit a 0"
  then have "bit (NOT a) 0" by (simp add: bit_simps)
  then have "ffsll (NOT a) = 1" using ffsll_le[of "NOT a" 0] by simp
  moreover have "a \<noteq> 0xffffffffffffffff" using a by auto
  ultimately show ?thesis by (simp add: napot_bounds_def shl64_def shr64_def Let_def push_bit_eq_mult)
qed

text \<open>
  C31. Refreshing the expanded table establishes its invariant whatever the old contents: every
  slot mirrors its configuration and address registers, the two bounds enclose every entry that
  is not open to all, and the fast path is only on if some entry opens the whole address space.
\<close>

lemma expanded_table_synced: "pmp_synced (sync_exp_pmp hs)"
  by (rule sync_exp_pmp_synced)

text \<open>
  C32. Off the fast path the check over the expanded table and the original check over the raw
  configuration registers return the same code.
\<close>

lemma expanded_check_agrees:
  assumes "\<not> pmp_fast (sync_exp_pmp hs) lo hi"
  shows "chk_pmp_range_exp (sync_exp_pmp hs) lo hi = chk_pmp_range (sync_exp_pmp hs) lo hi"
  using assms range_loop_synced[of "[0..<PMP_COUNT]" "sync_exp_pmp hs" lo hi]
    pmp_synced_entry[OF sync_exp_pmp_synced]
  by (auto simp: chk_pmp_range_exp_def chk_pmp_range_def pmp_fast_def)

lemma expanded_check_agrees_witness:
  "chk_pmp_range_exp (sync_exp_pmp zero_hart) 0x1000 0x1003 = chk_pmp_range (sync_exp_pmp zero_hart) 0x1000 0x1003"
proof (rule expanded_check_agrees)
  have "pmp_all_enabled (fold sync_exp_entry is hs) = pmp_all_enabled hs"
    if "\<forall>i. pmpcfg hs i = 0" for "is" hs
    using that by (induction "is" arbitrary: hs) (auto simp: sync_exp_entry_def pmp_a_def Let_def)
  then show "\<not> pmp_fast (sync_exp_pmp zero_hart) 0x1000 0x1003"
    by (simp add: pmp_fast_def sync_exp_pmp_def zero_hart_def)
qed

text \<open>
  C33. The single-byte check decides as the first-match rule of the specification does: the
  lowest-numbered active entry that holds the address decides, and without one only machine mode
  has access.
\<close>

lemma byte_check_first_match:
  assumes "privmode hs \<le> 1 \<or> privmode hs = 3" and "b < 3" and "a \<noteq> 0xffffffffffffffff"
  shows "byte_grants (sync_exp_pmp hs) b (chk_pmp_exp (sync_exp_pmp hs) a) = pmp_spec hs b a a"
  using byte_exp_spec[OF sync_exp_pmp_synced _ assms(2,3), of hs] assms(1) by simp

lemma byte_check_first_match_witness:
  "byte_grants (sync_exp_pmp (hart_init 0x1000 1)) 1 (chk_pmp_exp (sync_exp_pmp (hart_init 0x1000 1)) 0x80000000)
   = pmp_spec (hart_init 0x1000 1) 1 0x80000000 0x80000000"
  by (rule byte_check_first_match) simp_all

text \<open>
  C8. The range check of loads, stores and fetches, after a refresh of the table, decides an
  access of at most eight bytes within two words exactly as the first-match rule on all its bytes
  does, with one exception: an access outside every restricting entry is granted as soon as some
  entry opens the whole address space, even if it straddles the border of another open entry.
  The exception never grants a byte that the rule denies on its own.
\<close>

lemma range_check_first_match:
  assumes "privmode hs \<le> 3" and "b < 3" and "pmp_addrs_ok hs"
    and "0 < n" and "unat lo mod 4 + n \<le> 8" and "unat lo + n < 2 ^ 64" and "hi = lo + of_nat (n - 1)"
  shows "range_grants (sync_exp_pmp hs) b (chk_pmp_range_exp (sync_exp_pmp hs) lo hi) =
      (pmp_rule hs b lo n \<or> pmp_bypass hs lo hi)
    \<and> (pmp_bypass hs lo hi \<longrightarrow> (\<forall>k<n. pmp_rule hs b (lo + of_nat k) 1))"
proof -
  let ?s = "sync_exp_pmp hs"
  have u: "unat (lo + of_nat j) = unat lo + j" if "j < n" for j
    using assms(6) that by (simp add: unat_word_ariths unat_of_nat)
  show ?thesis
  proof (cases "pmp_fast ?s lo hi")
    case True
    then have "chk_pmp_range_exp ?s lo hi = 0b111" by (simp add: chk_pmp_range_exp_def pmp_fast_def)
    then have g: "range_grants ?s b (chk_pmp_range_exp ?s lo hi)"
      using less_3_cases[OF assms(2)] by (auto simp: range_grants_def)
    have "pmp_rule hs b (lo + of_nat k) 1" if "k < n" for k
    proof -
      have "lo \<le> lo + of_nat k" "lo + of_nat k \<le> hi"
        using u[OF that] u[of "n - 1"] that assms(4) by (simp_all add: word_le_nat_alt assms(7))
      then have f: "pmp_fast ?s (lo + of_nat k) (lo + of_nat k)" using True by (auto simp: pmp_fast_def)
      have "lo + of_nat k \<noteq> 0xffffffffffffffff"
      proof
        assume "lo + of_nat k = 0xffffffffffffffff"
        then have "unat (lo + of_nat k) = 2 ^ 64 - 1" by simp
        then show False using u[OF that] assms(6) that by linarith
      qed
      then have "pmp_spec ?s b (lo + of_nat k) (lo + of_nat k)"
        using fast_grants_spec[OF sync_exp_pmp_synced f _ assms(2)] by blast
      then show ?thesis by (simp add: pmp_rule_byte del: One_nat_def)
    qed
    then show ?thesis using g True by (simp add: pmp_fast_bypass)
  next
    case False
    have "range_grants ?s b (chk_pmp_range_exp ?s lo hi) = pmp_spec hs b lo hi"
      using range_exp_slow[OF sync_exp_pmp_synced False _ assms(2)] assms(1) by simp
    then show ?thesis
      using False pmp_rule_ends[OF assms(3,5,6,4), of b] by (simp add: pmp_fast_bypass assms(7))
  qed
qed

text \<open>
  A supervisor with one readable and writable word at \<open>0x80000000\<close>: a store of the word is
  granted, a store of eight bytes there is not.
\<close>

definition demo_one_word :: HartState where
  "demo_one_word = zero_hart\<lparr>privmode := 1, pmpcfg := (\<lambda>_. 0)(0 := 0x13),
     pmpaddr := (\<lambda>_. 0)(0 := 0x20000000)\<rparr>"

lemma range_check_first_match_witness:
  "range_grants (sync_exp_pmp demo_one_word) 1 (chk_pmp_range_exp (sync_exp_pmp demo_one_word) 0x80000000 0x80000003)
   \<and> \<not> range_grants (sync_exp_pmp demo_one_word) 1 (chk_pmp_range_exp (sync_exp_pmp demo_one_word) 0x80000000 0x80000007)"
proof -
  let ?hs = demo_one_word
  have ok: "pmp_addrs_ok ?hs" "privmode ?hs \<le> 3"
    by (auto simp: pmp_addrs_ok_def demo_one_word_def list_all_iff zero_hart_def word_le_nat_alt)
  have nb: "\<not> pmp_bypass ?hs lo hi" for lo hi
    by (auto simp: pmp_bypass_def list_ex_iff pmp_opens_all_def demo_one_word_def zero_hart_def pmp_a_def
        split: if_splits)
  have t: "pmp_touches ?hs a 0 \<longleftrightarrow> 0x80000000 \<le> a \<and> a < 0x80000004" for a
    by (simp add: pmp_touches_def demo_one_word_def zero_hart_def pmp_a_def pmp_bounds_def in_bounds_def)
  have u: "[0..<PMP_COUNT] = 0 # [1..<PMP_COUNT]" using upt_conv_Cons[of 0 PMP_COUNT] by simp
  have b4: "access_bytes 0x80000000 4 = [0x80000000, 0x80000001, 0x80000002, 0x80000003]"
    and b8: "access_bytes 0x80000000 8 = [0x80000000, 0x80000001, 0x80000002, 0x80000003, 0x80000004,
      0x80000005, 0x80000006, 0x80000007]"
    by (simp_all add: access_bytes_def upt_conv_Cons)
  have "bit (pmpcfg ?hs 0) 1" by (simp add: demo_one_word_def)
  then have "pmp_rule ?hs 1 0x80000000 4" "\<not> pmp_rule ?hs 1 0x80000000 8"
    unfolding pmp_rule_def u b4 b8 by (simp_all add: t)
  then show ?thesis
    using range_check_first_match[of ?hs 1 4 "0x80000000" "0x80000003"]
      range_check_first_match[of ?hs 1 8 "0x80000000" "0x80000007"] ok nb by simp
qed

end
