(* ===== verification/Tlb.thy ===== *)
theory Tlb
  imports Hart
begin

text \<open>
  The hash table of cached translations (\<open>tlb_clear\<close>, \<open>tlb_hash\<close>, \<open>tlb_add\<close> of \<open>mem.cpp\<close>) as a
  data structure: \<open>size_count\<close> counts the valid entries of each page size and bounds the
  sizes a look-up has to try.  The look-up itself, which also updates the page table in
  memory, is part of the theory on address translation.
\<close>

definition tlb_clear :: "TLBStruct \<Rightarrow> TLBStruct" where
  "tlb_clear t = zero_TLB"

definition tlb_hash :: "u64 \<Rightarrow> nat" where
  "tlb_hash addr = unat (drop_bit 16 (106039 * addr) mod 64)"

text \<open>The largest size with a positive count, 0 if there is none.\<close>

definition tlb_max :: "(nat \<Rightarrow> u8) \<Rightarrow> u8" where
  "tlb_max cnt = fold (\<lambda>i mx. if cnt i > 0 then of_nat i else mx) [0..<6] 0"

definition tlb_add :: "TLBStruct \<Rightarrow> TLBEntry \<Rightarrow> TLBStruct" where
  "tlb_add t e =
    (let index = tlb_hash (virt_page e);
         old = tlb_entries t index;
         c0 = size_count t;
         c1 = (if permissions old \<noteq> 0
               then c0(unat (tlb_size old) := c0 (unat (tlb_size old)) - 1) else c0);
         c2 = c1(unat (tlb_size e) := c1 (unat (tlb_size e)) + 1)
     in \<lparr>max_entry_size = tlb_max c2, size_count = c2, tlb_entries = (tlb_entries t)(index := e)\<rparr>)"

text \<open>\<open>offset_size\<close>, a \<open>uint8_t\<close>\<close>

definition offset_size :: "nat \<Rightarrow> nat" where
  "offset_size i = (12 + 9 * i) mod 256"

definition page_base :: "nat \<Rightarrow> u64 \<Rightarrow> u64" where
  "page_base i va = va AND shl64 (- 1) (offset_size i)"

definition tlb_slot :: "TLBStruct \<Rightarrow> nat \<Rightarrow> u64 \<Rightarrow> TLBEntry" where
  "tlb_slot t i va = tlb_entries t (tlb_hash (page_base i va))"

text \<open>\<open>for (int8_t i = max_entry_size; i >= 0; i--)\<close>\<close>

definition tlb_sizes :: "TLBStruct \<Rightarrow> nat list" where
  "tlb_sizes t = rev [0..<nat (sint (max_entry_size t) + 1)]"

subsection \<open>Invariant\<close>

text \<open>The slots holding a valid entry of size \<open>k\<close>.\<close>

definition tlb_valid :: "TLBStruct \<Rightarrow> nat \<Rightarrow> nat set" where
  "tlb_valid t k = {j. j < TLB_SIZE \<and> permissions (tlb_entries t j) \<noteq> 0 \<and> unat (tlb_size (tlb_entries t j)) = k}"

definition tlb_inv :: "TLBStruct \<Rightarrow> bool" where
  "tlb_inv t \<longleftrightarrow> (\<forall>k. size_count t k = of_nat (card (tlb_valid t k))) \<and> max_entry_size t = tlb_max (size_count t)
     \<and> (\<forall>j < TLB_SIZE. permissions (tlb_entries t j) \<noteq> 0 \<longrightarrow> unat (tlb_size (tlb_entries t j)) < 6)"

lemma tlb_hash_less [simp]: "tlb_hash a < TLB_SIZE"
proof -
  have "unat (drop_bit 16 (106039 * a) mod 64) = unat (drop_bit 16 (106039 * a)) mod 64"
    by (simp add: unat_mod)
  then show ?thesis by (simp add: tlb_hash_def)
qed

lemma tlb_valid_finite [simp]: "finite (tlb_valid t k)"
  by (simp add: tlb_valid_def)

lemma tlb_valid_card: "card (tlb_valid t k) \<le> TLB_SIZE"
proof -
  have "tlb_valid t k \<subseteq> {..<TLB_SIZE}" by (auto simp: tlb_valid_def)
  then have "card (tlb_valid t k) \<le> card {..<TLB_SIZE}" by (intro card_mono) simp_all
  then show ?thesis by simp
qed

lemma tlb_valid_clear [simp]: "tlb_valid zero_TLB k = {}"
  by (simp add: tlb_valid_def zero_TLB_def zero_TLBEntry_def)

lemma upt_6: "[0..<6] = [0, 1, 2, 3, 4, 5]"
  by (simp add: upt_rec)

lemma tlb_max_zero [simp]: "tlb_max (\<lambda>_. 0) = 0"
  by (simp add: tlb_max_def upt_6)

lemma tlb_inv_clear [simp]: "tlb_inv zero_TLB" "tlb_inv (tlb_clear t)"
proof -
  show z: "tlb_inv zero_TLB"
    unfolding tlb_inv_def by (simp add: zero_TLB_def[unfolded zero_TLBEntry_def] tlb_valid_def)
  then show "tlb_inv (tlb_clear t)" by (simp add: tlb_clear_def)
qed

text \<open>A count is positive exactly when there is such an entry, and then the size is searched.\<close>

lemma size_count_pos:
  assumes "tlb_inv t"
  shows "size_count t k > 0 \<longleftrightarrow> tlb_valid t k \<noteq> {}"
proof -
  have "unat (of_nat (card (tlb_valid t k)) :: u8) = card (tlb_valid t k)"
    using tlb_valid_card[of t k] by (simp add: unat_of_nat)
  then show ?thesis
    using assms by (simp add: tlb_inv_def word_less_nat_alt card_gt_0_iff)
qed

lemma tlb_max_bound: "k < 6 \<Longrightarrow> cnt k > 0 \<Longrightarrow> k \<le> unat (tlb_max cnt)" "unat (tlb_max cnt) < 6"
proof -
  show "unat (tlb_max cnt) < 6" by (simp add: tlb_max_def upt_6)
  assume "k < 6" "cnt k > 0"
  moreover have "k = 0 \<or> k = 1 \<or> k = 2 \<or> k = 3 \<or> k = 4 \<or> k = 5" using \<open>k < 6\<close> by auto
  ultimately show "k \<le> unat (tlb_max cnt)" by (auto simp: tlb_max_def upt_6)
qed

lemma tlb_valid_add:
  "tlb_valid (tlb_add t e) k =
     (tlb_valid t k - {tlb_hash (virt_page e)}) \<union>
     (if permissions e \<noteq> 0 \<and> unat (tlb_size e) = k then {tlb_hash (virt_page e)} else {})"
  using tlb_hash_less[of "virt_page e"] by (auto simp: tlb_valid_def tlb_add_def Let_def)

lemma tlb_add_inv:
  assumes inv: "tlb_inv t" and e: "permissions e \<noteq> 0" "unat (tlb_size e) < 6"
  shows "tlb_inv (tlb_add t e)"
proof -
  define x where "x = tlb_hash (virt_page e)"
  define old where "old = tlb_entries t x"
  have xl: "x < TLB_SIZE" by (simp add: x_def)
  have mem: "x \<in> tlb_valid t k \<longleftrightarrow> permissions old \<noteq> 0 \<and> unat (tlb_size old) = k" for k
    using xl by (simp add: tlb_valid_def old_def)
  have cnt: "size_count t k = of_nat (card (tlb_valid t k))" for k using inv by (simp add: tlb_inv_def)
  have less: "of_nat (card (tlb_valid t k - {x})) =
      (if permissions old \<noteq> 0 \<and> unat (tlb_size old) = k then size_count t k - 1 else size_count t k)" for k
  proof (cases "x \<in> tlb_valid t k")
    case True
    then have "card (tlb_valid t k) = Suc (card (tlb_valid t k - {x}))" by (metis card_Suc_Diff1 tlb_valid_finite)
    then show ?thesis using True mem by (simp add: cnt)
  next
    case False
    then show ?thesis using mem by (auto simp: cnt)
  qed
  have new: "of_nat (card (tlb_valid (tlb_add t e) k)) = size_count (tlb_add t e) k" for k
  proof -
    have "card (tlb_valid (tlb_add t e) k) =
        card (tlb_valid t k - {x}) + (if unat (tlb_size e) = k then 1 else 0)"
    proof -
      have "card (tlb_valid (tlb_add t e) k) =
          card (tlb_valid t k - {x}) + card (if permissions e \<noteq> 0 \<and> unat (tlb_size e) = k then {x} else {})"
        unfolding tlb_valid_add x_def[symmetric] by (rule card_Un_disjoint) auto
      then show ?thesis using e by simp
    qed
    then have "of_nat (card (tlb_valid (tlb_add t e) k)) =
        (of_nat (card (tlb_valid t k - {x})) + (if unat (tlb_size e) = k then 1 else 0) :: u8)"
      by simp
    also have "\<dots> = size_count (tlb_add t e) k"
      unfolding less by (simp add: tlb_add_def Let_def x_def[symmetric] old_def[symmetric])
    finally show ?thesis .
  qed
  have "max_entry_size (tlb_add t e) = tlb_max (size_count (tlb_add t e))"
    by (simp add: tlb_add_def Let_def)
  moreover have "\<forall>j < TLB_SIZE. permissions (tlb_entries (tlb_add t e) j) \<noteq> 0 \<longrightarrow>
      unat (tlb_size (tlb_entries (tlb_add t e) j)) < 6"
    using inv e by (simp add: tlb_add_def Let_def tlb_inv_def)
  ultimately show ?thesis unfolding tlb_inv_def by (simp add: new)
qed

text \<open>The entry a look-up of \<open>va\<close> at size \<open>i\<close> would use.\<close>

definition tlb_cached :: "TLBStruct \<Rightarrow> nat \<Rightarrow> u64 \<Rightarrow> TLBEntry option" where
  "tlb_cached t i va =
    (let e = tlb_slot t i va
     in if i = unat (tlb_size e) \<and> permissions e \<noteq> 0 \<and> (va XOR virt_page e) < shl64 1 (offset_size i)
        then Some e else None)"

definition tlb_entry_for :: "nat \<Rightarrow> u64 \<Rightarrow> TLBEntry \<Rightarrow> bool" where
  "tlb_entry_for i va e \<longleftrightarrow> i \<le> 4 \<and> unat (tlb_size e) = i \<and> permissions e \<noteq> 0 \<and> virt_page e = page_base i va"

lemma offset_size_small: "i \<le> 4 \<Longrightarrow> offset_size i = 12 + 9 * i"
  by (simp add: offset_size_def)

lemma bit_page_base: "i \<le> 4 \<Longrightarrow> bit (page_base i va) k \<longleftrightarrow> 12 + 9 * i \<le> k \<and> bit va k"
  by (cases "k < 64") (auto simp: page_base_def offset_size_small shl64_def bit_simps bit_64_above)

lemma xor_page_base:
  assumes "i \<le> 4"
  shows "(va XOR page_base i va) < shl64 1 (offset_size i)"
proof -
  have "(va XOR page_base i va) < 2 ^ (12 + 9 * i)"
    using assms by (intro less_pow_of_bits) (auto simp: bit_simps bit_page_base)
  then show ?thesis using assms by (simp add: offset_size_small shl64_def push_bit_eq_mult)
qed

lemma page_base_idem: "i \<le> 4 \<Longrightarrow> page_base i (page_base i va) = page_base i va"
  by (rule bit_word_eqI) (auto simp: bit_page_base)

lemma tlb_cached_add:
  assumes "tlb_entry_for i va e" and "page_base i va' = page_base i va"
  shows "tlb_cached (tlb_add t e) i va' = Some e"
proof -
  have "tlb_slot (tlb_add t e) i va' = e"
    using assms by (simp add: tlb_slot_def tlb_add_def Let_def tlb_entry_for_def)
  then show ?thesis
    using assms xor_page_base[of i va'] by (simp add: tlb_cached_def tlb_entry_for_def)
qed

lemma tlb_cached_add_old:
  "tlb_cached (tlb_add t e) i va = Some e' \<Longrightarrow> e' = e \<or> tlb_cached t i va = Some e'"
  by (auto simp: tlb_cached_def tlb_slot_def tlb_add_def Let_def split: if_splits)

lemma tlb_cached_searched:
  assumes inv: "tlb_inv t" and c: "tlb_cached t i va = Some e"
  shows "i \<in> set (tlb_sizes t)"
proof -
  have v: "tlb_hash (page_base i va) \<in> tlb_valid t i"
    using c by (auto simp: tlb_cached_def tlb_valid_def tlb_slot_def Let_def split: if_splits)
  have "\<forall>j < TLB_SIZE. permissions (tlb_entries t j) \<noteq> 0 \<longrightarrow> unat (tlb_size (tlb_entries t j)) < 6"
    using inv unfolding tlb_inv_def by blast
  then have "i < 6" using v tlb_hash_less[of "page_base i va"] unfolding tlb_valid_def mem_Collect_eq by metis
  moreover have "size_count t i > 0" using size_count_pos[OF inv] v by auto
  moreover have m: "max_entry_size t = tlb_max (size_count t)" using inv unfolding tlb_inv_def by blast
  ultimately have b: "i \<le> unat (max_entry_size t)" "unat (max_entry_size t) < 6"
    using tlb_max_bound by simp_all
  have "sint (max_entry_size t) = int (unat (max_entry_size t))"
  proof -
    have "int (unat (max_entry_size t)) < 6" using b(2) by linarith
    then have "uint (max_entry_size t) < 2 ^ 7" by simp
    then have "signed_take_bit 7 (uint (max_entry_size t)) = uint (max_entry_size t)"
      using uint_ge_0[of "max_entry_size t"] by (intro signed_take_bit_int_eq_self) linarith+
    then show ?thesis by (simp add: sint_uint)
  qed
  then have "nat (sint (max_entry_size t) + 1) = Suc (unat (max_entry_size t))" by linarith
  then show ?thesis using b(1) by (simp add: tlb_sizes_def less_Suc_eq_le del: upt_Suc)
qed

subsection \<open>The cache as an interface\<close>

text \<open>
  What a cache of translations promises: it starts empty, an added entry is found for every
  address of its page, nothing is found that was not added, and every size under which
  something can be found is among those a look-up tries.
\<close>

locale translation_cache =
  fixes inv :: "'t \<Rightarrow> bool" and empty :: 't
    and add :: "'t \<Rightarrow> 'e \<Rightarrow> 't"
    and fits :: "nat \<Rightarrow> 'a \<Rightarrow> 'e \<Rightarrow> bool"
    and page :: "nat \<Rightarrow> 'a \<Rightarrow> 'a"
    and cached :: "'t \<Rightarrow> nat \<Rightarrow> 'a \<Rightarrow> 'e option"
    and sizes :: "'t \<Rightarrow> nat list"
  assumes inv_empty: "inv empty"
    and cached_empty: "cached empty i va = None"
    and inv_add: "inv t \<Longrightarrow> fits i va e \<Longrightarrow> inv (add t e)"
    and cached_add: "fits i va e \<Longrightarrow> page i va' = page i va \<Longrightarrow> cached (add t e) i va' = Some e"
    and cached_add_old: "cached (add t e) i va = Some e' \<Longrightarrow> e' = e \<or> cached t i va = Some e'"
    and cached_sizes: "inv t \<Longrightarrow> cached t i va = Some e \<Longrightarrow> i \<in> set (sizes t)"
begin

definition add_all :: "'e list \<Rightarrow> 't \<Rightarrow> 't" where
  "add_all es t = fold (\<lambda>e t. add t e) es t"

lemma add_all_inv: "inv t \<Longrightarrow> \<forall>e \<in> set es. \<exists>i va. fits i va e \<Longrightarrow> inv (add_all es t)"
  by (induction es arbitrary: t) (auto simp: add_all_def intro: inv_add)

lemma cached_add_all: "cached (add_all es t) i va = Some e \<Longrightarrow> e \<in> set es \<or> cached t i va = Some e"
  by (induction es arbitrary: t) (auto simp: add_all_def dest: cached_add_old)

text \<open>The most recent entry for a page is found and its size is tried.\<close>

lemma last_added:
  assumes "\<forall>e \<in> set es. \<exists>i va. fits i va e" and "fits i va e" and "page i va' = page i va"
  shows "cached (add_all (es @ [e]) empty) i va' = Some e \<and> i \<in> set (sizes (add_all (es @ [e]) empty))"
proof -
  have "add_all (es @ [e]) empty = add (add_all es empty) e" by (simp add: add_all_def)
  then have c: "cached (add_all (es @ [e]) empty) i va' = Some e" using cached_add assms(2,3) by simp
  have "inv (add_all (es @ [e]) empty)" using assms by (intro add_all_inv inv_empty) auto
  then show ?thesis using c cached_sizes by blast
qed

end

interpretation tlb_cache: translation_cache tlb_inv zero_TLB tlb_add tlb_entry_for page_base tlb_cached tlb_sizes
proof unfold_locales
  show "tlb_inv zero_TLB" by simp
  show "tlb_cached zero_TLB i va = None" for i va
    by (simp add: tlb_cached_def tlb_slot_def zero_TLB_def zero_TLBEntry_def)
  show "tlb_inv t \<Longrightarrow> tlb_entry_for i va e \<Longrightarrow> tlb_inv (tlb_add t e)" for t i va e
    by (rule tlb_add_inv) (auto simp: tlb_entry_for_def)
qed (fact tlb_cached_add tlb_cached_add_old tlb_cached_searched)+

text \<open>What holds of a hart at all times: a consistent TLB and one of the encodable modes.\<close>

definition hart_good :: "HartState \<Rightarrow> bool" where
  "hart_good hs \<longleftrightarrow> tlb_inv (tlb hs) \<and> privmode hs \<le> 3"

text \<open>
  C24. After any sequence of insertions of page-table leaves into the empty TLB, a look-up of any
  address in the page inserted last finds that entry, and its page size is among the sizes that
  the look-up tries.
\<close>

lemma tlb_last_added:
  assumes "\<forall>e \<in> set es. \<exists>i va. tlb_entry_for i va e" and "tlb_entry_for i va e"
    and "page_base i va' = page_base i va"
  shows "tlb_cached (fold (\<lambda>e t. tlb_add t e) (es @ [e]) zero_TLB) i va' = Some e
    \<and> i \<in> set (tlb_sizes (fold (\<lambda>e t. tlb_add t e) (es @ [e]) zero_TLB))"
  using tlb_cache.last_added[OF assms] by (simp add: tlb_cache.add_all_def)

definition demo_tlb_entry :: TLBEntry where
  "demo_tlb_entry = \<lparr>virt_page = 0x200000, phy_page = 0x80200000, pte_addr = 0x80001008, tlb_size = 1,
     permissions = 7, user = False\<rparr>"

lemma tlb_last_added_witness:
  "tlb_cached (fold (\<lambda>e t. tlb_add t e) ([] @ [demo_tlb_entry]) zero_TLB) 1 0x212345 = Some demo_tlb_entry"
proof -
  have "tlb_entry_for 1 0x200000 demo_tlb_entry"
    by (simp add: tlb_entry_for_def demo_tlb_entry_def page_base_def offset_size_def shl64_def mask_eq_exp_minus_1)
  moreover have "page_base 1 0x212345 = page_base 1 0x200000"
    by (simp add: page_base_def offset_size_def shl64_def mask_eq_exp_minus_1)
  ultimately show ?thesis using tlb_last_added[of "[]" 1 "0x200000" demo_tlb_entry "0x212345"] by simp
qed

end
