(* ===== verification/Csr.thy ===== *)
theory Csr
  imports Alu Pmp Tlb
begin

text \<open>
  The SYSTEM instructions of \<open>decode_exc\<close> and the CSR file (\<open>csr_from_addr\<close>,
  \<open>chk_ro0_csr\<close>, \<open>pmpcfg_rw\<close> of \<open>cpu.cpp\<close>).  They touch nothing but the hart; the one value
  from outside, \<open>aclint_mtime_get()\<close> for the \<open>time\<close> CSR, is an argument.
\<close>

subsection \<open>The CSR file\<close>

text \<open>What the pointer returned by \<open>csr_from_addr\<close> designates.\<close>

datatype csr_ref =
    Cmstatus | Cmisa | Cmedeleg | Cmideleg | Cmie | Cmtvec | Cmscratch | Cmepc | Cmcause | Cmtval | Cmip
  | Csstatus | Csie | Cstvec | Csscratch | Csepc | Cscause | Cstval | Csatp
  | Cmvendorid | Cmarchid | Cmimpid | Cmhartid | Cpmpaddr nat

definition csr_table :: "(u16 \<times> csr_ref) list" where
  "csr_table =
    [(0x300, Cmstatus), (0x301, Cmisa), (0x302, Cmedeleg), (0x303, Cmideleg), (0x304, Cmie),
     (0x305, Cmtvec), (0x340, Cmscratch), (0x341, Cmepc), (0x342, Cmcause), (0x343, Cmtval),
     (0x344, Cmip),
     (0x100, Csstatus), (0x104, Csie), (0x105, Cstvec), (0x140, Csscratch), (0x141, Csepc),
     (0x142, Cscause), (0x143, Cstval), (0x180, Csatp),
     (0xF11, Cmvendorid), (0xF12, Cmarchid), (0xF13, Cmimpid), (0xF14, Cmhartid)]"

definition csr_from_addr :: "u16 \<Rightarrow> csr_ref option" where
  "csr_from_addr addr =
    (case map_of csr_table addr of
       Some r \<Rightarrow> Some r
     | None \<Rightarrow>
         if 0x3B0 \<le> addr \<and> addr < 0x3B0 + 16 then Some (Cpmpaddr (unat (addr - 0x3B0))) else None)"

text \<open>The identification registers are globals that hold 0; a write never reaches them.\<close>

fun csr_get :: "csr_ref \<Rightarrow> HartState \<Rightarrow> u64" where
  "csr_get Cmstatus hs = mstatus hs" | "csr_get Cmisa hs = misa hs"
| "csr_get Cmedeleg hs = medeleg hs" | "csr_get Cmideleg hs = mideleg hs"
| "csr_get Cmie hs = mie hs" | "csr_get Cmtvec hs = mtvec hs"
| "csr_get Cmscratch hs = mscratch hs" | "csr_get Cmepc hs = mepc hs"
| "csr_get Cmcause hs = mcause hs" | "csr_get Cmtval hs = mtval hs"
| "csr_get Cmip hs = mip hs" | "csr_get Csstatus hs = sstatus hs"
| "csr_get Csie hs = sie hs" | "csr_get Cstvec hs = stvec hs"
| "csr_get Csscratch hs = sscratch hs" | "csr_get Csepc hs = sepc hs"
| "csr_get Cscause hs = scause hs" | "csr_get Cstval hs = stval hs"
| "csr_get Csatp hs = satp hs" | "csr_get Cmvendorid hs = 0"
| "csr_get Cmarchid hs = 0" | "csr_get Cmimpid hs = 0"
| "csr_get Cmhartid hs = mhartid hs" | "csr_get (Cpmpaddr i) hs = pmpaddr hs i"

fun csr_put :: "csr_ref \<Rightarrow> u64 \<Rightarrow> HartState \<Rightarrow> HartState" where
  "csr_put Cmstatus v hs = hs\<lparr>mstatus := v\<rparr>" | "csr_put Cmisa v hs = hs\<lparr>misa := v\<rparr>"
| "csr_put Cmedeleg v hs = hs\<lparr>medeleg := v\<rparr>" | "csr_put Cmideleg v hs = hs\<lparr>mideleg := v\<rparr>"
| "csr_put Cmie v hs = hs\<lparr>mie := v\<rparr>" | "csr_put Cmtvec v hs = hs\<lparr>mtvec := v\<rparr>"
| "csr_put Cmscratch v hs = hs\<lparr>mscratch := v\<rparr>" | "csr_put Cmepc v hs = hs\<lparr>mepc := v\<rparr>"
| "csr_put Cmcause v hs = hs\<lparr>mcause := v\<rparr>" | "csr_put Cmtval v hs = hs\<lparr>mtval := v\<rparr>"
| "csr_put Cmip v hs = hs\<lparr>mip := v\<rparr>" | "csr_put Csstatus v hs = hs\<lparr>sstatus := v\<rparr>"
| "csr_put Csie v hs = hs\<lparr>sie := v\<rparr>" | "csr_put Cstvec v hs = hs\<lparr>stvec := v\<rparr>"
| "csr_put Csscratch v hs = hs\<lparr>sscratch := v\<rparr>" | "csr_put Csepc v hs = hs\<lparr>sepc := v\<rparr>"
| "csr_put Cscause v hs = hs\<lparr>scause := v\<rparr>" | "csr_put Cstval v hs = hs\<lparr>stval := v\<rparr>"
| "csr_put Csatp v hs = hs\<lparr>satp := v\<rparr>" | "csr_put Cmvendorid v hs = hs"
| "csr_put Cmarchid v hs = hs" | "csr_put Cmimpid v hs = hs"
| "csr_put Cmhartid v hs = hs\<lparr>mhartid := v\<rparr>"
| "csr_put (Cpmpaddr i) v hs = hs\<lparr>pmpaddr := (pmpaddr hs)(i := v)\<rparr>"

definition chk_ro0_csr :: "u16 \<Rightarrow> bool" where
  "chk_ro0_csr csrno \<longleftrightarrow> (0xB03 \<le> csrno \<and> csrno \<le> 0xB1F) \<or> (0x323 \<le> csrno \<and> csrno \<le> 0x33F)
     \<or> csrno = 0x30A"

subsection \<open>The PMP configuration registers\<close>

definition pmpcfg_next :: "u8 \<Rightarrow> u8 \<Rightarrow> u8 \<Rightarrow> u8" where
  "pmpcfg_next funct old wv =
    (if funct = 0b01 then wv else if funct = 0b10 then old OR wv
     else if funct = 0b11 then old AND NOT wv else old)"

text \<open>
  One iteration for byte \<open>i\<close> of the register.  \<open>pmpcfg[cfgindex] << (8*i)\<close> is a shift of an
  \<open>int\<close>: the count is taken modulo 32 and the result sign-extended into \<open>readval\<close>.
\<close>

definition pmpcfg_byte :: "nat \<Rightarrow> u64 \<Rightarrow> u8 \<Rightarrow> nat \<Rightarrow> u64 \<times> HartState \<Rightarrow> (u64 \<times> HartState) option" where
  "pmpcfg_byte start wvalue funct i s = (case s of (readval, hs) \<Rightarrow>
    (let cfgindex = start + i; old = pmpcfg hs cfgindex;
         readval' = readval OR scast (push_bit (8 * i mod 32) (ucast old :: u32));
         new = pmpcfg_next funct old (ucast (drop_bit (8 * i) wvalue AND 0xFF));
         tor = (new AND 0b11000 = 0b01000 \<and> cfgindex \<noteq> 0)
     in do {
       guard (cfgindex < PMP_COUNT);
       Some (if bit old 7 then (readval', hs)
             else (readval', hs\<lparr>
               pmpcfg := (pmpcfg hs)(cfgindex := new),
               pmp_lockedaddr := (if bit new 7
                 then (if tor then (pmp_lockedaddr hs)(cfgindex := True, cfgindex - 1 := True)
                       else (pmp_lockedaddr hs)(cfgindex := True))
                 else pmp_lockedaddr hs)\<rparr>))
     }))"

text \<open>\<open>*rvalue\<close> is \<open>hs.regs[rd]\<close>.\<close>

definition pmpcfg_rw :: "u16 \<Rightarrow> u8 \<Rightarrow> u64 \<Rightarrow> u8 \<Rightarrow> HartState \<Rightarrow> (HartException \<times> HartState) option" where
  "pmpcfg_rw addr rdn wvalue funct hs =
    (if bit addr 0 then Some (create_exception hs ILLINST (scast (inst hs)))
     else do {
       (readval, hs') \<leftarrow> for_each (pmpcfg_byte (4 * unat (addr - 0x3A0)) wvalue funct) [0..<8] (0, hs);
       Some (NOEXC, sync_exp_pmp (set_reg rdn readval hs'))
     })"

subsection \<open>CSR instructions\<close>

definition csr_write_val :: "u8 \<Rightarrow> bool \<Rightarrow> u64 \<Rightarrow> u64 \<Rightarrow> u64" where
  "csr_write_val funct sip old wv =
    (if funct = 0b01 then (if sip then wv AND NOT 0b100010001000 else wv)
     else if funct = 0b10 then old OR (if sip then wv AND NOT 0b100010001000 else wv)
     else if funct = 0b11 then old AND NOT (if sip then wv OR 0b100010001000 else wv)
     else old)"

text \<open>After a CSR instruction on \<open>mstatus\<close>, read or write.\<close>

definition mstatus_fix :: "u64 \<Rightarrow> u64" where
  "mstatus_fix ms = ((ms AND NOT 0b10101) AND NOT (bmask 32 4)) OR push_bit 32 0b1010"

definition csr_mirror :: "u16 \<Rightarrow> bool \<Rightarrow> bool \<Rightarrow> HartState \<Rightarrow> HartState" where
  "csr_mirror im sstatus_i sie_i hs =
    (let ms = (if im = 0x300 then mstatus_fix (mstatus hs) else mstatus hs)
     in hs\<lparr>mstatus := ms,
           sstatus := (if sstatus_i then ms AND NOT (bmask 34 2) else sstatus hs),
           sie := (if sie_i then mie hs AND NOT 0b100010001000 else sie hs)\<rparr>)"

definition int_csr :: "u16 \<Rightarrow> bool" where
  "int_csr im \<longleftrightarrow> im = 0x300 \<or> im = 0x302 \<or> im = 0x303 \<or> im = 0x304 \<or> im = 0x344"

text \<open>
  The part behind the pointer: \<open>im\<close> is the number after the redirections of \<open>sstatus\<close>,
  \<open>sie\<close> and \<open>sip\<close> to their machine counterparts, \<open>f\<close> is \<open>funct3 & 0b11\<close>.
\<close>

definition csr_access :: "u16 \<Rightarrow> bool \<Rightarrow> bool \<Rightarrow> bool \<Rightarrow> csr_ref \<Rightarrow> u8 \<Rightarrow> u8 \<Rightarrow> u8 \<Rightarrow> u64 \<Rightarrow> HartState \<Rightarrow>
    ctl \<times> HartState" where
  "csr_access im sstatus_i sie_i sip_i r rdn rs1n f wvalue hs =
    (let hs1 = (if rdn \<noteq> 0 then set_reg rdn (csr_get r hs) hs else hs);
         locked = (case r of Cpmpaddr i \<Rightarrow> pmp_lockedaddr hs i | _ \<Rightarrow> False);
         writes = (f = 0b01 \<or> (wvalue \<noteq> 0 \<and> rs1n \<noteq> 0))
     in if locked then (Done False, hs1)
        else if writes \<and> im AND 0xC00 = 0xC00 \<and> \<not> (sstatus_i \<or> sie_i \<or> sip_i)
          then raise ILLINST (scast (inst hs1)) hs1
        else if writes \<and> im = 0x301 then (Done False, hs1)
        else if writes then
          (let hs2 = csr_put r (csr_write_val f sip_i (csr_get r hs1) wvalue)
                       (hs1\<lparr>chk_int := (chk_int hs1 \<or> int_csr im)\<rparr>)
           in (Done False, csr_mirror im sstatus_i sie_i hs2))
        else (Done False, csr_mirror im sstatus_i sie_i hs1))"

definition csr_number :: "decoded \<Rightarrow> u16" where
  "csr_number d = ucast (imm d AND 0xFFF)"

definition exec_csr :: "u64 \<Rightarrow> decoded \<Rightarrow> HartState \<Rightarrow> (ctl \<times> HartState) option" where
  "exec_csr mtime d hs =
    (let im = csr_number d;
         wvalue = (if bit (funct3 d) 2 then ucast (rs1 d) else regs hs (rs1 d));
         f = funct3 d AND 0b11;
         sstatus_i = (im = 0x100); sie_i = (im = 0x104); sip_i = (im = 0x144);
         im' = (if sstatus_i then 0x300 else if sie_i then 0x304 else if sip_i then 0x344 else im)
     in if ucast (drop_bit 8 (im AND 0x300)) > privmode hs then
          Some (raise ILLINST (scast (inst hs)) hs)
        else if im = 0xC01 then Some (Done False, set_reg (rd d) mtime hs)
        else if chk_ro0_csr im then Some (Done False, set_reg (rd d) 0 hs)
        else if im = 0x306 \<or> im = 0x106 \<or> im = 0x320 then Some (Done False, set_reg (rd d) 5 hs)
        else if 0x3A0 \<le> im \<and> im < 0x3B0 then do {
          (e, hs') \<leftarrow> pmpcfg_rw im (rd d) wvalue f
                       (hs\<lparr>pc := pc hs + inst_bytes hs, minstret := minstret hs + 1\<rparr>);
          Some (Return e, hs') }
        else if im' = 0x180 \<and> bit (mstatus hs) 20 then Some (raise ILLINST (scast (inst hs)) hs)
        else case csr_from_addr im' of
          None \<Rightarrow> Some (raise ILLINST (scast (inst hs)) hs)
        | Some r \<Rightarrow> Some (csr_access im' sstatus_i sie_i sip_i r (rd d) (rs1 d) f wvalue hs))"

subsection \<open>The SYSTEM opcode\<close>

definition ecall_exception :: "u8 \<Rightarrow> HartException" where
  "ecall_exception p =
    (if p = 0 then UECALL else if p = 1 then HSECALL else if p = 2 then VSECALL else MECALL)"

text \<open>The sleep of WFI is not modelled.\<close>

definition exec_system :: "u64 \<Rightarrow> decoded \<Rightarrow> HartState \<Rightarrow> (ctl \<times> HartState) option" where
  "exec_system mtime d hs =
    (if inst hs = 0x00000073 then Some (raise (ecall_exception (privmode hs)) (pc hs) hs)
     else if inst hs = 0x00100073 \<or> cebreak d then Some (raise BPOINT (pc hs) hs)
     else if inst hs = 0x30200073 then Some (Done True, exec_mret hs)
     else if inst hs = 0x10200073 then
       (if bit (mstatus hs) 22 then Some (raise ILLINST (scast (inst hs)) hs)
        else Some (Done True, exec_sret hs))
     else if inst hs = 0x10500073 then
       (if bit (mstatus hs) 21 then Some (raise ILLINST (scast (inst hs)) hs)
        else Some (Done False, hs\<lparr>chk_int := True\<rparr>))
     else if drop_bit 25 (inst hs) = 0b0001001 then
       (if bit (mstatus hs) 20 then Some (raise ILLINST (scast (inst hs)) hs)
        else Some (Done False, hs\<lparr>tlb := tlb_clear (tlb hs), instbuf := 0\<rparr>))
     else exec_csr mtime d hs)"

subsection \<open>What a CSR instruction can reach\<close>

text \<open>The registers only machine mode may change.\<close>

definition machine_csrs where
  "machine_csrs hs = (medeleg hs, mideleg hs, mtvec hs, mscratch hs, misa hs, mhartid hs,
     pmpcfg hs, pmpaddr hs, pmp_lockedaddr hs, pmp_expanded hs)"

definition supervisor_ref :: "csr_ref \<Rightarrow> bool" where
  "supervisor_ref r \<longleftrightarrow> r \<in> {Csstatus, Csie, Cstvec, Csscratch, Csepc, Cscause, Cstval, Csatp}"

lemma machine_block:
  assumes "0x3A0 \<le> im" "im < (0x3C0 :: u16)"
  shows "im AND 0x300 = 0x300"
proof -
  have u: "928 \<le> unat im" "unat im < 960" using assms by (simp_all add: word_le_nat_alt word_less_nat_alt)
  then have "unat im div 2 ^ 8 = 3" by auto
  then have d: "unat (drop_bit 8 im) = 3" by (simp add: unat_drop_bit_eq drop_bit_eq_div unat_div)
  then have d: "drop_bit 8 im = 3" by (auto simp: word_unat_eq_iff)
  have "bit im (8 + k) = bit (3 :: u16) k" for k using d by (metis bit_drop_bit_eq comp_apply)
  from this[of 0] this[of 1] have b: "bit im 8" "bit im 9" by simp_all
  have m: "(0x300 :: u16) = push_bit 8 (mask 2)" by (simp add: mask_eq_exp_minus_1)
  show ?thesis
  proof (rule bit_word_eqI)
    fix n assume "n < LENGTH(16)"
    show "bit (im AND 0x300) n = bit (0x300 :: u16) n"
    proof (cases "n = 8 \<or> n = 9")
      case False
      then have "n < 8 \<or> 10 \<le> n" by auto
      then show ?thesis unfolding m by (auto simp: bit_simps)
    qed (use b in \<open>auto simp: m bit_simps\<close>)
  qed
qed

lemma csr_from_addr_supervisor:
  assumes "csr_from_addr im = Some r" and "ucast (drop_bit 8 (im AND 0x300)) < (3 :: u8)"
  shows "supervisor_ref r"
proof -
  have "\<not> (0x3B0 \<le> im \<and> im < 0x3C0)"
  proof
    assume a: "0x3B0 \<le> im \<and> im < 0x3C0"
    have "0x3A0 \<le> (0x3B0 :: u16)" by (simp add: word_le_nat_alt)
    then have "im AND 0x300 = 0x300" using a machine_block order_trans by blast
    then show False using assms(2) by simp
  qed
  then show ?thesis
    using assms by (auto simp: csr_from_addr_def csr_table_def supervisor_ref_def split: if_splits)
qed

lemma csr_put_supervisor:
  "supervisor_ref r \<or> r \<in> {Cmstatus, Cmie, Cmip} \<Longrightarrow> machine_csrs (csr_put r v hs) = machine_csrs hs"
  by (auto simp: supervisor_ref_def machine_csrs_def)

lemma machine_csrs_upd [simp]:
  "machine_csrs (set_reg d v hs) = machine_csrs hs" "machine_csrs (hs\<lparr>chk_int := b\<rparr>) = machine_csrs hs"
  "machine_csrs (csr_mirror im a b hs) = machine_csrs hs"
  by (simp_all add: machine_csrs_def set_reg_def csr_mirror_def Let_def)

lemma machine_csrs_exception [simp]: "machine_csrs (snd (create_exception hs x v)) = machine_csrs hs"
  by (simp add: create_exception_def machine_csrs_def Let_def trap_to_m_def trap_to_s_def)

lemma machine_csrs_raise [simp]: "machine_csrs (snd (raise x v hs)) = machine_csrs hs"
  by (simp add: raise_def case_prod_unfold Let_def)

lemma raise_machine: "raise x v hs = (c, hs') \<Longrightarrow> machine_csrs hs' = machine_csrs hs"
  using machine_csrs_raise[of x v hs] by simp

text \<open>\<open>csr_access\<close> as a case distinction over its intermediate states.\<close>

lemma csr_access_outcome:
  fixes rdn rs1n f wv r and hs :: HartState
  defines "hs1 \<equiv> (if rdn \<noteq> 0 then set_reg rdn (csr_get r hs) hs else hs)"
  assumes "csr_access im a b c r rdn rs1n f wv hs = (ct, hs')"
  shows "hs' = hs1 \<or> (ct, hs') = raise ILLINST (scast (inst hs1)) hs1 \<or> hs' = csr_mirror im a b hs1
    \<or> (\<exists>v ci. hs' = csr_mirror im a b (csr_put r v (hs1\<lparr>chk_int := ci\<rparr>))
         \<and> (\<forall>i. r = Cpmpaddr i \<longrightarrow> \<not> pmp_lockedaddr hs i))"
proof -
  define locked where "locked = (case r of Cpmpaddr i \<Rightarrow> pmp_lockedaddr hs i | _ \<Rightarrow> False)"
  have l: "\<not> locked \<Longrightarrow> \<forall>i. r = Cpmpaddr i \<longrightarrow> \<not> pmp_lockedaddr hs i" by (auto simp: locked_def)
  have e: "csr_access im a b c r rdn rs1n f wv hs =
    (let writes = (f = 0b01 \<or> (wv \<noteq> 0 \<and> rs1n \<noteq> 0))
     in if locked then (Done False, hs1)
        else if writes \<and> im AND 0xC00 = 0xC00 \<and> \<not> (a \<or> b \<or> c)
          then raise ILLINST (scast (inst hs1)) hs1
        else if writes \<and> im = 0x301 then (Done False, hs1)
        else if writes then
          (let hs2 = csr_put r (csr_write_val f c (csr_get r hs1) wv)
                       (hs1\<lparr>chk_int := (chk_int hs1 \<or> int_csr im)\<rparr>)
           in (Done False, csr_mirror im a b hs2))
        else (Done False, csr_mirror im a b hs1))"
    unfolding csr_access_def Let_def locked_def hs1_def by (rule refl)
  note o = assms(2)[unfolded e Let_def]
  show ?thesis
  proof (cases "locked")
    case True
    then show ?thesis using o by (simp only: if_True prod.inject simp_thms)
  next
    case nl: False
    note o1 = o[unfolded if_not_P[OF nl]]
    show ?thesis
    proof (cases "(f = 0b01 \<or> (wv \<noteq> 0 \<and> rs1n \<noteq> 0)) \<and> im AND 0xC00 = 0xC00 \<and> \<not> (a \<or> b \<or> c)")
      case True
      show ?thesis using o1[unfolded if_P[OF True]] by simp
    next
      case False
      note o2 = o1[unfolded if_not_P[OF False]]
      show ?thesis
      proof (cases "f = 0b01 \<or> (wv \<noteq> 0 \<and> rs1n \<noteq> 0)")
        case w: True
        show ?thesis
        proof (cases "im = 0x301")
          case True
          then show ?thesis using o2 w by (simp only: if_True prod.inject simp_thms)
        next
          case False
          then have "hs' = csr_mirror im a b (csr_put r (csr_write_val f c (csr_get r hs1) wv)
                       (hs1\<lparr>chk_int := (chk_int hs1 \<or> int_csr im)\<rparr>))"
            using o2 w by (simp only: if_True if_False simp_thms prod.inject)
          then show ?thesis using l[OF nl] by blast
        qed
      next
        case w: False
        show ?thesis using o2 unfolding if_not_P[OF w] by (simp only: w simp_thms if_False prod.inject)
      qed
    qed
  qed
qed

lemma csr_access_machine:
  assumes "supervisor_ref r \<or> r \<in> {Cmstatus, Cmie, Cmip}"
    and "csr_access im a b c r rdn rs1n f wv hs = (ct, hs')"
  shows "machine_csrs hs' = machine_csrs hs"
proof -
  have "machine_csrs (if rdn \<noteq> 0 then set_reg rdn (csr_get r hs) hs else hs) = machine_csrs hs" by simp
  then show ?thesis
    using csr_access_outcome[OF assms(2)] csr_put_supervisor[OF assms(1)] raise_machine
    by (elim disjE exE conjE) (metis machine_csrs_upd)+
qed

text \<open>
  C10. No CSR instruction executed below machine mode changes the delegation registers, the trap
  vector or scratch register of machine mode, \<open>misa\<close>, or any part of the PMP configuration,
  whether the instruction completes or traps.
\<close>

lemma csr_isolation:
  assumes "privmode hs < 3" and "exec_csr t d hs = Some (c, hs')"
  shows "machine_csrs hs' = machine_csrs hs"
proof -
  let ?im = "csr_number d"
  let ?im' = "if ?im = 0x100 then 0x300 else if ?im = 0x104 then 0x304 else if ?im = 0x144 then 0x344 else ?im"
  show ?thesis
  proof (cases "ucast (drop_bit 8 (?im AND 0x300)) > privmode hs")
    case True
    then show ?thesis using assms(2) machine_csrs_raise[of ILLINST "scast (inst hs)" hs]
      by (simp add: exec_csr_def Let_def)
  next
    case False
    then have p: "ucast (drop_bit 8 (?im AND 0x300)) < (3 :: u8)" using assms(1) by simp
    have "\<not> (0x3A0 \<le> ?im \<and> ?im < 0x3B0)"
    proof
      assume "0x3A0 \<le> ?im \<and> ?im < 0x3B0"
      moreover have "(0x3B0 :: u16) \<le> 0x3C0" by (simp add: word_le_nat_alt)
      ultimately have "?im AND 0x300 = 0x300" using machine_block order_less_le_trans by blast
      then show False using p by simp
    qed
    note no_pmp = this
    have r: "supervisor_ref r \<or> r \<in> {Cmstatus, Cmie, Cmip}" if "csr_from_addr ?im' = Some r" for r
      using that csr_from_addr_supervisor[OF _ p, of r]
      by (auto simp: csr_from_addr_def csr_table_def split: if_splits)
    have e: "exec_csr t d hs =
      (if ?im = 0xC01 then Some (Done False, set_reg (rd d) t hs)
       else if chk_ro0_csr ?im then Some (Done False, set_reg (rd d) 0 hs)
       else if ?im = 0x306 \<or> ?im = 0x106 \<or> ?im = 0x320 then Some (Done False, set_reg (rd d) 5 hs)
       else if ?im' = 0x180 \<and> bit (mstatus hs) 20 then Some (raise ILLINST (scast (inst hs)) hs)
       else case csr_from_addr ?im' of
         None \<Rightarrow> Some (raise ILLINST (scast (inst hs)) hs)
       | Some r \<Rightarrow> Some (csr_access ?im' (?im = 0x100) (?im = 0x104) (?im = 0x144) r (rd d) (rs1 d)
           (funct3 d AND 0b11) (if bit (funct3 d) 2 then ucast (rs1 d) else regs hs (rs1 d)) hs))"
      unfolding exec_csr_def Let_def if_not_P[OF False] if_not_P[OF no_pmp] by (rule refl)
    show ?thesis
    proof (cases "csr_from_addr ?im'")
      case None
      then show ?thesis using assms(2) unfolding e by (auto dest: raise_machine split: if_splits)
    next
      case (Some q)
      then show ?thesis
        using assms(2) csr_access_machine[OF r[OF Some]] raise_machine machine_csrs_upd(1) unfolding e Some
        by (simp only: option.case option.inject split: if_splits) (metis prod.inject)+
    qed
  qed
qed

lemma csr_isolation_witness:
  "machine_csrs (snd (raise ILLINST 0 (hart_init 0x1000 1\<lparr>privmode := 1\<rparr>))) = machine_csrs (hart_init 0x1000 1\<lparr>privmode := 1\<rparr>)"
proof -
  let ?d = "\<lparr>op_fun = SYSTEM, rd = 5, rs1 = 1, rs2 = 0, funct3 = 1, funct7 = 0, imm = 0x305,
     cebreak = False, dinst = 0\<rparr>"
  have "exec_csr 0 ?d (hart_init 0x1000 1\<lparr>privmode := 1\<rparr>) = Some (raise ILLINST 0 (hart_init 0x1000 1\<lparr>privmode := 1\<rparr>))"
    by (simp add: exec_csr_def csr_number_def Let_def hart_init_def reset_state_def zero_hart_def)
  then show ?thesis
    using csr_isolation[of "hart_init 0x1000 1\<lparr>privmode := 1\<rparr>" 0 ?d "fst (raise ILLINST 0 (hart_init 0x1000 1\<lparr>privmode := 1\<rparr>))"]
    by simp
qed

subsection \<open>Locked protection entries\<close>

lemma pmpcfg_byte_locked:
  assumes "pmpcfg_byte st wv f k x = Some y" and "bit (pmpcfg (snd x) i) 7"
  shows "pmpcfg (snd y) i = pmpcfg (snd x) i" and "pmpaddr (snd y) = pmpaddr (snd x)"
  using assms by (auto simp: pmpcfg_byte_def Let_def split: prod.splits if_splits)

lemma pmpcfg_loop_locked:
  assumes "for_each (pmpcfg_byte st wv f) ks x = Some y" and "bit (pmpcfg (snd x) i) 7"
  shows "pmpcfg (snd y) i = pmpcfg (snd x) i"
proof -
  have "pmpcfg (snd y) i = pmpcfg (snd x) i"
    by (rule for_each_inv[OF assms(1), where P = "\<lambda>z. pmpcfg (snd z) i = pmpcfg (snd x) i"])
      (use pmpcfg_byte_locked(1) assms(2) in \<open>auto simp del: split_paired_All\<close>)
  then show ?thesis .
qed

lemma pmpcfg_loop_addr:
  assumes "for_each (pmpcfg_byte st wv f) ks x = Some y"
  shows "pmpaddr (snd y) = pmpaddr (snd x)"
proof (rule for_each_inv[OF assms, where P = "\<lambda>z. pmpaddr (snd z) = pmpaddr (snd x)"])
  fix k a b
  assume "pmpaddr (snd a) = pmpaddr (snd x)" "pmpcfg_byte st wv f k a = Some b"
  then show "pmpaddr (snd b) = pmpaddr (snd x)"
    by (cases a) (auto simp: pmpcfg_byte_def Let_def split: if_splits)
qed simp

text \<open>What a state keeps of the locked entries of another.\<close>

definition pmp_locks_kept :: "HartState \<Rightarrow> HartState \<Rightarrow> bool" where
  "pmp_locks_kept hs hs' \<longleftrightarrow> (\<forall>i. (bit (pmpcfg hs i) 7 \<longrightarrow> pmpcfg hs' i = pmpcfg hs i)
     \<and> (pmp_lockedaddr hs i \<longrightarrow> pmpaddr hs' i = pmpaddr hs i))"

lemma pmp_locks_same:
  "pmpcfg hs' = pmpcfg hs \<Longrightarrow> pmpaddr hs' = pmpaddr hs \<Longrightarrow> pmp_locks_kept hs hs'"
  by (simp add: pmp_locks_kept_def)

lemma create_exception_pmp:
  "pmpcfg (snd (create_exception hs x v)) = pmpcfg hs" "pmpaddr (snd (create_exception hs x v)) = pmpaddr hs"
  by (simp_all add: create_exception_def Let_def trap_to_m_def trap_to_s_def)

lemma raise_pmp: "raise x v hs = (c, hs') \<Longrightarrow> pmp_locks_kept hs hs'"
  using create_exception_pmp[of hs x v] pmp_locks_same[of hs' hs]
  by (auto simp: raise_def Let_def case_prod_unfold)

lemma pmpcfg_rw_locked:
  assumes "pmpcfg_rw a rdn wv f hs = Some (e, hs')"
  shows "pmp_locks_kept hs hs'"
proof (cases "bit a 0")
  case True
  then show ?thesis
    using assms create_exception_pmp[of hs ILLINST "scast (inst hs)"]
    by (auto simp: pmpcfg_rw_def pmp_locks_kept_def)
next
  case False
  then obtain rv s where l: "for_each (pmpcfg_byte (4 * unat (a - 0x3A0)) wv f) [0..<8] (0, hs) = Some (rv, s)"
    and hs': "hs' = sync_exp_pmp (set_reg rdn rv s)"
    using assms by (auto simp: pmpcfg_rw_def)
  show ?thesis
    using pmpcfg_loop_locked[OF l] pmpcfg_loop_addr[OF l]
    by (simp add: pmp_locks_kept_def hs' set_reg_def)
qed

lemma csr_access_locked:
  assumes "csr_access im a b c r rdn rs1n f wv hs = (ct, hs')"
  shows "pmp_locks_kept hs hs'"
proof -
  define hs1 where "hs1 = (if rdn \<noteq> 0 then set_reg rdn (csr_get r hs) hs else hs)"
  have h: "pmpcfg hs1 = pmpcfg hs" "pmpaddr hs1 = pmpaddr hs" by (simp_all add: hs1_def set_reg_def)
  have k: "pmp_locks_kept hs1 s \<Longrightarrow> pmp_locks_kept hs s" for s
    using h by (simp add: pmp_locks_kept_def hs1_def set_reg_def split: if_splits)
  have put: "pmp_locks_kept hs (csr_mirror im a b (csr_put r v (hs1\<lparr>chk_int := ci\<rparr>)))"
    if "\<forall>i. r = Cpmpaddr i \<longrightarrow> \<not> pmp_lockedaddr hs i" for v ci
    using that h by (cases r) (auto simp: pmp_locks_kept_def csr_mirror_def Let_def)
  have same: "pmp_locks_kept hs hs1" "pmp_locks_kept hs (csr_mirror im a b hs1)"
    using h by (simp_all add: pmp_locks_same csr_mirror_def Let_def)
  show ?thesis
    using csr_access_outcome[OF assms, folded hs1_def]
  proof (elim disjE exE conjE)
    assume "(ct, hs') = raise ILLINST (scast (inst hs1)) hs1"
    then show ?thesis using raise_pmp k by metis
  qed (use same put in simp_all)
qed

lemma exec_csr_locks_kept:
  assumes "exec_csr t d hs = Some (c, hs')"
  shows "pmp_locks_kept hs hs'"
proof -
  have pc: "pmp_locks_kept (hs\<lparr>pc := p, minstret := n\<rparr>) s \<Longrightarrow> pmp_locks_kept hs s" for p n s
    by (simp add: pmp_locks_kept_def)
  have rg: "pmp_locks_kept hs (set_reg r v hs)" for r v by (simp add: pmp_locks_same set_reg_def)
  show ?thesis
    using assms unfolding exec_csr_def Let_def
    by (auto simp: rg split: if_splits option.splits
        dest: raise_pmp csr_access_locked intro: pc[OF pmpcfg_rw_locked])
qed

text \<open>
  The lock on the address registers is a flag beside them: it has to be up for every locked
  entry, and for the register below a locked top-of-range entry, which is its lower bound.
\<close>

definition locks_recorded :: "HartState \<Rightarrow> bool" where
  "locks_recorded hs \<longleftrightarrow> (\<forall>i < PMP_COUNT. bit (pmpcfg hs i) 7 \<longrightarrow> pmp_lockedaddr hs i \<and>
     (i \<noteq> 0 \<and> pmpcfg hs i AND 0b11000 = 0b01000 \<longrightarrow> pmp_lockedaddr hs (i - 1)))"

lemma locks_recorded_same:
  "pmpcfg hs' = pmpcfg hs \<Longrightarrow> pmp_lockedaddr hs' = pmp_lockedaddr hs \<Longrightarrow>
     locks_recorded hs' = locks_recorded hs"
  by (simp add: locks_recorded_def)

lemma locks_recorded_csrs: "machine_csrs hs' = machine_csrs hs \<Longrightarrow> locks_recorded hs' = locks_recorded hs"
  by (rule locks_recorded_same) (auto simp: machine_csrs_def)

lemma locks_recorded_init: "locks_recorded (hart_init n h)"
  by (simp add: locks_recorded_def hart_init_def reset_state_def zero_hart_def Let_def)

lemma pmpcfg_byte_recorded:
  assumes "locks_recorded (snd x)" and "pmpcfg_byte st wv f k x = Some y"
  shows "locks_recorded (snd y)"
proof -
  obtain rv hs where x: "x = (rv, hs)" by (cases x)
  define j where "j = st + k"
  define new where "new = pmpcfg_next f (pmpcfg hs j) (ucast (drop_bit (8 * k) wv AND 0xFF))"
  define la where "la = (if bit new 7
      then (if new AND 0b11000 = 0b01000 \<and> j \<noteq> 0 then (pmp_lockedaddr hs)(j := True, j - 1 := True)
            else (pmp_lockedaddr hs)(j := True))
      else pmp_lockedaddr hs)"
  have y: "snd y = hs \<or> snd y = hs\<lparr>pmpcfg := (pmpcfg hs)(j := new), pmp_lockedaddr := la\<rparr>"
    using assms(2) unfolding x pmpcfg_byte_def Let_def prod.case j_def[symmetric] new_def[symmetric] la_def[symmetric]
    by (cases "bit (pmpcfg hs j) 7") auto
  have mono: "pmp_lockedaddr hs i \<Longrightarrow> la i" for i by (simp add: la_def)
  have self: "bit new 7 \<Longrightarrow> la j \<and> (j \<noteq> 0 \<and> new AND 0b11000 = 0b01000 \<longrightarrow> la (j - 1))"
    by (simp add: la_def)
  have "locks_recorded (hs\<lparr>pmpcfg := (pmpcfg hs)(j := new), pmp_lockedaddr := la\<rparr>)"
    using assms(1) mono self unfolding x by (simp add: locks_recorded_def)
  then show ?thesis using y assms(1) x by auto
qed

lemma sync_lockedaddr [simp]: "pmp_lockedaddr (sync_exp_pmp hs) = pmp_lockedaddr hs"
proof -
  have "pmp_lockedaddr (fold sync_exp_entry is s) = pmp_lockedaddr s" for "is" s
    by (induction "is" arbitrary: s) (simp_all add: sync_exp_entry_def Let_def)
  then show ?thesis by (simp add: sync_exp_pmp_def)
qed

lemma pmpcfg_rw_recorded:
  assumes "locks_recorded hs" and "pmpcfg_rw a rdn wv f hs = Some (e, hs')"
  shows "locks_recorded hs'"
proof (cases "bit a 0")
  case True
  then have "hs' = snd (create_exception hs ILLINST (scast (inst hs)))"
    using assms(2) by (simp add: pmpcfg_rw_def)
  then show ?thesis
    using assms(1) locks_recorded_csrs[OF machine_csrs_exception, of hs] by simp
next
  case False
  then obtain rv s where l: "for_each (pmpcfg_byte (4 * unat (a - 0x3A0)) wv f) [0..<8] (0, hs) = Some (rv, s)"
    and hs': "hs' = sync_exp_pmp (set_reg rdn rv s)"
    using assms(2) by (auto simp: pmpcfg_rw_def)
  have "locks_recorded (snd (rv, s))"
  proof (rule for_each_inv[OF l, where P = "\<lambda>z. locks_recorded (snd z)"])
    show "locks_recorded (snd (0, hs))" using assms(1) by simp
  qed (rule pmpcfg_byte_recorded)
  moreover have "locks_recorded hs' = locks_recorded s"
    by (rule locks_recorded_same) (simp_all add: hs' set_reg_def)
  ultimately show ?thesis by simp
qed

lemma csr_put_recorded [simp]: "locks_recorded (csr_put r v hs) = locks_recorded hs"
  by (rule locks_recorded_same) (cases r; simp)+

lemma csr_access_recorded:
  assumes "locks_recorded hs" and "csr_access im a b c r rdn rs1n f wv hs = (ct, hs')"
  shows "locks_recorded hs'"
proof -
  define hs1 where "hs1 = (if rdn \<noteq> 0 then set_reg rdn (csr_get r hs) hs else hs)"
  have h1: "locks_recorded hs1" using assms(1) by (simp add: hs1_def locks_recorded_def set_reg_def)
  have m: "locks_recorded (csr_mirror im a b s) = locks_recorded s" "locks_recorded (s\<lparr>chk_int := ci\<rparr>) = locks_recorded s"
    for s ci by (rule locks_recorded_csrs, simp)+
  show ?thesis
    using csr_access_outcome[OF assms(2), folded hs1_def] h1 m locks_recorded_csrs raise_machine
    by (elim disjE exE conjE) (metis csr_put_recorded)+
qed

lemma exec_csr_recorded:
  assumes "locks_recorded hs" and "exec_csr t d hs = Some (c, hs')"
  shows "locks_recorded hs'"
proof -
  have st: "locks_recorded (set_reg r v hs)" "locks_recorded (hs\<lparr>pc := p, minstret := n\<rparr>)" for r v p n
    using assms(1) by (simp_all add: locks_recorded_def set_reg_def)
  have rs: "raise x v hs = (c, s) \<Longrightarrow> locks_recorded s" for x v s
    using raise_machine locks_recorded_csrs assms(1) by blast
  show ?thesis
    using assms(2) unfolding exec_csr_def Let_def
    by (auto simp: st split: if_splits option.splits
        dest: rs csr_access_recorded[OF assms(1)] intro: pmpcfg_rw_recorded[OF st(2)])
qed

text \<open>
  C9. A locked PMP entry is immutable: no CSR instruction in any mode changes its configuration
  byte, its address register or, if it is a top-of-range entry, the address register below it,
  its lower bound.  This rests on the lock flags of the address registers, which reset
  establishes and every CSR instruction, also the one that locks an entry, keeps up.
\<close>

lemma locked_pmp_immutable:
  assumes "locks_recorded hs" and "exec_csr t d hs = Some (c, hs')"
  shows "locks_recorded (hart_init sz hid) \<and> locks_recorded hs'
    \<and> (\<forall>i < PMP_COUNT. bit (pmpcfg hs i) 7 \<longrightarrow> pmpcfg hs' i = pmpcfg hs i \<and> pmpaddr hs' i = pmpaddr hs i
        \<and> (i \<noteq> 0 \<and> pmpcfg hs i AND 0b11000 = 0b01000 \<longrightarrow> pmpaddr hs' (i - 1) = pmpaddr hs (i - 1)))"
proof -
  have "pmp_locks_kept hs hs'" by (rule exec_csr_locks_kept[OF assms(2)])
  then show ?thesis
    using assms(1) exec_csr_recorded[OF assms] locks_recorded_init
    by (auto simp: pmp_locks_kept_def locks_recorded_def[of hs])
qed

text \<open>
  Machine mode locks entry 1, a top-of-range entry, by writing \<open>pmpcfg0\<close>; after that it can
  write neither \<open>pmpaddr1\<close> nor \<open>pmpaddr0\<close>.
\<close>

definition demo_csrrw :: "u64 \<Rightarrow> decoded" where
  "demo_csrrw n = \<lparr>op_fun = SYSTEM, rd = 0, rs1 = 6, rs2 = 0, funct3 = 1, funct7 = 0, imm = n,
     cebreak = False, dinst = 0\<rparr>"

definition demo_tor_locked :: HartState where
  "demo_tor_locked = zero_hart\<lparr>privmode := 3, regs := \<lambda>_. 0x1234, pmpcfg := (\<lambda>_. 0)(1 := 0x8F),
     pmpaddr := (\<lambda>_. 0)(0 := 0x20000000, 1 := 0x20000400), pmp_lockedaddr := \<lambda>i. i \<le> 1\<rparr>"

lemma locked_pmp_immutable_witness:
  "\<exists>s0 s1. exec_csr 0 (demo_csrrw 0x3B0) demo_tor_locked = Some (Done False, s0) \<and> pmpaddr s0 0 = 0x20000000
    \<and> exec_csr 0 (demo_csrrw 0x3B1) demo_tor_locked = Some (Done False, s1) \<and> pmpaddr s1 1 = 0x20000400"
proof -
  have l: "locks_recorded demo_tor_locked" by (simp add: locks_recorded_def demo_tor_locked_def)
  have e: "\<exists>s. exec_csr 0 (demo_csrrw 0x3B0) demo_tor_locked = Some (Done False, s)"
    "\<exists>s. exec_csr 0 (demo_csrrw 0x3B1) demo_tor_locked = Some (Done False, s)"
    by (simp_all add: exec_csr_def demo_csrrw_def csr_number_def chk_ro0_csr_def csr_from_addr_def csr_table_def
        csr_access_def demo_tor_locked_def Let_def word_le_nat_alt word_less_nat_alt)
  have c: "bit (pmpcfg demo_tor_locked 1) 7" "pmpcfg demo_tor_locked 1 AND 0b11000 = 0b01000"
    "pmpaddr demo_tor_locked 0 = 0x20000000" "pmpaddr demo_tor_locked 1 = 0x20000400"
    by (simp_all add: demo_tor_locked_def)
  note fixed = locked_pmp_immutable[OF l, THEN conjunct2, THEN conjunct2, rule_format, of _ _ _ _ 1]
  show ?thesis using e fixed c by (metis one_less_numeral_iff semiring_norm(76) zero_neq_one diff_self_eq_0)
qed

subsection \<open>Writing the configuration refreshes the table\<close>

text \<open>The registers of the PMP unit: the raw ones and the table expanded from them.\<close>

definition pmp_regs where
  "pmp_regs hs = (pmpcfg hs, pmpaddr hs, pmp_expanded hs, pmp_all_enabled hs, min_lbound hs, max_ubound hs)"

lemma pmpcfg_write_syncs:
  assumes "exec_csr t d s = Some (Return NOEXC, s0)" and "0x3A0 \<le> csr_number d" "csr_number d < 0x3B0"
  shows "\<exists>s'. s0 = sync_exp_pmp s'"
proof -
  have nr: "raise ILLINST v hs \<noteq> (Return NOEXC, s0)" for v hs
    using create_exception_sync_taken[of ILLINST hs v] by (simp add: raise_def is_interrupt_def case_prod_unfold)
  have "\<not> (0xC01 = csr_number d)" "\<not> chk_ro0_csr (csr_number d)"
    "\<not> (csr_number d = 0x306 \<or> csr_number d = 0x106 \<or> csr_number d = 0x320)"
    using assms(2,3) by (auto simp: chk_ro0_csr_def word_le_nat_alt word_less_nat_alt)
  then obtain a rdn wv f hs1 where "pmpcfg_rw a rdn wv f hs1 = Some (NOEXC, s0)"
    using assms nr unfolding exec_csr_def Let_def by (auto split: if_splits)
  then show ?thesis
    using create_exception_sync_taken[of ILLINST hs1 "scast (inst hs1)"]
    by (auto simp: pmpcfg_rw_def is_interrupt_def split: if_splits)
qed

text \<open>A write of an address register does not: until the next write of a configuration register
  the checks work on the old bounds.\<close>

lemma pmpaddr_write_stale:
  assumes "csr_access im a b c (Cpmpaddr i) rdn rs1n f wv hs = (ct, hs')"
  shows "pmp_expanded hs' = pmp_expanded hs"
proof -
  have "pmp_expanded (snd (raise x v s)) = pmp_expanded s" for x v s
    using machine_csrs_raise[of x v s] by (simp add: machine_csrs_def)
  then have r: "(ct, hs') = raise x v s \<Longrightarrow> pmp_expanded hs' = pmp_expanded s" for x v s
    by (metis snd_conv)
  show ?thesis
    using csr_access_outcome[OF assms] by (auto simp: csr_mirror_def set_reg_def Let_def dest: r split: if_splits)
qed

subsection \<open>Supervisor mode is not confined\<close>

lemma mpp_after_set:
  assumes "bit ms 11" "bit ms 12"
  shows "ucast (get_field 11 2 (mret_mstatus ms)) = (3 :: u8)"
  using assms by (simp add: mpp_field mret_mstatus_bits word_le_nat_alt)

text \<open>
  C38. A supervisor gains machine mode with two instructions: CSRRS on \<open>sstatus\<close> writes through to
  the MPP field of \<open>mstatus\<close>, and MRET is executed without regard to the current mode.
\<close>

lemma supervisor_escalation:
  assumes "privmode hs = 1" and "csr_number d = 0x100" and "funct3 d = 0b010" and "rs1 d \<noteq> 0" and "rd d = 0"
    and "regs hs (rs1 d) = 0x1800"
  shows "\<exists>hs1. exec_csr t d hs = Some (Done False, hs1) \<and>
    (\<exists>hs2. exec_system t' (decode32 0x30200073) (hs1\<lparr>inst := 0x30200073\<rparr>) = Some (Done True, hs2) \<and> privmode hs2 = 3)"
proof -
  define hs1 where "hs1 = csr_mirror 0x300 True False
    (hs\<lparr>chk_int := True, mstatus := mstatus hs OR 0x1800\<rparr>)"
  have e: "exec_csr t d hs = Some (Done False, hs1)"
    using assms by (simp add: exec_csr_def Let_def chk_ro0_csr_def csr_from_addr_def csr_table_def
        csr_access_def csr_write_val_def int_csr_def hs1_def word_less_nat_alt word_le_nat_alt)
  have "bit (mstatus hs1) n = bit (mstatus hs OR 0x1800) n" if "n = 11 \<or> n = 12" for n
    using that by (auto simp: hs1_def csr_mirror_def Let_def mstatus_fix_def bit_simps bits)
  then have "bit (mstatus hs1) 11" "bit (mstatus hs1) 12" by (simp_all add: bit_simps)
  then have p: "privmode (exec_mret (hs1\<lparr>inst := 0x30200073\<rparr>)) = 3"
    by (simp add: exec_mret_def Let_def mpp_after_set)
  have "\<not> cebreak (decode32 0x30200073)" by (simp add: decode32_def Let_def split: inst_type.split)
  then have "exec_system t' (decode32 0x30200073) (hs1\<lparr>inst := 0x30200073\<rparr>) =
      Some (Done True, exec_mret (hs1\<lparr>inst := 0x30200073\<rparr>))"
    by (simp add: exec_system_def)
  then show ?thesis using e p by blast
qed

definition demo_csrrs :: decoded where
  "demo_csrrs = \<lparr>op_fun = SYSTEM, rd = 0, rs1 = 6, rs2 = 0, funct3 = 2, funct7 = 0, imm = 0x100,
     cebreak = False, dinst = 0x10032073\<rparr>"

lemma supervisor_escalation_witness:
  "\<exists>hs1. exec_csr 0 demo_csrrs (hart_init 0x1000 1\<lparr>privmode := 1, regs := \<lambda>_. 0x1800\<rparr>) = Some (Done False, hs1) \<and>
    (\<exists>hs2. exec_system 0 (decode32 0x30200073) (hs1\<lparr>inst := 0x30200073\<rparr>) = Some (Done True, hs2) \<and> privmode hs2 = 3)"
  by (rule supervisor_escalation) (simp_all add: demo_csrrs_def csr_number_def)

end
