(* ===== verification/Machine.thy ===== *)
theory Machine
  imports Hart
begin

text \<open>
  The whole machine: the harts, the physical memory and the devices, i.e. the global
  variables of \<open>mem.cpp\<close>, \<open>aclint.cpp\<close>, \<open>plic.cpp\<close>, \<open>uart.cpp\<close>, \<open>io.cpp\<close>,
  \<open>virtio_mmio_blk.cpp\<close>, \<open>cpu.cpp\<close> and \<open>main.cpp\<close>.  A C++ array is a list (its length is
  the number of elements allocated), a pointer into a buffer the offset from its start.
  \<open>main_mem\<close>, of \<open>mach_mem_size\<close> bytes, is a function of the offset.
\<close>

subsection \<open>Device state\<close>

record Aclint =
  time_start :: u64
  mtimer_regs :: "u64 list"
  mswi_regs :: "u32 list"

record Plic =
  int_prio_regs :: "u32 list"
  int_pend_regs :: "u32 list"
  int_en_regs :: "u32 list"
  int_prio_thres :: "u32 list"
  int_handling :: "bool list"
  highest_source :: u32

record Uart =
  input_buffer :: "u8 list"
  read_ptr :: nat
  write_ptr :: nat
  dlab :: bool
  pending_in :: u16
  ls_reg :: u8
  ms_reg :: u8
  fifo_trigger_lvl :: u8
  uart_regs :: "u8 list"
  tx_required :: bool
  uart_end :: bool
  output_buf :: "u8 list"
  tx_offset :: nat
  uart_timeout :: u16

record Virtio =
  blk_devcfg :: "u32 list"
  blk_queues :: "u32 list"
  vblkcfg :: "u32 list"
  configgen :: u32
  blk_end :: bool

text \<open>The terminal: \<open>pty_out\<close> is everything printed so far, oldest byte first.\<close>

record Pty =
  dbg_fallback :: bool
  pty_out :: "u8 list"

record Machine =
  mach_mem_size :: u64
  mach_hart_count :: u16
  hartlist :: "HartState list"
  main_mem :: "u64 \<Rightarrow> u8"
  reservations :: "u64 list"
  dtb_buf :: "nat \<Rightarrow> u8"
  aclint :: Aclint
  plic :: Plic
  uart :: Uart
  virtio :: Virtio
  pty :: Pty
  system_now :: u64
  sig_mode :: bool
  begin_signature :: u64
  end_signature :: u64
  hart_start :: bool
  interrupted :: bool

abbreviation (input) MAX_DTB_SIZE :: nat where "MAX_DTB_SIZE \<equiv> 32768"
abbreviation (input) PLIC_SOURCE_COUNT :: nat where "PLIC_SOURCE_COUNT \<equiv> 16"
abbreviation (input) IBUF_SIZE :: nat where "IBUF_SIZE \<equiv> 16"

subsection \<open>Harts of the machine\<close>

definition hart :: "nat \<Rightarrow> Machine \<Rightarrow> HartState" where
  "hart h m = hartlist m ! h"

definition upd_hart :: "nat \<Rightarrow> (HartState \<Rightarrow> HartState) \<Rightarrow> Machine \<Rightarrow> Machine" where
  "upd_hart h f m = m\<lparr>hartlist := (hartlist m)[h := f (hartlist m ! h)]\<rparr>"

lemma upd_hart_simps [simp]:
  "length (hartlist (upd_hart h f m)) = length (hartlist m)"
  "mach_mem_size (upd_hart h f m) = mach_mem_size m"
  "mach_hart_count (upd_hart h f m) = mach_hart_count m"
  "main_mem (upd_hart h f m) = main_mem m"
  "reservations (upd_hart h f m) = reservations m"
  "dtb_buf (upd_hart h f m) = dtb_buf m"
  "aclint (upd_hart h f m) = aclint m"
  "plic (upd_hart h f m) = plic m"
  "uart (upd_hart h f m) = uart m"
  "virtio (upd_hart h f m) = virtio m"
  "pty (upd_hart h f m) = pty m"
  "system_now (upd_hart h f m) = system_now m"
  "sig_mode (upd_hart h f m) = sig_mode m"
  "hart_start (upd_hart h f m) = hart_start m"
  "interrupted (upd_hart h f m) = interrupted m"
  by (simp_all add: upd_hart_def)

lemma hart_upd_hart:
  "hart k (upd_hart h f m) =
     (if k = h \<and> h < length (hartlist m) then f (hart h m) else hart k m)"
  by (cases "h < length (hartlist m)") (auto simp: hart_def upd_hart_def nth_list_update list_update_beyond)

lemma hart_upd_hart_same [simp]: "h < length (hartlist m) \<Longrightarrow> hart h (upd_hart h f m) = f (hart h m)"
  by (simp add: hart_upd_hart)

lemma hart_upd_hart_other [simp]: "k \<noteq> h \<Longrightarrow> hart k (upd_hart h f m) = hart k m"
  by (simp add: hart_upd_hart)

lemma upd_hart_upd_hart [simp]: "upd_hart h f (upd_hart h g m) = upd_hart h (\<lambda>s. f (g s)) m"
  by (cases "h < length (hartlist m)") (simp_all add: upd_hart_def list_update_beyond)

text \<open>\<open>hartlist[k]\<close> handed by reference to \<open>f\<close>; out of range it is undefined.\<close>

definition at_hartlist :: "nat \<Rightarrow> (HartState \<Rightarrow> HartState) \<Rightarrow> Machine \<Rightarrow> Machine option" where
  "at_hartlist k f m = do { guard (k < length (hartlist m)); Some (upd_hart k f m) }"

lemma at_hartlist_Some [simp]:
  "at_hartlist k f m = Some m' \<longleftrightarrow> k < length (hartlist m) \<and> m' = upd_hart k f m"
  by (auto simp: at_hartlist_def)

subsection \<open>Objects and their bytes\<close>

text \<open>
  What a handler's pointer gives access to: the number of bytes from the pointee to the end
  of the object it lies in, and those bytes.
\<close>

type_synonym view = "nat \<times> (nat \<Rightarrow> u8)"

definition le_bytes :: "u64 \<Rightarrow> nat \<Rightarrow> u8" where
  "le_bytes w i = ucast (drop_bit (8 * i) w)"

fun of_le_bytes :: "u8 list \<Rightarrow> u64" where
  "of_le_bytes [] = 0"
| "of_le_bytes (b # bs) = ucast b OR push_bit 8 (of_le_bytes bs)"

text \<open>\<open>*(T*)ptr\<close> with \<open>sizeof(T) = n\<close>.\<close>

definition load_view :: "view \<Rightarrow> nat \<Rightarrow> u64 option" where
  "load_view v n = do { guard (n \<le> fst v); Some (of_le_bytes (map (snd v) [0..<n])) }"

definition view64 :: "u64 \<Rightarrow> view" where
  "view64 w = (8, le_bytes w)"

definition view_words :: "u32 list \<Rightarrow> nat \<Rightarrow> view" where
  "view_words ws k = (4 * (length ws - k), \<lambda>j. le_bytes (ucast (ws ! (k + j div 4))) (j mod 4))"

definition view32 :: "u32 \<Rightarrow> view" where
  "view32 w = view_words [w] 0"

text \<open>\<open>ZERO\<close> of \<open>constants.h\<close>.\<close>

definition ZERO :: view where
  "ZERO = view64 0"

text \<open>
  The data of an \<open>n\<close>-byte store, read through a pointer to a wider or narrower type: a
  wider read leaves the object.
\<close>

definition data_as :: "nat \<Rightarrow> nat \<Rightarrow> u64 \<Rightarrow> u64 option" where
  "data_as k n data = do { guard (k \<le> n); Some (data AND mask (8 * k)) }"

lemma data_as_Some [simp]: "data_as k n data = Some v \<longleftrightarrow> k \<le> n \<and> v = data AND mask (8 * k)"
  by (auto simp: data_as_def)

subsection \<open>Bytes and words\<close>

lemma bit_le_bytes [bits]: "bit (le_bytes w i) k \<longleftrightarrow> k < 8 \<and> bit w (8 * i + k)"
  by (cases "8 * i + k < 64") (auto simp: le_bytes_def bit_simps bit_64_above add.commute)

lemma bit_of_le_bytes [bits]:
  "bit (of_le_bytes bs) k \<longleftrightarrow> k < 64 \<and> k < 8 * length bs \<and> bit (bs ! (k div 8)) (k mod 8)"
proof (induction bs arbitrary: k)
  case Nil
  then show ?case by simp
next
  case (Cons b bs)
  show ?case
  proof (cases "k < 8")
    case True
    then show ?thesis by (auto simp: bit_simps)
  next
    case False
    then have "k div 8 = Suc ((k - 8) div 8)" "k mod 8 = (k - 8) mod 8"
      by (simp_all add: le_div_geq le_mod_geq)
    with False show ?thesis using Cons.IH[of "k - 8"] by (auto simp: bit_simps bit_8_above)
  qed
qed

lemma of_le_bytes_le_bytes: "n \<le> 8 \<Longrightarrow> of_le_bytes (map (le_bytes w) [0..<n]) = w AND mask (8 * n)"
  by (rule bit_word_eqI) (auto simp: bits bit_simps)

lemma le_bytes_of_le_bytes:
  assumes "length bs \<le> 8" "i < length bs"
  shows "le_bytes (of_le_bytes bs) i = bs ! i"
  using assms by (intro bit_word_eqI) (auto simp: bits)

lemma load_view64 [simp]: "n \<le> 8 \<Longrightarrow> load_view (view64 w) n = Some (w AND mask (8 * n))"
  by (simp add: load_view_def view64_def of_le_bytes_le_bytes)

lemma load_view_None [simp]: "load_view v n = None \<longleftrightarrow> fst v < n"
  by (auto simp: load_view_def guard_def)

lemma le_bytes_0 [simp]: "le_bytes 0 i = 0"
  by (simp add: le_bytes_def)

lemma upt_4: "[0..<4] = [0, 1, 2, 3]"
  by (simp add: upt_rec)

lemma load_view_words:
  assumes "k < length ws"
  shows "load_view (view_words ws k) 4 = Some (ucast (ws ! k))"
proof -
  have e: "map (\<lambda>j. le_bytes (ucast (ws ! (k + j div 4))) (j mod 4)) [0..<4] =
      map (le_bytes (ucast (ws ! k))) [0..<4]"
    by (simp add: upt_4)
  have "(ucast (ws ! k) :: u64) AND mask (8 * 4) = ucast (ws ! k)"
    by (rule bit_word_eqI) (auto simp: bit_simps dest: bit_imp_le_length)
  then show ?thesis
    using assms of_le_bytes_le_bytes[of 4 "ucast (ws ! k)"]
    unfolding load_view_def view_words_def fst_conv snd_conv e by (simp add: Suc_le_eq)
qed

subsection \<open>What a device may touch\<close>

text \<open>
  A device access leaves every hart as it is, up to its pending interrupts, and the
  memory, the reservations and the sizes of the machine as they are.
\<close>

definition only_mip :: "HartState \<Rightarrow> HartState \<Rightarrow> bool" where
  "only_mip s s' \<longleftrightarrow> (\<exists>x. s' = s\<lparr>mip := x\<rparr>)"

definition device_frame :: "Machine \<Rightarrow> Machine \<Rightarrow> bool" where
  "device_frame m m' \<longleftrightarrow> main_mem m' = main_mem m \<and> mach_mem_size m' = mach_mem_size m
     \<and> mach_hart_count m' = mach_hart_count m \<and> reservations m' = reservations m
     \<and> list_all2 only_mip (hartlist m) (hartlist m')
     \<and> sig_mode m' = sig_mode m \<and> hart_start m' = hart_start m \<and> interrupted m' = interrupted m"

lemma only_mip_refl [simp]: "only_mip s s"
  unfolding only_mip_def by (rule exI[of _ "mip s"]) simp

lemma only_mip_upd [simp]: "only_mip s (s\<lparr>mip := x\<rparr>)"
  unfolding only_mip_def by blast

lemma only_mip_trans: "only_mip s t \<Longrightarrow> only_mip t u \<Longrightarrow> only_mip s u"
  unfolding only_mip_def by auto

lemma device_frame_refl [simp]: "device_frame m m"
  by (simp add: device_frame_def list_all2_refl)

lemma device_frame_trans [trans]: "device_frame a b \<Longrightarrow> device_frame b c \<Longrightarrow> device_frame a c"
  unfolding device_frame_def using list_all2_trans[of only_mip only_mip only_mip, OF only_mip_trans]
  by (elim conjE) (intro conjI; (assumption | simp))

lemma device_frame_upd_hart: "only_mip (hart h m) (f (hart h m)) \<Longrightarrow> device_frame m (upd_hart h f m)"
  by (cases "h < length (hartlist m)")
    (auto simp: device_frame_def upd_hart_def hart_def list_all2_conv_all_nth nth_list_update
      list_update_beyond)

lemma device_frame_hart:
  "device_frame m m' \<Longrightarrow> h < length (hartlist m) \<Longrightarrow> only_mip (hart h m) (hart h m')"
  by (auto simp: device_frame_def hart_def list_all2_conv_all_nth)

lemma device_frame_length: "device_frame m m' \<Longrightarrow> length (hartlist m') = length (hartlist m)"
  by (auto simp: device_frame_def dest: list_all2_lengthD)

text \<open>\<open>*(T*)mem_map[i].r_handler(off, sizeof(T))\<close>\<close>

definition mmio_load :: "(u64 \<Rightarrow> nat \<Rightarrow> Machine \<Rightarrow> (view \<times> Machine) option) \<Rightarrow> u64 \<Rightarrow> nat \<Rightarrow> Machine \<Rightarrow>
    (u64 \<times> Machine) option" where
  "mmio_load r off n m = do { (v, m') \<leftarrow> r off n m; x \<leftarrow> load_view v n; Some (x, m') }"

text \<open>
  The contract of an entry of the memory map: its handlers keep the device's own invariant
  and stay within the frame.
\<close>

locale mmio_device =
  fixes good :: "Machine \<Rightarrow> bool"
    and handler_r :: "u64 \<Rightarrow> nat \<Rightarrow> Machine \<Rightarrow> (view \<times> Machine) option"
    and handler_w :: "u64 \<Rightarrow> u64 \<Rightarrow> nat \<Rightarrow> Machine \<Rightarrow> Machine option"
  assumes r_frame: "good m \<Longrightarrow> handler_r off n m = Some (v, m') \<Longrightarrow> device_frame m m'"
    and w_frame: "good m \<Longrightarrow> handler_w off data n m = Some m' \<Longrightarrow> device_frame m m'"
    and r_good: "good m \<Longrightarrow> handler_r off n m = Some (v, m') \<Longrightarrow> good m'"
    and w_good: "good m \<Longrightarrow> handler_w off data n m = Some m' \<Longrightarrow> good m'"
begin

lemma load_at_frame: "mmio_load handler_r off n m = Some (x, m') \<Longrightarrow> good m \<Longrightarrow> device_frame m m'"
  by (auto simp: mmio_load_def split: prod.splits dest: r_frame)

lemma load_at_good: "mmio_load handler_r off n m = Some (x, m') \<Longrightarrow> good m \<Longrightarrow> good m'"
  by (auto simp: mmio_load_def split: prod.splits dest: r_good)

end

end
