(* ===== verification/Aclint.thy ===== *)
theory Aclint
  imports Machine
begin

text \<open>
  The core-local interruptor, \<open>aclint.cpp\<close>: the machine timer with one compare register
  per hart and the machine software interrupts.  \<open>system_now\<close> is the host clock in
  nanoseconds (\<open>readtime\<close> without \<open>SLOW_MTIMER\<close>).
\<close>

subsection \<open>Pending bits\<close>

definition set_mip :: "nat \<Rightarrow> HartState \<Rightarrow> HartState" where
  "set_mip n hs = hs\<lparr>mip := mip hs OR bmask n 1\<rparr>"

definition clr_mip :: "nat \<Rightarrow> HartState \<Rightarrow> HartState" where
  "clr_mip n hs = hs\<lparr>mip := mip hs AND NOT (bmask n 1)\<rparr>"

lemma only_mip_set_clr [simp]: "only_mip s (set_mip n s)" "only_mip s (clr_mip n s)"
  by (simp_all add: set_mip_def clr_mip_def)

lemma bit_set_mip [bits]: "bit (mip (set_mip n hs)) k \<longleftrightarrow> bit (mip hs) k \<or> (k = n \<and> n < 64)"
  by (auto simp: set_mip_def bit_simps bits)

lemma bit_clr_mip [bits]: "bit (mip (clr_mip n hs)) k \<longleftrightarrow> bit (mip hs) k \<and> k \<noteq> n"
  by (cases "k < 64") (auto simp: clr_mip_def bit_simps bits bit_64_above)

subsection \<open>Operations\<close>

definition readtime :: "Machine \<Rightarrow> u64" where
  "readtime m = system_now m"

definition aclint_mtimer_reset :: "Machine \<Rightarrow> Machine" where
  "aclint_mtimer_reset m = m\<lparr>aclint := (aclint m)\<lparr>time_start := readtime m\<rparr>\<rparr>"

definition aclint_mtimer_init :: "Machine \<Rightarrow> Machine" where
  "aclint_mtimer_init m =
    (let m1 = aclint_mtimer_reset m
     in m1\<lparr>aclint := (aclint m1)\<lparr>
          mtimer_regs := replicate (unat (mach_hart_count m)) 0xffffffffffffffff\<rparr>\<rparr>)"

text \<open>\<open>new uint32_t[n]\<close> leaves its elements uninitialised: \<open>junk\<close> is what they hold.\<close>

definition aclint_mswi_init :: "(nat \<Rightarrow> u32) \<Rightarrow> Machine \<Rightarrow> Machine" where
  "aclint_mswi_init junk m =
     m\<lparr>aclint := (aclint m)\<lparr>mswi_regs := map junk [0..<unat (mach_hart_count m)]\<rparr>\<rparr>"

definition aclint_mtime_get :: "Machine \<Rightarrow> u64" where
  "aclint_mtime_get m = (readtime m - time_start (aclint m)) div 100"

definition aclint_mtimer_chk :: "nat \<Rightarrow> Machine \<Rightarrow> Machine option" where
  "aclint_mtimer_chk h m = do {
     cmp \<leftarrow> nth_opt (mtimer_regs (aclint m)) (unat (hartid (hart h m)));
     at_hartlist h (\<lambda>hs. if cmp \<le> aclint_mtime_get m then set_mip 7 hs else clr_mip 7 hs) m
   }"

definition aclint_mtimer_r :: "u64 \<Rightarrow> nat \<Rightarrow> Machine \<Rightarrow> (view \<times> Machine) option" where
  "aclint_mtimer_r off len m =
    (if off = 0x7ff8 then Some (view64 (aclint_mtime_get m), m)
     else do { x \<leftarrow> nth_opt (mtimer_regs (aclint m)) (unat off); Some (view64 x, m) })"

definition aclint_mtimer_w :: "u64 \<Rightarrow> u64 \<Rightarrow> nat \<Rightarrow> Machine \<Rightarrow> Machine option" where
  "aclint_mtimer_w off data len m = do {
     x \<leftarrow> data_as 8 len data;
     if off = 0x7ff8 then Some (m\<lparr>aclint := (aclint m)\<lparr>time_start := readtime m - x * 100\<rparr>\<rparr>)
     else do {
       rs \<leftarrow> upd_opt (mtimer_regs (aclint m)) (unat off) x;
       guard (unat off < length (hartlist m));
       aclint_mtimer_chk (unat off) (m\<lparr>aclint := (aclint m)\<lparr>mtimer_regs := rs\<rparr>\<rparr>)
     }
   }"

definition aclint_mswi_r :: "u64 \<Rightarrow> nat \<Rightarrow> Machine \<Rightarrow> (view \<times> Machine) option" where
  "aclint_mswi_r off len m = Some (view_words (mswi_regs (aclint m)) (unat off), m)"

definition aclint_mswi_w :: "u64 \<Rightarrow> u64 \<Rightarrow> nat \<Rightarrow> Machine \<Rightarrow> Machine option" where
  "aclint_mswi_w off data len m = do {
     x \<leftarrow> data_as 8 len data;
     rs \<leftarrow> upd_opt (mswi_regs (aclint m)) (unat off) (ucast x AND 0b1);
     Some (m\<lparr>aclint := (aclint m)\<lparr>mswi_regs := rs\<rparr>\<rparr>)
   }"

definition aclint_mswi_chk :: "nat \<Rightarrow> Machine \<Rightarrow> Machine option" where
  "aclint_mswi_chk h m = do {
     r \<leftarrow> nth_opt (mswi_regs (aclint m)) (unat (hartid (hart h m)));
     at_hartlist h (\<lambda>hs. if r \<noteq> 0 then set_mip 3 hs else hs) m
   }"

subsection \<open>The device contract\<close>

text \<open>The register files have one element per hart, and the harts are numbered in order.\<close>

definition aclint_good :: "Machine \<Rightarrow> bool" where
  "aclint_good m \<longleftrightarrow> length (mtimer_regs (aclint m)) = length (hartlist m)
     \<and> length (mswi_regs (aclint m)) = length (hartlist m)
     \<and> (\<forall>h < length (hartlist m). unat (hartid (hart h m)) = h)"

lemma hart_cong: "hartlist m' = hartlist m \<Longrightarrow> hart h m' = hart h m"
  by (simp add: hart_def)

lemma device_frame_same:
  "hartlist m' = hartlist m \<Longrightarrow> main_mem m' = main_mem m \<Longrightarrow> mach_mem_size m' = mach_mem_size m \<Longrightarrow>
   mach_hart_count m' = mach_hart_count m \<Longrightarrow> reservations m' = reservations m \<Longrightarrow>
   sig_mode m' = sig_mode m \<Longrightarrow> hart_start m' = hart_start m \<Longrightarrow> interrupted m' = interrupted m \<Longrightarrow>
   device_frame m m'"
  by (simp add: device_frame_def list_all2_refl)

lemma only_mip_hartid: "only_mip s s' \<Longrightarrow> hartid s' = hartid s"
  by (auto simp: only_mip_def)

lemma aclint_good_frame:
  "aclint_good m \<Longrightarrow> device_frame m m' \<Longrightarrow>
   length (mtimer_regs (aclint m')) = length (mtimer_regs (aclint m)) \<Longrightarrow>
   length (mswi_regs (aclint m')) = length (mswi_regs (aclint m)) \<Longrightarrow> aclint_good m'"
  by (auto simp: aclint_good_def device_frame_length only_mip_hartid dest: device_frame_hart)

lemma aclint_mtimer_chk_frame: "aclint_mtimer_chk h m = Some m' \<Longrightarrow> device_frame m m'"
  by (auto simp: aclint_mtimer_chk_def intro!: device_frame_upd_hart)

lemma aclint_mtimer_chk_aclint: "aclint_mtimer_chk h m = Some m' \<Longrightarrow> aclint m' = aclint m"
  by (auto simp: aclint_mtimer_chk_def)

lemma aclint_mswi_chk_frame: "aclint_mswi_chk h m = Some m' \<Longrightarrow> device_frame m m'"
  by (auto simp: aclint_mswi_chk_def intro!: device_frame_upd_hart)

lemma aclint_mswi_chk_aclint: "aclint_mswi_chk h m = Some m' \<Longrightarrow> aclint m' = aclint m"
  by (auto simp: aclint_mswi_chk_def)

lemma aclint_mtimer_r_same: "aclint_mtimer_r off n m = Some (v, m') \<Longrightarrow> m' = m"
  by (auto simp: aclint_mtimer_r_def split: if_splits)

lemma aclint_mtimer_w_frame:
  assumes "aclint_mtimer_w off data n m = Some m'"
  shows "device_frame m m' \<and> length (mtimer_regs (aclint m')) = length (mtimer_regs (aclint m))
    \<and> mswi_regs (aclint m') = mswi_regs (aclint m)"
proof (cases "off = 0x7ff8")
  case True
  then show ?thesis using assms by (auto simp: aclint_mtimer_w_def intro!: device_frame_same)
next
  case False
  then obtain m1 where c: "aclint_mtimer_chk (unat off) m1 = Some m'"
    and m1: "device_frame m m1" "length (mtimer_regs (aclint m1)) = length (mtimer_regs (aclint m))"
      "mswi_regs (aclint m1) = mswi_regs (aclint m)"
    using assms by (force simp: aclint_mtimer_w_def intro: device_frame_same)
  then show ?thesis
    using aclint_mtimer_chk_frame[OF c] aclint_mtimer_chk_aclint[OF c] device_frame_trans by auto
qed

interpretation mtimer: mmio_device aclint_good aclint_mtimer_r aclint_mtimer_w
proof unfold_locales
  fix off :: u64 and n m v m'
  assume "aclint_good m" "aclint_mtimer_r off n m = Some (v, m')"
  then have "m' = m" by (blast dest: aclint_mtimer_r_same)
  then show "device_frame m m'" "aclint_good m'" using \<open>aclint_good m\<close> by simp_all
next
  fix off data :: u64 and n m m'
  assume "aclint_good m" and w: "aclint_mtimer_w off data n m = Some m'"
  show "device_frame m m'" using aclint_mtimer_w_frame[OF w] by simp
  show "aclint_good m'"
    using \<open>aclint_good m\<close> aclint_mtimer_w_frame[OF w] by (auto intro: aclint_good_frame)
qed

lemma aclint_mswi_w_frame:
  assumes "aclint_mswi_w off data n m = Some m'"
  shows "device_frame m m' \<and> length (mswi_regs (aclint m')) = length (mswi_regs (aclint m))
    \<and> mtimer_regs (aclint m') = mtimer_regs (aclint m)"
  using assms by (auto simp: aclint_mswi_w_def intro!: device_frame_same)

interpretation mswi: mmio_device aclint_good aclint_mswi_r aclint_mswi_w
proof unfold_locales
  fix off :: u64 and n m v m'
  assume "aclint_good m" "aclint_mswi_r off n m = Some (v, m')"
  then have "m' = m" by (simp add: aclint_mswi_r_def)
  then show "device_frame m m'" "aclint_good m'" using \<open>aclint_good m\<close> by simp_all
next
  fix off data :: u64 and n m m'
  assume "aclint_good m" and w: "aclint_mswi_w off data n m = Some m'"
  show "device_frame m m'" using aclint_mswi_w_frame[OF w] by simp
  show "aclint_good m'"
    using \<open>aclint_good m\<close> aclint_mswi_w_frame[OF w] by (auto intro: aclint_good_frame)
qed

subsection \<open>Behaviour\<close>

text \<open>
  The timer check makes the machine timer interrupt of the hart pending exactly when its
  compare register has been reached, and leaves the other pending bits alone.
\<close>

lemma aclint_mtimer_chk_spec:
  assumes "aclint_good m" and "h < length (hartlist m)"
  shows "\<exists>m'. aclint_mtimer_chk h m = Some m' \<and>
    (bit (mip (hart h m')) 7 \<longleftrightarrow> mtimer_regs (aclint m) ! h \<le> aclint_mtime_get m) \<and>
    (\<forall>k. k \<noteq> 7 \<longrightarrow> bit (mip (hart h m')) k = bit (mip (hart h m)) k)"
  using assms by (auto simp: aclint_mtimer_chk_def aclint_good_def bits)

text \<open>What was written to \<open>mtime\<close> is read back, as long as the host clock stands still.\<close>

lemma uint_times_100_div:
  fixes x :: u64
  assumes "x < 2 ^ 57"
  shows "x * 100 div 100 = x"
proof -
  have "unat x < 2 ^ 57" using assms by (simp add: word_less_nat_alt)
  then have "unat (x * 100) = unat x * 100" by (simp add: unat_mult_lem[THEN iffD1])
  then show ?thesis by (simp add: word_unat_eq_iff unat_div)
qed

text \<open>
  C36. Setting the clock register and reading it at the same instant returns the value written,
  for values below \<open>2^57\<close>; beyond that the conversion to nanoseconds overflows.
\<close>

lemma aclint_mtime_roundtrip:
  assumes "x < 2 ^ 57" and "aclint_mtimer_w 0x7ff8 x 8 m = Some m'"
  shows "aclint_mtime_get m' = x"
proof -
  have "x AND mask 64 = x" by (rule bit_word_eqI) (auto simp: bit_simps)
  then have "m' = m\<lparr>aclint := (aclint m)\<lparr>time_start := readtime m - x * 100\<rparr>\<rparr>"
    using assms(2) by (auto simp: aclint_mtimer_w_def)
  then show ?thesis using uint_times_100_div[OF assms(1)] by (simp add: aclint_mtime_get_def readtime_def)
qed

text \<open>The compare register of a hart is indexed by the byte offset.\<close>

lemma aclint_mtimecmp_undefined:
  assumes "aclint_good m" and "length (hartlist m) \<le> unat off" and "off \<noteq> 0x7ff8"
  shows "aclint_mtimer_r off n m = None" "aclint_mtimer_w off data n m = None"
  using assms by (auto simp: aclint_mtimer_r_def aclint_mtimer_w_def aclint_good_def not_less)

end
