(* ===== verification/Plic.thy ===== *)
theory Plic
  imports Aclint
begin

text \<open>
  The platform-level interrupt controller, \<open>plic.cpp\<close>.  Context \<open>2h\<close> is hart \<open>h\<close> in
  M-mode, context \<open>2h + 1\<close> the same hart in S-mode.  The \<open>uint16_t\<close> source and context
  numbers are naturals; where the source narrows a wider value to them, the \<open>mod\<close> is
  written out.
\<close>

subsection \<open>Operations\<close>

definition PLIC_CTX_COUNT :: "Machine \<Rightarrow> nat" where
  "PLIC_CTX_COUNT m = 2 * unat (mach_hart_count m)"

text \<open>Uninitialised \<open>new uint32_t[n]\<close> arrays hold \<open>junk\<close>; one value initialises one element.\<close>

definition plic_init :: "(nat \<Rightarrow> u32) \<Rightarrow> Machine \<Rightarrow> Machine" where
  "plic_init junk m = m\<lparr>plic := (plic m)\<lparr>
     int_prio_regs := map junk [0..<PLIC_SOURCE_COUNT],
     int_pend_regs := map junk [0..<(PLIC_SOURCE_COUNT + 31) div 32],
     int_en_regs := (replicate ((PLIC_SOURCE_COUNT + 31) div 32 * PLIC_CTX_COUNT m) 0)[0 := 0xFFFFFFFF],
     int_prio_thres := map junk [0..<PLIC_CTX_COUNT m],
     int_handling := replicate (PLIC_CTX_COUNT m) False\<rparr>\<rparr>"

definition plic_find_en :: "nat \<Rightarrow> nat \<Rightarrow> Machine \<Rightarrow> bool option" where
  "plic_find_en ctx src m = do {
     w \<leftarrow> nth_opt (int_en_regs (plic m)) (0x20 * ctx + src div 32);
     Some (bit w (src mod 32))
   }"

definition plic_notify_ctx :: "nat \<Rightarrow> Machine \<Rightarrow> Machine option" where
  "plic_notify_ctx ctx m =
    (if odd ctx then at_hartlist (ctx div 2) (set_mip 9) m
     else at_hartlist (ctx div 2) (set_mip 11) m)"

definition plic_notify_finish_ctx :: "nat \<Rightarrow> Machine \<Rightarrow> Machine option" where
  "plic_notify_finish_ctx ctx m =
    (if odd ctx then at_hartlist (ctx div 2) (clr_mip 9) m
     else at_hartlist (ctx div 2) (clr_mip 11) m)"

text \<open>One iteration of the loop over the contexts; the tests are evaluated left to right.\<close>

definition plic_try_ctx :: "nat \<Rightarrow> u32 \<Rightarrow> nat \<Rightarrow> Machine \<Rightarrow> Machine option" where
  "plic_try_ctx src int_prio i m = do {
     busy \<leftarrow> nth_opt (int_handling (plic m)) i;
     if busy then Some m
     else do {
       thres \<leftarrow> nth_opt (int_prio_thres (plic m)) i;
       if thres < int_prio then do {
         en \<leftarrow> plic_find_en i src m;
         if en then plic_notify_ctx i m else Some m
       } else Some m
     }
   }"

text \<open>
  The loop counter is a \<open>uint16_t\<close>: with more than 32767 harts the loop never ends, which
  is the value \<^term>\<open>None\<close>.
\<close>

definition plic_try_int :: "nat \<Rightarrow> Machine \<Rightarrow> Machine option" where
  "plic_try_int src m = do {
     w \<leftarrow> nth_opt (int_pend_regs (plic m)) (src div 32);
     if \<not> bit w (src mod 32) then Some m
     else do {
       int_prio \<leftarrow> nth_opt (int_prio_regs (plic m)) src;
       guard (PLIC_CTX_COUNT m < 65536);
       for_each (plic_try_ctx src int_prio) [0..<PLIC_CTX_COUNT m] m
     }
   }"

definition plic_try_int_all :: "Machine \<Rightarrow> Machine option" where
  "plic_try_int_all m = for_each plic_try_int [0..<PLIC_SOURCE_COUNT] m"

definition plic_chk :: "Machine \<Rightarrow> Machine option" where
  "plic_chk m = plic_try_int_all m"

definition plic_send_int :: "nat \<Rightarrow> Machine \<Rightarrow> Machine option" where
  "plic_send_int src m = do {
     w \<leftarrow> nth_opt (int_pend_regs (plic m)) (src div 32);
     if bit w (src mod 32) then Some m
     else plic_try_int src (m\<lparr>plic := (plic m)\<lparr>
            int_pend_regs := (int_pend_regs (plic m))[src div 32 := w OR bmask (src mod 32) 1]\<rparr>\<rparr>)
   }"

definition OFFSET_TO_CTX :: "u64 \<Rightarrow> nat" where
  "OFFSET_TO_CTX off = unat (drop_bit 12 off - 0x200)"

definition plic_claim_step :: "Machine \<Rightarrow> nat \<Rightarrow> nat \<Rightarrow> u32 \<times> nat \<Rightarrow> (u32 \<times> nat) option" where
  "plic_claim_step m ctx i s = (case s of (highest_prio, highest) \<Rightarrow> do {
     p \<leftarrow> nth_opt (int_prio_regs (plic m)) i;
     if highest_prio < p then do {
       en \<leftarrow> plic_find_en ctx i m;
       Some (if en then (p, i) else (highest_prio, highest))
     } else Some (highest_prio, highest)
   })"

definition plic_claim :: "u64 \<Rightarrow> Machine \<Rightarrow> (view \<times> Machine) option" where
  "plic_claim off m = do {
     (_, h) \<leftarrow> for_each (plic_claim_step m (OFFSET_TO_CTX off mod 65536)) [0..<PLIC_SOURCE_COUNT] (0, 0);
     if h \<noteq> 0 then do {
       hd \<leftarrow> upd_opt (int_handling (plic m)) (OFFSET_TO_CTX off) True;
       w \<leftarrow> nth_opt (int_pend_regs (plic m)) (h div 32);
       Some (view32 (of_nat h), m\<lparr>plic := (plic m)\<lparr>highest_source := of_nat h, int_handling := hd,
         int_pend_regs := (int_pend_regs (plic m))[h div 32 := w AND NOT (bmask (h mod 32) 1)]\<rparr>\<rparr>)
     } else Some (view32 0, m\<lparr>plic := (plic m)\<lparr>highest_source := 0\<rparr>\<rparr>)
   }"

definition plic_r :: "u64 \<Rightarrow> nat \<Rightarrow> Machine \<Rightarrow> (view \<times> Machine) option" where
  "plic_r off len m =
    (let ro = unat off div 4; p = plic m
     in if ro < PLIC_SOURCE_COUNT then Some (view_words (int_prio_regs p) ro, m)
        else if 0x400 \<le> ro \<and> ro < 0x400 + (PLIC_SOURCE_COUNT + 31) div 32 then
          Some (view_words (int_pend_regs p) (ro - 0x400), m)
        else if 0x800 \<le> ro \<and> ro < 0x800 + PLIC_CTX_COUNT m * 128 then
          Some (view_words (int_en_regs p) (ro - 0x800), m)
        else if 0x200000 \<le> off \<and> off AND 0xFFF = 0 then
          Some (view_words (int_prio_thres p) (OFFSET_TO_CTX off), m)
        else if 0x200000 \<le> off \<and> off AND 0xFFF = 4 then plic_claim off m
        else Some (ZERO, m))"

definition plic_complete :: "nat \<Rightarrow> Machine \<Rightarrow> Machine option" where
  "plic_complete ctx m = do {
     hd \<leftarrow> upd_opt (int_handling (plic m)) ctx False;
     plic_notify_finish_ctx (ctx mod 65536) (m\<lparr>plic := (plic m)\<lparr>int_handling := hd\<rparr>\<rparr>)
   }"

text \<open>The five tests are independent statements; the first two ranges exclude all the others.\<close>

definition plic_w :: "u64 \<Rightarrow> u64 \<Rightarrow> nat \<Rightarrow> Machine \<Rightarrow> Machine option" where
  "plic_w off data len m =
    (let ro = unat off div 4; p = plic m
     in if ro < PLIC_SOURCE_COUNT then do {
          x \<leftarrow> data_as 4 len data;
          rs \<leftarrow> upd_opt (int_prio_regs p) ro (ucast x);
          Some (m\<lparr>plic := p\<lparr>int_prio_regs := rs\<rparr>\<rparr>) }
        else if 0x400 \<le> ro \<and> ro < 0x400 + (PLIC_SOURCE_COUNT + 31) div 32 then do {
          x \<leftarrow> data_as 4 len data;
          rs \<leftarrow> upd_opt (int_pend_regs p) (ro - 0x400) (ucast x);
          Some (m\<lparr>plic := p\<lparr>int_pend_regs := rs\<rparr>\<rparr>) }
        else do {
          m1 \<leftarrow> (if 0x800 \<le> ro \<and> ro < 0x800 + PLIC_CTX_COUNT m * 0x20 then do {
                  x \<leftarrow> data_as 4 len data;
                  rs \<leftarrow> upd_opt (int_en_regs p) (ro - 0x800) (ucast x AND NOT 1);
                  Some (m\<lparr>plic := p\<lparr>int_en_regs := rs\<rparr>\<rparr>) }
                else Some m);
          if 0x200000 \<le> off \<and> off AND 0xFFF = 0 then do {
            x \<leftarrow> data_as 4 len data;
            rs \<leftarrow> upd_opt (int_prio_thres (plic m1)) (OFFSET_TO_CTX off) (ucast x);
            Some (m1\<lparr>plic := (plic m1)\<lparr>int_prio_thres := rs\<rparr>\<rparr>) }
          else if 0x200000 \<le> off \<and> off AND 0xFFF = 4 then plic_complete (OFFSET_TO_CTX off) m1
          else Some m1
        })"

subsection \<open>The device contract\<close>

definition plic_good :: "Machine \<Rightarrow> bool" where
  "plic_good m \<longleftrightarrow> length (int_prio_regs (plic m)) = PLIC_SOURCE_COUNT
     \<and> length (int_pend_regs (plic m)) = 1
     \<and> length (int_en_regs (plic m)) = PLIC_CTX_COUNT m
     \<and> length (int_prio_thres (plic m)) = PLIC_CTX_COUNT m
     \<and> length (int_handling (plic m)) = PLIC_CTX_COUNT m
     \<and> length (hartlist m) = unat (mach_hart_count m)"

text \<open>What the interrupt controller may touch: itself and the pending bits of the harts.\<close>

definition plic_frame :: "Machine \<Rightarrow> Machine \<Rightarrow> bool" where
  "plic_frame m m' \<longleftrightarrow> device_frame m m'
     \<and> aclint m' = aclint m \<and> uart m' = uart m \<and> virtio m' = virtio m \<and> pty m' = pty m
     \<and> dtb_buf m' = dtb_buf m \<and> system_now m' = system_now m
     \<and> length (int_prio_regs (plic m')) = length (int_prio_regs (plic m))
     \<and> length (int_pend_regs (plic m')) = length (int_pend_regs (plic m))
     \<and> length (int_en_regs (plic m')) = length (int_en_regs (plic m))
     \<and> length (int_prio_thres (plic m')) = length (int_prio_thres (plic m))
     \<and> length (int_handling (plic m')) = length (int_handling (plic m))"

lemma plic_frame_refl [simp]: "plic_frame m m"
  by (simp add: plic_frame_def)

lemma plic_frame_trans [trans]: "plic_frame a b \<Longrightarrow> plic_frame b c \<Longrightarrow> plic_frame a c"
  unfolding plic_frame_def
  by (elim conjE, intro conjI, erule (1) device_frame_trans) (simp_all only:)

lemma plic_frame_device: "plic_frame m m' \<Longrightarrow> device_frame m m'"
  by (simp add: plic_frame_def)

lemma plic_frame_count: "plic_frame m m' \<Longrightarrow> mach_hart_count m' = mach_hart_count m"
  by (simp add: plic_frame_def device_frame_def)

lemma plic_frame_good:
  assumes f: "plic_frame m m'" and g: "plic_good m"
  shows "plic_good m'"
proof -
  have "length (hartlist m') = length (hartlist m)"
    using device_frame_length[OF plic_frame_device[OF f]] .
  then show ?thesis
    using f g plic_frame_count[OF f] by (simp add: plic_good_def plic_frame_def PLIC_CTX_COUNT_def)
qed

lemma plic_frame_upd_hart: "only_mip (hart h m) (f (hart h m)) \<Longrightarrow> plic_frame m (upd_hart h f m)"
  by (simp add: plic_frame_def device_frame_upd_hart)

lemma plic_frame_plic:
  "length (int_prio_regs p) = length (int_prio_regs (plic m)) \<Longrightarrow>
   length (int_pend_regs p) = length (int_pend_regs (plic m)) \<Longrightarrow>
   length (int_en_regs p) = length (int_en_regs (plic m)) \<Longrightarrow>
   length (int_prio_thres p) = length (int_prio_thres (plic m)) \<Longrightarrow>
   length (int_handling p) = length (int_handling (plic m)) \<Longrightarrow> plic_frame m (m\<lparr>plic := p\<rparr>)"
  by (simp add: plic_frame_def device_frame_same)

lemma plic_notify_ctx_frame: "plic_notify_ctx ctx m = Some m' \<Longrightarrow> plic_frame m m'"
  by (auto simp: plic_notify_ctx_def intro!: plic_frame_upd_hart split: if_splits)

lemma plic_notify_finish_ctx_frame: "plic_notify_finish_ctx ctx m = Some m' \<Longrightarrow> plic_frame m m'"
  by (auto simp: plic_notify_finish_ctx_def intro!: plic_frame_upd_hart split: if_splits)

lemma plic_try_ctx_frame: "plic_try_ctx src p i m = Some m' \<Longrightarrow> plic_frame m m'"
  by (auto simp: plic_try_ctx_def plic_notify_ctx_frame split: if_splits)

lemma plic_try_int_frame: "plic_try_int src m = Some m' \<Longrightarrow> plic_frame m m'"
  by (auto simp: plic_try_int_def split: if_splits
      elim!: for_each_inv[where P = "plic_frame m"] intro: plic_frame_trans plic_try_ctx_frame)

lemma plic_chk_frame: "plic_chk m = Some m' \<Longrightarrow> plic_frame m m'"
  unfolding plic_chk_def plic_try_int_all_def
  by (erule for_each_inv[where P = "plic_frame m"]) (auto intro: plic_frame_trans plic_try_int_frame)

lemma plic_send_int_frame:
  assumes "plic_send_int src m = Some m'"
  shows "plic_frame m m'"
proof -
  have "plic_frame m (m\<lparr>plic := (plic m)\<lparr>int_pend_regs := (int_pend_regs (plic m))[k := w]\<rparr>\<rparr>)" for k w
    by (rule plic_frame_plic) simp_all
  then show ?thesis
    using assms plic_frame_trans plic_try_int_frame
    by (fastforce simp: plic_send_int_def split: if_splits)
qed

lemma plic_claim_frame: "plic_claim off m = Some (v, m') \<Longrightarrow> plic_frame m m'"
  by (auto simp: plic_claim_def split: if_splits intro!: plic_frame_plic)

lemma plic_r_frame: "plic_r off n m = Some (v, m') \<Longrightarrow> plic_frame m m'"
  by (auto simp: plic_r_def Let_def plic_claim_frame split: if_splits)

lemma plic_complete_frame:
  assumes "plic_complete ctx m = Some m'"
  shows "plic_frame m m'"
proof -
  have "plic_frame m (m\<lparr>plic := (plic m)\<lparr>int_handling := (int_handling (plic m))[k := w]\<rparr>\<rparr>)" for k w
    by (rule plic_frame_plic) simp_all
  then show ?thesis
    using assms plic_frame_trans plic_notify_finish_ctx_frame by (fastforce simp: plic_complete_def)
qed

lemma plic_w_frame:
  assumes "plic_w off data n m = Some m'"
  shows "plic_frame m m'"
proof -
  have en: "plic_frame m (m\<lparr>plic := (plic m)\<lparr>int_en_regs := (int_en_regs (plic m))[k := w]\<rparr>\<rparr>)" for k w
    by (rule plic_frame_plic) simp_all
  have th: "plic_frame m1 (m1\<lparr>plic := (plic m1)\<lparr>int_prio_thres := (int_prio_thres (plic m1))[k := w]\<rparr>\<rparr>)"
    for k w m1
    by (rule plic_frame_plic) simp_all
  note [dest!] = plic_complete_frame
  show ?thesis
    using assms
    by (auto simp: plic_w_def Let_def plic_frame_plic split: if_splits
        intro: en th plic_frame_trans[OF en th] plic_frame_trans[OF en])
qed

interpretation plic_dev: mmio_device plic_good plic_r plic_w
proof unfold_locales
  fix off :: u64 and n m v m'
  assume g: "plic_good m" and r: "plic_r off n m = Some (v, m')"
  have f: "plic_frame m m'" using r by (rule plic_r_frame)
  show "device_frame m m'" by (rule plic_frame_device[OF f])
  show "plic_good m'" by (rule plic_frame_good[OF f g])
next
  fix off data :: u64 and n m m'
  assume g: "plic_good m" and w: "plic_w off data n m = Some m'"
  have f: "plic_frame m m'" using w by (rule plic_w_frame)
  show "device_frame m m'" by (rule plic_frame_device[OF f])
  show "plic_good m'" by (rule plic_frame_good[OF f g])
qed

subsection \<open>Claim, completion and notification\<close>

definition plic_enabled :: "nat \<Rightarrow> nat \<Rightarrow> Machine \<Rightarrow> bool" where
  "plic_enabled ctx i m \<longleftrightarrow> bit (int_en_regs (plic m) ! (0x20 * ctx)) i"

definition plic_prio :: "nat \<Rightarrow> Machine \<Rightarrow> u32" where
  "plic_prio i m = int_prio_regs (plic m) ! i"

text \<open>\<open>h\<close> is the lowest-numbered among the enabled sources of the greatest priority.\<close>

definition plic_best :: "nat \<Rightarrow> nat \<Rightarrow> Machine \<Rightarrow> u32 \<Rightarrow> nat \<Rightarrow> bool" where
  "plic_best ctx n m p h \<longleftrightarrow>
     (\<forall>i<n. plic_enabled ctx i m \<longrightarrow> plic_prio i m \<le> p) \<and>
     (p = 0 \<and> h = 0 \<or>
      h < n \<and> plic_enabled ctx h m \<and> plic_prio h m = p \<and>
        (\<forall>i<h. plic_enabled ctx i m \<longrightarrow> plic_prio i m < p))"

lemma plic_find_en_in_range:
  assumes "plic_good m" "0x20 * ctx < PLIC_CTX_COUNT m" "i < PLIC_SOURCE_COUNT"
  shows "plic_find_en ctx i m = Some (plic_enabled ctx i m)"
  using assms by (simp add: plic_find_en_def plic_good_def plic_enabled_def)

lemma plic_best_step:
  assumes "plic_best ctx n m p h"
  shows "plic_best ctx (Suc n) m
    (if p < plic_prio n m \<and> plic_enabled ctx n m then plic_prio n m else p)
    (if p < plic_prio n m \<and> plic_enabled ctx n m then n else h)"
proof (cases "p < plic_prio n m \<and> plic_enabled ctx n m")
  case True
  then show ?thesis
    using assms unfolding plic_best_def by (auto simp: less_Suc_eq intro: order.strict_implies_order
        order.strict_trans1)
next
  case False
  then show ?thesis using assms unfolding plic_best_def by (auto simp: less_Suc_eq not_less)
qed

lemma plic_claim_scan:
  assumes g: "plic_good m" and c: "0x20 * ctx < PLIC_CTX_COUNT m" and "n \<le> PLIC_SOURCE_COUNT"
  shows "\<exists>p h. for_each (plic_claim_step m ctx) [0..<n] (0, 0) = Some (p, h) \<and> plic_best ctx n m p h"
  using assms(3)
proof (induction n)
  case 0
  then show ?case by (simp add: plic_best_def)
next
  case (Suc n)
  then obtain p h where IH: "for_each (plic_claim_step m ctx) [0..<n] (0, 0) = Some (p, h)"
    "plic_best ctx n m p h" by auto
  have "plic_claim_step m ctx n (p, h) = Some
      (if p < plic_prio n m \<and> plic_enabled ctx n m then plic_prio n m else p,
       if p < plic_prio n m \<and> plic_enabled ctx n m then n else h)"
    using Suc.prems g plic_find_en_in_range[OF g c, of n]
    by (simp add: plic_claim_step_def nth_opt_def plic_good_def plic_prio_def)
  then show ?case using IH plic_best_step[OF IH(2)] by (simp add: for_each_append)
qed

text \<open>
  C23. Claiming an interrupt returns the lowest-numbered enabled source of the highest non-zero
  priority, or 0, marks the context as handling it and clears its pending bit.  This holds for
  the contexts whose enable words the code has allocated.
\<close>

lemma plic_claim_best:
  assumes g: "plic_good m" and c: "0x20 * OFFSET_TO_CTX off < PLIC_CTX_COUNT m"
    and b: "PLIC_CTX_COUNT m < 65536"
  shows "\<exists>p h m'. plic_claim off m = Some (view32 (of_nat h), m') \<and> plic_best (OFFSET_TO_CTX off) 16 m p h \<and>
    (h \<noteq> 0 \<longrightarrow> int_handling (plic m') = (int_handling (plic m))[OFFSET_TO_CTX off := True] \<and>
      int_pend_regs (plic m') = [int_pend_regs (plic m) ! 0 AND NOT (bmask h 1)]) \<and>
    (h = 0 \<longrightarrow> plic m' = (plic m)\<lparr>highest_source := 0\<rparr>)"
proof -
  have m: "OFFSET_TO_CTX off mod 65536 = OFFSET_TO_CTX off" using b c by simp
  obtain p h where s: "for_each (plic_claim_step m (OFFSET_TO_CTX off)) [0..<16] (0, 0) = Some (p, h)"
    and best: "plic_best (OFFSET_TO_CTX off) 16 m p h"
    using plic_claim_scan[OF g c, of 16] by auto
  have h: "h < 16" using best by (auto simp: plic_best_def)
  obtain w where w: "int_pend_regs (plic m) = [w]"
    using g by (auto simp: plic_good_def length_Suc_conv)
  have "OFFSET_TO_CTX off < length (int_handling (plic m))" using g c by (simp add: plic_good_def)
  then show ?thesis
    using s best h w
    by (cases "h = 0") (auto simp: plic_claim_def m nth_opt_def upd_opt_def intro!: exI)
qed

text \<open>Claiming never looks at the pending bits.\<close>

lemma plic_claim_step_pending:
  "plic_claim_step (m\<lparr>plic := (plic m)\<lparr>int_pend_regs := ws\<rparr>\<rparr>) ctx i s = plic_claim_step m ctx i s"
proof -
  have e: "plic_find_en ctx i (m\<lparr>plic := (plic m)\<lparr>int_pend_regs := ws\<rparr>\<rparr>) = plic_find_en ctx i m"
    by (simp add: plic_find_en_def)
  show ?thesis unfolding plic_claim_step_def e by simp
qed

text \<open>
  What a claim returns does not depend on which sources are pending: a source that has not
  raised an interrupt can be claimed.
\<close>

lemma plic_claim_ignores_pending:
  assumes "length ws = length (int_pend_regs (plic m))"
  shows "map_option fst (plic_claim off (m\<lparr>plic := (plic m)\<lparr>int_pend_regs := ws\<rparr>\<rparr>)) =
    map_option fst (plic_claim off m)"
proof -
  have e: "plic_claim_step (m\<lparr>plic := (plic m)\<lparr>int_pend_regs := ws\<rparr>\<rparr>) = plic_claim_step m"
    by (intro ext) (rule plic_claim_step_pending)
  have "nth_opt ws i = None \<longleftrightarrow> nth_opt (int_pend_regs (plic m)) i = None" for i using assms by simp
  then show ?thesis
    unfolding plic_claim_def e
    by (auto simp: nth_opt_def assms split: Option.bind_splits prod.splits if_splits)
qed

text \<open>
  A pending source of a context that is not busy and whose threshold lies below the source's
  priority: the enable word of every context but the first lies outside the array.
\<close>

lemma plic_try_ctx_undefined:
  assumes "plic_good m" "i < PLIC_CTX_COUNT m" "0x20 * i \<ge> PLIC_CTX_COUNT m"
    "\<not> int_handling (plic m) ! i" "int_prio_thres (plic m) ! i < p" "src < PLIC_SOURCE_COUNT"
  shows "plic_try_ctx src p i m = None"
  using assms by (auto simp: plic_try_ctx_def plic_good_def plic_find_en_def nth_opt_def)

text \<open>
  C37. Completing an interrupt ends its handling in the context and withdraws the external
  interrupt of the mode the context belongs to.
\<close>

lemma plic_complete_clears:
  assumes "plic_good m" "ctx < PLIC_CTX_COUNT m" "PLIC_CTX_COUNT m < 65536"
  shows "\<exists>m'. plic_complete ctx m = Some m' \<and> \<not> int_handling (plic m') ! ctx \<and>
    \<not> bit (mip (hart (ctx div 2) m')) (if odd ctx then 9 else 11)"
  using assms
  by (auto simp: plic_complete_def plic_good_def plic_notify_finish_ctx_def PLIC_CTX_COUNT_def bits
      upd_opt_def hart_upd_hart)

lemma plic_send_int_pending:
  assumes "plic_good m" "src < PLIC_SOURCE_COUNT" "bit (int_pend_regs (plic m) ! 0) src"
  shows "plic_send_int src m = Some m"
  using assms by (simp add: plic_send_int_def nth_opt_def plic_good_def)

end
