(* ===== verification/Uart.thy ===== *)
theory Uart
  imports Plic
begin

text \<open>
  The NS16550A serial port (\<open>uart.cpp\<close>) and the terminal behind it (the \<open>pty_\<close> functions of
  \<open>io.cpp\<close>).  A character is its byte; \<open>char\<close> is signed, so the \<open>-1\<close> that says "no input"
  is the byte \<open>0xFF\<close>.  The two buffer pointers are offsets into \<open>input_buffer\<close>.
\<close>

subsection \<open>The terminal\<close>

text \<open>A C string: the bytes up to the first zero; a buffer without one is read past its end.\<close>

definition c_string :: "u8 list \<Rightarrow> u8 list option" where
  "c_string bs = do { guard (0 \<in> set bs); Some (takeWhile (\<lambda>b. b \<noteq> 0) bs) }"

text \<open>In the fallback the text goes through \<open>dbg_print\<close>, which is silent in signature mode.\<close>

definition pty_print :: "u8 list \<Rightarrow> Machine \<Rightarrow> Machine option" where
  "pty_print buf m = do {
     t \<leftarrow> c_string buf;
     Some (if dbg_fallback (pty m) \<and> sig_mode m then m
           else m\<lparr>pty := (pty m)\<lparr>pty_out := pty_out (pty m) @ t\<rparr>\<rparr>)
   }"

text \<open>\<open>pty_endl\<close> has no fallback: without a terminal it prints to a null \<open>FILE*\<close>.\<close>

definition pty_endl :: "Machine \<Rightarrow> Machine option" where
  "pty_endl m = do {
     guard (\<not> dbg_fallback (pty m));
     Some (m\<lparr>pty := (pty m)\<lparr>pty_out := pty_out (pty m) @ [0xa]\<rparr>\<rparr>)
   }"

subsection \<open>Registers and interrupts\<close>

definition upd_uart :: "(Uart \<Rightarrow> Uart) \<Rightarrow> Machine \<Rightarrow> Machine" where
  "upd_uart f m = m\<lparr>uart := f (uart m)\<rparr>"

lemma upd_uart_simps [simp]:
  "uart (upd_uart f m) = f (uart m)" "plic (upd_uart f m) = plic m"
  "hartlist (upd_uart f m) = hartlist m" "pty (upd_uart f m) = pty m"
  "sig_mode (upd_uart f m) = sig_mode m" "mach_hart_count (upd_uart f m) = mach_hart_count m"
  by (simp_all add: upd_uart_def)

definition upd_reg :: "nat \<Rightarrow> (u8 \<Rightarrow> u8) \<Rightarrow> Uart \<Rightarrow> Uart" where
  "upd_reg i f u = u\<lparr>uart_regs := (uart_regs u)[i := f (uart_regs u ! i)]\<rparr>"

definition uart_init :: "Machine \<Rightarrow> Machine" where
  "uart_init m = upd_uart (\<lambda>u. upd_reg 5 (\<lambda>_. 0b01100000) (upd_reg 2 (\<lambda>_. 0b01)
     (u\<lparr>read_ptr := 0, write_ptr := 0\<rparr>))) m"

text \<open>The zero-initialised globals of \<open>uart.cpp\<close>.\<close>

definition uart_globals :: Uart where
  "uart_globals = \<lparr>input_buffer = replicate IBUF_SIZE 0, read_ptr = 0, write_ptr = 0, dlab = False,
     pending_in = 0, ls_reg = 0, ms_reg = 0, fifo_trigger_lvl = 1, uart_regs = replicate 8 0,
     tx_required = False, uart_end = False, output_buf = replicate IBUF_SIZE 0, tx_offset = 0,
     uart_timeout = 0\<rparr>"

definition uart_int_prio :: "u8 list" where
  "uart_int_prio = [4, 3, 2, 1, 0, 6, 2, 5]"

definition uart_sendint :: "u8 \<Rightarrow> Machine \<Rightarrow> Machine option" where
  "uart_sendint code m = do {
     r2 \<leftarrow> nth_opt (uart_regs (uart m)) 2;
     new \<leftarrow> nth_opt uart_int_prio (unat (code div 2));
     cur \<leftarrow> nth_opt uart_int_prio (unat (r2 div 2 AND 0b111));
     if r2 AND 0xF \<noteq> 0x1 \<and> new < cur then Some m
     else plic_send_int 10 (upd_uart (upd_reg 2 (\<lambda>r. r AND NOT 0xF OR code AND 0xF)) m)
   }"

definition uart_clearint :: "Uart \<Rightarrow> Uart" where
  "uart_clearint u = upd_reg 2 (\<lambda>r. r AND NOT 0xF OR 0x01) u"

subsection \<open>The transmitter thread\<close>

text \<open>
  One iteration of \<open>uart_loop\<close> after its wait has ended with \<open>tx_required\<close>.  The test for a
  final line feed looks at \<open>output[tx_offset]\<close>, the position after the last character.
\<close>

definition uart_tx :: "Machine \<Rightarrow> Machine option" where
  "uart_tx m = do {
     last \<leftarrow> nth_opt (output_buf (uart m)) (tx_offset (uart m));
     m1 \<leftarrow> (if last = 0xa then do {
              m' \<leftarrow> pty_print ((output_buf (uart m))[tx_offset (uart m) := 0]) m;
              pty_endl m' }
            else pty_print (output_buf (uart m)) m);
     let m2 = upd_uart (\<lambda>u. upd_reg 5 (\<lambda>r. r OR 0b1100000)
                (u\<lparr>tx_offset := 0, output_buf := replicate IBUF_SIZE 0\<rparr>)) m1;
     m3 \<leftarrow> (if bit (uart_regs (uart m2) ! 1) 1 then uart_sendint 0b0010 m2 else Some m2);
     Some (upd_uart (\<lambda>u. u\<lparr>tx_required := False\<rparr>) m3)
   }"

text \<open>
  \<open>while (tx_required);\<close> ends when the transmitter thread has completed an iteration and
  in no other way, so the spinning write is modelled with that iteration inside.
\<close>

definition uart_tx_wait :: "Machine \<Rightarrow> Machine option" where
  "uart_tx_wait m = (if tx_required (uart m) then uart_tx m else Some m)"

subsection \<open>Register accesses\<close>

definition uart_set_dr :: "Uart \<Rightarrow> Uart" where
  "uart_set_dr u = upd_reg 5 (\<lambda>r. if pending_in u > 0 then r OR 1 else r AND NOT 1) u"

definition uart_read_reg :: "u64 \<Rightarrow> Uart \<Rightarrow> (u64 \<times> Uart) option" where
  "uart_read_reg off u =
    (if off = 0 then
       (if dlab u then Some (ucast (ls_reg u), u)
        else if pending_in u > 0 then do {
          c \<leftarrow> nth_opt (input_buffer u) (read_ptr u);
          Some (scast c, u\<lparr>read_ptr := (if Suc (read_ptr u) > IBUF_SIZE then 0 else Suc (read_ptr u)),
                           pending_in := pending_in u - 1\<rparr>) }
        else Some (0, u))
     else if off = 1 then
       (if dlab u then do { r \<leftarrow> nth_opt (uart_regs u) 1; Some (ucast r, u) }
        else Some (ucast (ms_reg u), u))
     else do { r \<leftarrow> nth_opt (uart_regs u) (unat off); Some (ucast r, u) })"

definition uart_r :: "u64 \<Rightarrow> nat \<Rightarrow> Machine \<Rightarrow> (view \<times> Machine) option" where
  "uart_r off len m = do {
     (output_byte, u1) \<leftarrow> uart_read_reg off (uart m);
     let u2 = (if off = 2 \<and> uart_regs u1 ! 2 AND 0xF = 0b0010 then uart_clearint u1 else u1);
     Some (view64 output_byte, upd_uart (\<lambda>_. uart_set_dr u2) m)
   }"

definition uart_fifo :: "u8 \<Rightarrow> u8" where
  "uart_fifo r = (let k = drop_bit 6 r in if k = 0 then 1 else if k = 1 then 4 else if k = 2 then 8 else 14)"

text \<open>Writing the transmit register, after the register itself has been updated.\<close>

definition uart_put :: "u8 \<Rightarrow> Machine \<Rightarrow> Machine option" where
  "uart_put c m = do {
     let m1 = (if uart_regs (uart m) ! 2 AND 0xF = 0b0010 then upd_uart uart_clearint m else m);
     m2 \<leftarrow> uart_tx_wait m1;
     out \<leftarrow> upd_opt (output_buf (uart m2)) (tx_offset (uart m2)) c;
     let off' = Suc (tx_offset (uart m2));
     let full = (off' \<ge> IBUF_SIZE - 1 \<or> c = 0xa);
     Some (upd_uart (\<lambda>u. upd_reg 5
             (\<lambda>r. if full then r AND NOT 0b1000000 AND NOT 0b0100000 else r AND NOT 0b1000000)
             (u\<lparr>output_buf := out, tx_offset := off', tx_required := full \<or> tx_required u\<rparr>)) m2)
   }"

definition uart_w :: "u64 \<Rightarrow> u64 \<Rightarrow> nat \<Rightarrow> Machine \<Rightarrow> Machine option" where
  "uart_w off data len m = do {
     x \<leftarrow> data_as 1 len data;
     rs \<leftarrow> upd_opt (uart_regs (uart m)) (unat off) (ucast x);
     let m1 = upd_uart (\<lambda>u. u\<lparr>uart_regs := rs\<rparr>) m;
     if off = 3 then Some (upd_uart (\<lambda>u. u\<lparr>dlab := bit (rs ! 3) 7\<rparr>) m1)
     else if off = 0 then uart_put (ucast x) m1
     else if off = 2 then Some (upd_uart (\<lambda>u. u\<lparr>fifo_trigger_lvl := uart_fifo (rs ! 2)\<rparr>) m1)
     else Some m1
   }"

subsection \<open>The periodic check\<close>

text \<open>
  \<open>ch\<close> is what \<open>pty_getc\<close> returned.  Pointer difference and trigger level are compared as
  integers.
\<close>

definition uart_rx :: "u8 \<Rightarrow> Machine \<Rightarrow> Machine option" where
  "uart_rx ch m =
    (if ch = 0xFF then Some m
     else do {
       buf \<leftarrow> upd_opt (input_buffer (uart m)) (write_ptr (uart m)) ch;
       let m1 = upd_uart (\<lambda>u. u\<lparr>input_buffer := buf, write_ptr := Suc (write_ptr u),
                                pending_in := pending_in u + 1\<rparr>) m;
       m2 \<leftarrow> (if int (write_ptr (uart m1)) - int (read_ptr (uart m1)) > uint (fifo_trigger_lvl (uart m1))
                \<and> bit (uart_regs (uart m1) ! 1) 0
              then uart_sendint 0b0100 m1 else Some m1);
       Some (upd_uart (\<lambda>u. u\<lparr>write_ptr := (if write_ptr u > IBUF_SIZE then 0 else write_ptr u)\<rparr>) m2)
     })"

definition uart_chk_timeout :: "Machine \<Rightarrow> Machine option" where
  "uart_chk_timeout m = do {
     let m1 = upd_uart (\<lambda>u. u\<lparr>uart_timeout :=
                (if pending_in u > 0 then uart_timeout u + 1 else uart_timeout u)\<rparr>) m;
     if uart_timeout (uart m1) > 4 then do {
       m2 \<leftarrow> uart_sendint 0b0100 m1;
       Some (upd_uart (\<lambda>u. u\<lparr>uart_timeout := 0\<rparr>) m2) }
     else Some m1
   }"

definition uart_chk_tx :: "Machine \<Rightarrow> Machine option" where
  "uart_chk_tx m =
    (if tx_offset (uart m) = 0 then do {
       let m1 = upd_uart (upd_reg 5 (\<lambda>r. r OR 0b1100000)) m;
       if bit (uart_regs (uart m1) ! 1) 1 then uart_sendint 0b0010 m1 else Some m1 }
     else Some (upd_uart (\<lambda>u. u\<lparr>tx_required := True\<rparr>) m))"

definition uart_chk :: "u8 \<Rightarrow> Machine \<Rightarrow> Machine option" where
  "uart_chk ch m = do { m1 \<leftarrow> uart_rx ch m; m2 \<leftarrow> uart_chk_timeout m1; uart_chk_tx m2 }"

subsection \<open>Invariant and frame\<close>

text \<open>
  The transmit buffer holds \<open>tx_offset\<close> characters followed by zeros and has room for one
  more unless a flush has been requested; the buffer pointers stay within one element of the
  buffer's end.
\<close>

definition uart_good :: "Uart \<Rightarrow> bool" where
  "uart_good u \<longleftrightarrow> length (input_buffer u) = IBUF_SIZE \<and> length (uart_regs u) = 8
     \<and> length (output_buf u) = IBUF_SIZE
     \<and> read_ptr u \<le> IBUF_SIZE \<and> write_ptr u \<le> IBUF_SIZE
     \<and> tx_offset u \<le> IBUF_SIZE - 1 \<and> (\<not> tx_required u \<longrightarrow> tx_offset u < IBUF_SIZE - 1)
     \<and> (\<forall>k. tx_offset u \<le> k \<longrightarrow> k < IBUF_SIZE \<longrightarrow> output_buf u ! k = 0)"

definition uart_frame :: "Machine \<Rightarrow> Machine \<Rightarrow> bool" where
  "uart_frame m m' \<longleftrightarrow> device_frame m m' \<and> aclint m' = aclint m \<and> virtio m' = virtio m
     \<and> dtb_buf m' = dtb_buf m \<and> system_now m' = system_now m \<and> (plic_good m \<longrightarrow> plic_good m')"

lemma uart_frame_refl [simp]: "uart_frame m m"
  by (simp add: uart_frame_def)

lemma uart_frame_trans [trans]: "uart_frame a b \<Longrightarrow> uart_frame b c \<Longrightarrow> uart_frame a c"
  unfolding uart_frame_def
  by (elim conjE, intro conjI, erule (1) device_frame_trans) (simp_all only:, blast)

lemma plic_good_cong:
  "plic m' = plic m \<Longrightarrow> mach_hart_count m' = mach_hart_count m \<Longrightarrow> hartlist m' = hartlist m \<Longrightarrow>
   plic_good m' = plic_good m"
  by (simp add: plic_good_def PLIC_CTX_COUNT_def)

lemma uart_frame_upd_uart [simp]: "uart_frame m (upd_uart f m)"
  using plic_good_cong[of "upd_uart f m" m]
  by (simp add: uart_frame_def upd_uart_def device_frame_same)

lemma uart_frame_plic:
  assumes f: "plic_frame m m'"
  shows "uart_frame m m'"
proof -
  have "plic_good m \<longrightarrow> plic_good m'" using plic_frame_good[OF f] by blast
  then show ?thesis using f by (simp add: uart_frame_def plic_frame_def)
qed

lemma uart_frame_pty [simp]: "uart_frame m (m\<lparr>pty := p\<rparr>)"
  using plic_good_cong[of "m\<lparr>pty := p\<rparr>" m] by (simp add: uart_frame_def device_frame_same)

lemma uart_good_upd_reg [simp]: "uart_good (upd_reg i f u) = uart_good u"
  by (simp add: uart_good_def upd_reg_def)

lemma upd_reg_simps [simp]:
  "tx_offset (upd_reg i f u) = tx_offset u" "output_buf (upd_reg i f u) = output_buf u"
  "tx_required (upd_reg i f u) = tx_required u" "pending_in (upd_reg i f u) = pending_in u"
  "write_ptr (upd_reg i f u) = write_ptr u" "read_ptr (upd_reg i f u) = read_ptr u"
  "input_buffer (upd_reg i f u) = input_buffer u" "dlab (upd_reg i f u) = dlab u"
  "length (uart_regs (upd_reg i f u)) = length (uart_regs u)"
  "uart_timeout (upd_reg i f u) = uart_timeout u"
  by (simp_all add: upd_reg_def)

lemma upd_reg_id: "upd_reg i (\<lambda>r. r) u = u"
  by (simp add: upd_reg_def)

lemma uart_sendint_effect:
  assumes "uart_sendint code m = Some m'"
  shows "uart_frame m m' \<and> (\<exists>f. uart m' = upd_reg 2 f (uart m)) \<and> pty m' = pty m"
proof (cases "m' = m")
  case True
  then show ?thesis using upd_reg_id by (metis uart_frame_refl)
next
  case False
  define f where "f = (\<lambda>r::u8. r AND NOT 0xF OR code AND 0xF)"
  have "plic_send_int 10 (upd_uart (upd_reg 2 f) m) = Some m'"
    using assms False by (auto simp: uart_sendint_def f_def split: if_splits)
  then have p: "plic_frame (upd_uart (upd_reg 2 f) m) m'" by (rule plic_send_int_frame)
  then have "uart m' = upd_reg 2 f (uart m)" "pty m' = pty m" by (simp_all add: plic_frame_def)
  moreover have "uart_frame m m'"
    using uart_frame_trans[OF uart_frame_upd_uart uart_frame_plic[OF p]] .
  ultimately show ?thesis by blast
qed

lemma pty_print_effect:
  assumes "pty_print buf m = Some m'"
  shows "uart_frame m m' \<and> uart m' = uart m \<and> plic m' = plic m"
  using assms by (auto simp: pty_print_def)

subsection \<open>The transmitter\<close>

text \<open>What is waiting to be printed: the stored characters up to the first zero byte.\<close>

definition tx_text :: "Uart \<Rightarrow> u8 list" where
  "tx_text u = takeWhile (\<lambda>b. b \<noteq> 0) (take (tx_offset u) (output_buf u))"

lemma uart_good_buffer:
  assumes "uart_good u"
  shows "output_buf u = take (tx_offset u) (output_buf u) @ replicate (IBUF_SIZE - tx_offset u) 0"
proof (rule nth_equalityI)
  show "length (output_buf u) = length (take (tx_offset u) (output_buf u) @ replicate (IBUF_SIZE - tx_offset u) 0)"
    using assms by (simp add: uart_good_def)
  fix i assume "i < length (output_buf u)"
  then show "output_buf u ! i = (take (tx_offset u) (output_buf u) @ replicate (IBUF_SIZE - tx_offset u) 0) ! i"
    using assms by (auto simp: uart_good_def nth_append)
qed

lemma c_string_buffer:
  assumes "uart_good u"
  shows "c_string (output_buf u) = Some (tx_text u)"
proof -
  have t: "tx_offset u \<le> 15" using assms by (simp add: uart_good_def)
  then have r: "replicate (IBUF_SIZE - tx_offset u) (0::u8) = 0 # replicate (15 - tx_offset u) 0"
    by (simp add: Suc_diff_le flip: replicate_Suc)
  show ?thesis
    unfolding c_string_def tx_text_def
    by (subst (1 2) uart_good_buffer[OF assms]) (auto simp: r takeWhile_append takeWhile_eq_all_conv[THEN iffD2])
qed

text \<open>
  The line-feed branch is dead: an iteration of the transmitter prints the waiting text, and
  nothing else, and empties the buffer.
\<close>

lemma uart_tx_effect:
  assumes g: "uart_good (uart m)" and t: "uart_tx m = Some m'"
  shows "uart_frame m m' \<and> uart_good (uart m') \<and> tx_offset (uart m') = 0 \<and> \<not> tx_required (uart m')
    \<and> pty_out (pty m') = pty_out (pty m) @ (if dbg_fallback (pty m) \<and> sig_mode m then [] else tx_text (uart m))"
proof -
  have len: "tx_offset (uart m) < length (output_buf (uart m))"
    and z: "output_buf (uart m) ! tx_offset (uart m) = 0"
    using g by (auto simp: uart_good_def)
  obtain m1 where p: "pty_print (output_buf (uart m)) m = Some m1" and r: "
      (do { let m2 = upd_uart (\<lambda>u. upd_reg 5 (\<lambda>r. r OR 0b1100000)
                (u\<lparr>tx_offset := 0, output_buf := replicate IBUF_SIZE 0\<rparr>)) m1;
       m3 \<leftarrow> (if bit (uart_regs (uart m2) ! 1) 1 then uart_sendint 0b0010 m2 else Some m2);
       Some (upd_uart (\<lambda>u. u\<lparr>tx_required := False\<rparr>) m3)}) = Some m'"
    using t len z by (auto simp: uart_tx_def nth_opt_def)
  define m2 where "m2 = upd_uart (\<lambda>u. upd_reg 5 (\<lambda>r. r OR 0b1100000)
                (u\<lparr>tx_offset := 0, output_buf := replicate IBUF_SIZE 0\<rparr>)) m1"
  have f1: "uart_frame m m1" "uart m1 = uart m" using pty_print_effect[OF p] by simp_all
  have o1: "pty_out (pty m1) = pty_out (pty m) @ (if dbg_fallback (pty m) \<and> sig_mode m then [] else tx_text (uart m))"
    using p c_string_buffer[OF g] by (auto simp: pty_print_def)
  have g2: "uart_good (uart m2)" "tx_offset (uart m2) = 0"
    using g f1(2) by (simp_all add: m2_def uart_good_def)
  have o2: "pty m2 = pty m1" and f2: "uart_frame m1 m2" by (simp_all add: m2_def)
  obtain m3 where m3: "m3 = m2 \<or> uart_sendint 0b0010 m2 = Some m3"
    and m': "m' = upd_uart (\<lambda>u. u\<lparr>tx_required := False\<rparr>) m3"
    using r unfolding m2_def[symmetric] Let_def by (auto split: if_splits)
  have e3: "uart_frame m2 m3" "\<exists>f. uart m3 = upd_reg 2 f (uart m2)" "pty m3 = pty m2"
    using m3 uart_sendint_effect upd_reg_id by (metis uart_frame_refl)+
  have g3: "uart_good (uart m3)" "tx_offset (uart m3) = 0" using e3(2) g2 by auto
  then have "uart_good (uart m')" by (simp add: m' uart_good_def)
  moreover have "uart_frame m m'"
    unfolding m' using f1(1) f2 e3(1) uart_frame_upd_uart uart_frame_trans by blast
  ultimately show ?thesis using g3 o1 o2 e3(3) by (simp add: m')
qed

lemma uart_tx_wait_effect:
  assumes g: "uart_good (uart m)" and t: "uart_tx_wait m = Some m'"
  shows "uart_frame m m' \<and> uart_good (uart m') \<and> \<not> tx_required (uart m')"
  using uart_tx_effect[OF g] t g by (auto simp: uart_tx_wait_def split: if_splits)

lemma uart_good_put:
  assumes g: "uart_good u" and n: "\<not> tx_required u"
  shows "uart_good (u\<lparr>output_buf := (output_buf u)[tx_offset u := c], tx_offset := Suc (tx_offset u),
    tx_required := Suc (tx_offset u) \<ge> IBUF_SIZE - 1 \<or> c = 0xa \<or> tx_required u\<rparr>)"
  using assms unfolding uart_good_def by (auto simp: nth_list_update)

lemma uart_put_effect:
  assumes g: "uart_good (uart m)" and t: "uart_put c m = Some m'"
  shows "uart_frame m m' \<and> uart_good (uart m')"
proof -
  define m1 where "m1 = (if uart_regs (uart m) ! 2 AND 0xF = 0b0010 then upd_uart uart_clearint m else m)"
  have g1: "uart_good (uart m1)" "uart_frame m m1" using g by (simp_all add: m1_def uart_clearint_def)
  obtain m2 where w: "uart_tx_wait m1 = Some m2"
    and m': "m' = upd_uart (\<lambda>u. upd_reg 5
        (\<lambda>r. if Suc (tx_offset (uart m2)) \<ge> IBUF_SIZE - 1 \<or> c = 0xa
             then r AND NOT 0b1000000 AND NOT 0b0100000 else r AND NOT 0b1000000)
        (u\<lparr>output_buf := (output_buf (uart m2))[tx_offset (uart m2) := c],
           tx_offset := Suc (tx_offset (uart m2)),
           tx_required := (Suc (tx_offset (uart m2)) \<ge> IBUF_SIZE - 1 \<or> c = 0xa) \<or> tx_required u\<rparr>)) m2"
    using t unfolding uart_put_def m1_def[symmetric] Let_def by auto
  have e: "uart_frame m1 m2" "uart_good (uart m2)" "\<not> tx_required (uart m2)"
    using uart_tx_wait_effect[OF g1(1) w] by simp_all
  have "uart_good (uart m')" using uart_good_put[OF e(2,3), of c] by (simp add: m' disj_assoc)
  moreover have "uart_frame m m'"
    unfolding m' using g1(2) e(1) uart_frame_upd_uart uart_frame_trans by blast
  ultimately show ?thesis by simp
qed

lemma uart_w_effect:
  assumes w: "uart_w off data n m = Some m'"
  shows "uart_good (uart m) \<Longrightarrow> uart_frame m m' \<and> uart_good (uart m')"
proof -
  assume g: "uart_good (uart m)"
  define x where "x = data AND mask (8 * 1)"
  define rs where "rs = (uart_regs (uart m))[unat off := ucast x]"
  define m1 where "m1 = upd_uart (\<lambda>u. u\<lparr>uart_regs := rs\<rparr>) m"
  have g1: "uart_good (uart m1)" "uart_frame m m1" using g by (simp_all add: m1_def rs_def uart_good_def)
  have u: "upd_uart (\<lambda>u. u) m1 = m1" by (simp add: upd_uart_def)
  have "(if off = 3 then Some (upd_uart (\<lambda>u. u\<lparr>dlab := bit (rs ! 3) 7\<rparr>) m1)
     else if off = 0 then uart_put (ucast x) m1
     else if off = 2 then Some (upd_uart (\<lambda>u. u\<lparr>fifo_trigger_lvl := uart_fifo (rs ! 2)\<rparr>) m1)
     else Some m1) = Some m'"
    using w unfolding uart_w_def Let_def rs_def x_def m1_def
    by (simp only: bind_eq_Some_iff data_as_Some upd_opt_Some) blast
  moreover have "uart_good ((uart m1)\<lparr>dlab := b\<rparr>)" "uart_good ((uart m1)\<lparr>fifo_trigger_lvl := l\<rparr>)" for b l
    using g1(1) by (simp_all add: uart_good_def)
  ultimately show "uart_frame m m' \<and> uart_good (uart m')"
    using g1 uart_put_effect[OF g1(1), of "ucast x" m'] uart_frame_trans[OF g1(2)]
    by (auto split: if_splits)
qed

lemma uart_read_reg_good:
  "uart_read_reg off u = Some (x, u') \<Longrightarrow> uart_good u \<Longrightarrow> uart_good u'"
  by (auto simp: uart_read_reg_def uart_good_def split: if_splits)

lemma uart_r_effect:
  assumes r: "uart_r off n m = Some (v, m')"
  shows "uart_frame m m' \<and> (uart_good (uart m) \<longrightarrow> uart_good (uart m')) \<and> pty m' = pty m"
proof -
  obtain x u1 where u1: "uart_read_reg off (uart m) = Some (x, u1)"
    and m': "m' = upd_uart (\<lambda>_. uart_set_dr
      (if off = 2 \<and> uart_regs u1 ! 2 AND 0xF = 0b0010 then uart_clearint u1 else u1)) m"
    using r by (auto simp: uart_r_def Let_def split: prod.splits)
  then show ?thesis
    using uart_read_reg_good[OF u1] by (simp add: uart_set_dr_def uart_clearint_def)
qed

definition uart_dev_good :: "Machine \<Rightarrow> bool" where
  "uart_dev_good m \<longleftrightarrow> plic_good m \<and> uart_good (uart m)"

lemma uart_frame_device: "uart_frame m m' \<Longrightarrow> device_frame m m'"
  by (simp add: uart_frame_def)

subsection \<open>Receiving\<close>

lemma uart_rx_effect:
  assumes g: "uart_good (uart m)" and t: "uart_rx ch m = Some m'"
  shows "uart_frame m m' \<and> uart_good (uart m')"
proof (cases "ch = 0xFF")
  case True
  then show ?thesis using t g by (simp add: uart_rx_def)
next
  case False
  define m1 where "m1 = upd_uart (\<lambda>u. u\<lparr>input_buffer := (input_buffer (uart m))[write_ptr (uart m) := ch],
      write_ptr := Suc (write_ptr u), pending_in := pending_in u + 1\<rparr>) m"
  have w: "write_ptr (uart m) < IBUF_SIZE"
    using t False g by (auto simp: uart_rx_def uart_good_def)
  then have g1: "uart_good (uart m1)" using g by (simp add: m1_def uart_good_def)
  obtain m2 where m2: "m2 = m1 \<or> uart_sendint 0b0100 m1 = Some m2"
    and m': "m' = upd_uart (\<lambda>u. u\<lparr>write_ptr := (if write_ptr u > IBUF_SIZE then 0 else write_ptr u)\<rparr>) m2"
    using t False unfolding uart_rx_def m1_def Let_def by (auto split: if_splits)
  have e: "uart_frame m1 m2" "\<exists>f. uart m2 = upd_reg 2 f (uart m1)"
    using m2 uart_sendint_effect upd_reg_id by (metis uart_frame_refl)+
  have "uart_good (uart m2)" using e(2) g1 by auto
  then have "uart_good (uart m')" by (simp add: m' uart_good_def)
  moreover have "uart_frame m m'"
    unfolding m' using uart_frame_upd_uart e(1) uart_frame_trans m1_def by blast
  ultimately show ?thesis by simp
qed

text \<open>The position after the buffer's last element is written before the pointer is wrapped.\<close>

lemma uart_rx_overflow:
  assumes "uart_good (uart m)" "write_ptr (uart m) = IBUF_SIZE" "ch \<noteq> 0xFF"
  shows "uart_rx ch m = None"
  using assms by (simp add: uart_rx_def uart_good_def)

lemma uart_sendint_step:
  assumes "(if b then uart_sendint code m else Some m) = Some m'" and "uart_good (uart m)"
  shows "uart_frame m m' \<and> uart_good (uart m') \<and> tx_offset (uart m') = tx_offset (uart m)"
  using assms uart_sendint_effect by (fastforce split: if_splits)

lemma uart_chk_timeout_effect:
  assumes t: "uart_chk_timeout m = Some m'" and g: "uart_good (uart m)"
  shows "uart_frame m m' \<and> uart_good (uart m')"
proof -
  define m1 where "m1 = upd_uart (\<lambda>u. u\<lparr>uart_timeout :=
                (if pending_in u > 0 then uart_timeout u + 1 else uart_timeout u)\<rparr>) m"
  have e1: "uart_frame m m1" "uart_good (uart m1)" using g by (simp_all add: m1_def uart_good_def)
  show ?thesis
  proof (cases "m' = m1")
    case True
    then show ?thesis using e1 by simp
  next
    case False
    then obtain m2 where s: "uart_sendint 0b0100 m1 = Some m2"
      and m': "m' = upd_uart (\<lambda>u. u\<lparr>uart_timeout := 0\<rparr>) m2"
      using t unfolding uart_chk_timeout_def m1_def[symmetric] Let_def by (auto split: if_splits)
    have "uart_frame m1 m2" "uart_good (uart m2)" using uart_sendint_effect[OF s] e1(2) by auto
    then show ?thesis
      using uart_frame_trans[OF uart_frame_trans[OF e1(1)] uart_frame_upd_uart]
      by (simp add: m' uart_good_def)
  qed
qed

lemma uart_chk_tx_effect:
  assumes r: "uart_chk_tx m = Some m'" and g: "uart_good (uart m)"
  shows "uart_frame m m' \<and> uart_good (uart m')"
proof (cases "tx_offset (uart m) = 0")
  case True
  define m4 where "m4 = upd_uart (upd_reg 5 (\<lambda>r. r OR 0b1100000)) m"
  have e4: "uart_frame m m4" "uart_good (uart m4)" using g by (simp_all add: m4_def)
  have "(if bit (uart_regs (uart m4) ! 1) 1 then uart_sendint 0b0010 m4 else Some m4) = Some m'"
    using r True unfolding m4_def by (simp add: uart_chk_tx_def Let_def)
  then show ?thesis using uart_sendint_step[OF _ e4(2)] uart_frame_trans[OF e4(1)] by blast
next
  case False
  then have "m' = upd_uart (\<lambda>u. u\<lparr>tx_required := True\<rparr>) m" using r by (simp add: uart_chk_tx_def)
  moreover have "uart_good ((uart m)\<lparr>tx_required := True\<rparr>)" using g by (simp add: uart_good_def)
  ultimately show ?thesis by simp
qed

lemma uart_chk_effect:
  assumes g: "uart_good (uart m)" and t: "uart_chk ch m = Some m'"
  shows "uart_frame m m' \<and> uart_good (uart m')"
proof -
  obtain m1 m2 where "uart_rx ch m = Some m1" "uart_chk_timeout m1 = Some m2" "uart_chk_tx m2 = Some m'"
    using t by (auto simp: uart_chk_def)
  then show ?thesis
    using g uart_rx_effect uart_chk_timeout_effect uart_chk_tx_effect uart_frame_trans by meson
qed

interpretation uart_dev: mmio_device uart_dev_good uart_r uart_w
proof unfold_locales
  fix off :: u64 and n m v m'
  assume g: "uart_dev_good m" and r: "uart_r off n m = Some (v, m')"
  note e = uart_r_effect[OF r]
  show "device_frame m m'" using e uart_frame_device by blast
  show "uart_dev_good m'" using g e by (auto simp: uart_dev_good_def uart_frame_def)
next
  fix off data :: u64 and n m m'
  assume g: "uart_dev_good m" and w: "uart_w off data n m = Some m'"
  note e = uart_w_effect[OF w]
  show "device_frame m m'" using g e uart_frame_device by (auto simp: uart_dev_good_def)
  show "uart_dev_good m'" using g e by (auto simp: uart_dev_good_def uart_frame_def)
qed

text \<open>
  C28. A character received while nothing is waiting is the next one the guest reads from the data
  register, and then nothing is waiting again.
\<close>

lemma uart_rx_read:
  assumes g: "uart_good (uart m)" and e: "pending_in (uart m) = 0" "read_ptr (uart m) = write_ptr (uart m)"
    and d: "\<not> dlab (uart m)" and rx: "uart_rx ch m = Some m'" and ch: "ch \<noteq> 0xFF"
  shows "\<exists>m''. uart_r 0 1 m' = Some (view64 (scast ch), m'') \<and> pending_in (uart m'') = 0"
proof -
  have w: "write_ptr (uart m) < IBUF_SIZE"
    using rx ch g by (auto simp: uart_rx_def uart_good_def)
  define m1 where "m1 = upd_uart (\<lambda>u. u\<lparr>input_buffer := (input_buffer (uart m))[write_ptr (uart m) := ch],
      write_ptr := Suc (write_ptr u), pending_in := pending_in u + 1\<rparr>) m"
  obtain m2 where m2: "m2 = m1 \<or> uart_sendint 0b0100 m1 = Some m2"
    and m': "m' = upd_uart (\<lambda>u. u\<lparr>write_ptr := (if write_ptr u > IBUF_SIZE then 0 else write_ptr u)\<rparr>) m2"
    using rx ch unfolding uart_rx_def m1_def Let_def by (auto split: if_splits)
  have "\<exists>f. uart m2 = upd_reg 2 f (uart m1)"
    using m2 uart_sendint_effect upd_reg_id by metis
  then have "input_buffer (uart m') ! read_ptr (uart m') = ch" "pending_in (uart m') = 1" "\<not> dlab (uart m')"
    "read_ptr (uart m') < length (input_buffer (uart m'))"
    using w g e d by (auto simp: m' m1_def uart_good_def)
  then have "uart_read_reg 0 (uart m') = Some (scast ch, (uart m')\<lparr>
      read_ptr := (if Suc (read_ptr (uart m')) > IBUF_SIZE then 0 else Suc (read_ptr (uart m'))),
      pending_in := 0\<rparr>)"
    by (simp add: uart_read_reg_def nth_opt_def)
  then show ?thesis by (simp add: uart_r_def uart_set_dr_def)
qed

lemma uart_rx_write_ptr:
  assumes "uart_good (uart m)" and "uart_rx ch m = Some m'" and "ch \<noteq> 0xFF" and "write_ptr (uart m) < IBUF_SIZE"
  shows "write_ptr (uart m') = Suc (write_ptr (uart m))"
proof -
  define m1 where "m1 = upd_uart (\<lambda>u. u\<lparr>input_buffer := (input_buffer (uart m))[write_ptr (uart m) := ch],
      write_ptr := Suc (write_ptr u), pending_in := pending_in u + 1\<rparr>) m"
  obtain m2 where m2: "m2 = m1 \<or> uart_sendint 0b0100 m1 = Some m2"
    and m': "m' = upd_uart (\<lambda>u. u\<lparr>write_ptr := (if write_ptr u > IBUF_SIZE then 0 else write_ptr u)\<rparr>) m2"
    using assms(2,3) unfolding uart_rx_def m1_def Let_def by (auto split: if_splits)
  have "\<exists>f. uart m2 = upd_reg 2 f (uart m1)"
    using m2 uart_sendint_effect upd_reg_id by metis
  then have "write_ptr (uart m2) = write_ptr (uart m1)" by auto
  then show ?thesis using assms(4) by (simp add: m' m1_def)
qed

text \<open>
  C39. The input ring is one byte too short: starting from an empty buffer, whatever the interrupt
  set-up, seventeen characters cannot be received without the code writing past the array.
\<close>

lemma uart_seventeen_characters:
  assumes "uart_good (uart m)" and "write_ptr (uart m) = 0" and "0xFF \<notin> set chs" and "length chs = 17"
  shows "for_each uart_rx chs m = None"
proof (rule ccontr)
  assume "for_each uart_rx chs m \<noteq> None"
  moreover have "for_each uart_rx (take n chs) m = Some m' \<Longrightarrow> uart_good (uart m') \<and> write_ptr (uart m') = n"
    if "n \<le> 16" for n m'
    using that
  proof (induction n arbitrary: m')
    case 0
    then show ?case using assms by simp
  next
    case (Suc n)
    have t: "take (Suc n) chs = take n chs @ [chs ! n]"
      using Suc.prems(2) assms(4) by (simp add: take_Suc_conv_app_nth)
    then obtain s where s: "for_each uart_rx (take n chs) m = Some s" "uart_rx (chs ! n) s = Some m'"
      using Suc.prems(1) by (auto simp: for_each_append)
    note ih = Suc.IH[OF s(1)]
    have "chs ! n \<in> set chs" using assms(4) Suc.prems(2) by simp
    then have "chs ! n \<noteq> 0xFF" using assms(3) by metis
    then show ?case
      using ih Suc.prems(2) uart_rx_write_ptr[OF _ s(2)] uart_rx_effect[OF _ s(2)] by simp
  qed
  moreover have "chs = take 16 chs @ [chs ! 16]"
    using assms(4) take_Suc_conv_app_nth[of 16 chs] by simp
  ultimately obtain s m' where s: "for_each uart_rx (take 16 chs) m = Some s" "uart_rx (chs ! 16) s = Some m'"
    and w: "uart_good (uart s)" "write_ptr (uart s) = 16"
    using for_each_append[of uart_rx "take 16 chs" "[chs ! 16]" m] by (auto split: Option.bind_splits)
  have "chs ! 16 \<in> set chs" using assms(4) by simp
  then have "chs ! 16 \<noteq> 0xFF" using assms(3) by metis
  then show False using s(2) uart_rx_overflow[OF w] by simp
qed

text \<open>
  C29. The transmitter thread prints exactly the characters collected so far, up to the first NUL (nothing
  in signature mode without a terminal), empties the buffer and releases the writer.
\<close>

lemma uart_transmits:
  assumes "uart_good (uart m)" and "uart_tx m = Some m'"
  shows "pty_out (pty m') = pty_out (pty m) @
      (if dbg_fallback (pty m) \<and> sig_mode m then [] else tx_text (uart m))
    \<and> tx_offset (uart m') = 0 \<and> \<not> tx_required (uart m') \<and> uart_good (uart m')"
  using uart_tx_effect[OF assms] by simp

end
