(* ===== verification/Virtio.thy ===== *)
theory Virtio
  imports Machine
begin

text \<open>
  The virtio-mmio block device, \<open>virtio_mmio_blk.cpp\<close>: a register file without a back end
  (its I/O thread is never started).  The packed structures \<open>virtio_dev_cfg\<close>,
  \<open>virtqueue\<close> and \<open>virtio_mmio_blk_config\<close> consist of 32-bit words and are accessed as such.
\<close>

subsection \<open>Layout\<close>

abbreviation (input) DEVCFG_WORDS :: nat where "DEVCFG_WORDS \<equiv> 59"
abbreviation (input) VIRTQUEUE_WORDS :: nat where "VIRTQUEUE_WORDS \<equiv> 58"

text \<open>The default member initialisers of \<open>virtio_dev_cfg\<close>; everything else is zero.\<close>

definition virtio_dev_cfg :: "u32 list" where
  "virtio_dev_cfg = [0x74726976, 0x2] @ replicate 57 0"

definition virtqueue :: "u32 list" where
  "virtqueue = replicate VIRTQUEUE_WORDS 0"

definition virtio_globals :: Virtio where
  "virtio_globals = \<lparr>blk_devcfg = virtio_dev_cfg, blk_queues = virtqueue, vblkcfg = [0, 0],
     configgen = 0, blk_end = False\<rparr>"

definition upd_virtio :: "(Virtio \<Rightarrow> Virtio) \<Rightarrow> Machine \<Rightarrow> Machine" where
  "upd_virtio f m = m\<lparr>virtio := f (virtio m)\<rparr>"

text \<open>The words \<open>deviceid\<close> (2), \<open>vendorid\<close> (3) and \<open>devfeat\<close> (4).\<close>

definition virtio_mmio_blk_init :: "Machine \<Rightarrow> Machine" where
  "virtio_mmio_blk_init m =
     upd_virtio (\<lambda>v. v\<lparr>blk_devcfg := (blk_devcfg v)[2 := 2, 3 := 0x554d4551, 4 := 0]\<rparr>) m"

definition virtio_mmio_blk_uninit :: "Machine \<Rightarrow> Machine" where
  "virtio_mmio_blk_uninit m = upd_virtio (\<lambda>v. v\<lparr>blk_end := True\<rparr>) m"

text \<open>The words \<open>devfeatsel\<close> (5), \<open>drifeatsel\<close> (9) and \<open>queuesel\<close> (12).\<close>

definition virtio_sel :: "Virtio \<Rightarrow> u64 \<Rightarrow> u64" where
  "virtio_sel v off =
    (let off1 = (if off = 0x010 then off + 8 * ucast (blk_devcfg v ! 5) else off)
     in if off1 = 0x020 then off1 + 8 * ucast (blk_devcfg v ! 9) else off1)"

definition queue_base :: "Virtio \<Rightarrow> nat" where
  "queue_base v = VIRTQUEUE_WORDS * unat (blk_devcfg v ! 12)"

subsection \<open>Accesses\<close>

definition virtio_mmio_blk_r :: "u64 \<Rightarrow> nat \<Rightarrow> Machine \<Rightarrow> (view \<times> Machine) option" where
  "virtio_mmio_blk_r off len m =
    (let v = virtio m
     in Some
      (if off \<le> 0x30 then view_words (blk_devcfg v) (unat (virtio_sel v off) div 4)
       else if 0x50 \<le> off \<and> off \<le> 0x70 then view_words (blk_devcfg v) (unat off div 4)
       else if 0x34 \<le> off \<and> off \<le> 0xa4 then
         view_words (blk_queues v) (queue_base v + (unat off - 0x34) div 4)
       else if off = 0xfc then view32 (configgen v)
       else if 0x100 \<le> off then view_words (vblkcfg v) ((unat off - 0x100) div 4)
       else ZERO, m))"

text \<open>
  The macro \<open>SAO(st,off)\<close> does not parenthesise \<open>off\<close>: \<open>SAO(q, offset - 0x34)\<close> is the word
  \<open>offset - 0x34 / 4\<close> behind \<open>q\<close>, not the word \<open>(offset - 0x34) / 4\<close>.
\<close>

definition virtio_mmio_blk_w :: "u64 \<Rightarrow> u64 \<Rightarrow> nat \<Rightarrow> Machine \<Rightarrow> Machine option" where
  "virtio_mmio_blk_w off0 data len m = do {
     let v = virtio m;
     let off = (if off0 \<le> 0x30 then virtio_sel v off0 else off0);
     v1 \<leftarrow> (if off0 \<le> 0x30 then do {
              x \<leftarrow> data_as 4 len data;
              ws \<leftarrow> upd_opt (blk_devcfg v) (unat off div 4) (ucast x);
              Some (v\<lparr>blk_devcfg := ws\<rparr>) } else Some v);
     v2 \<leftarrow> (if 0x50 \<le> off \<and> off \<le> 0x70 then do {
              x \<leftarrow> data_as 4 len data;
              ws \<leftarrow> upd_opt (blk_devcfg v1) (unat off div 4) (ucast x);
              Some (v1\<lparr>blk_devcfg := ws\<rparr>) } else Some v1);
     v3 \<leftarrow> (if 0x34 \<le> off \<and> off \<le> 0xa4 then do {
              x \<leftarrow> data_as 4 len data;
              ws \<leftarrow> upd_opt (blk_queues v2) (queue_base v2 + unat off - 0x34 div 4) (ucast x);
              Some (v2\<lparr>blk_queues := ws\<rparr>) } else Some v2);
     v4 \<leftarrow> (if 0x100 \<le> off then do {
              x \<leftarrow> data_as 4 len data;
              ws \<leftarrow> upd_opt (vblkcfg v3) (unat off - 0x100 div 4) (ucast x);
              Some (v3\<lparr>vblkcfg := ws\<rparr>) } else Some v3);
     Some (upd_virtio (\<lambda>_. v4) m)
   }"

subsection \<open>The device contract\<close>

definition virtio_good :: "Machine \<Rightarrow> bool" where
  "virtio_good m \<longleftrightarrow> length (blk_devcfg (virtio m)) = DEVCFG_WORDS
     \<and> length (blk_queues (virtio m)) = VIRTQUEUE_WORDS \<and> length (vblkcfg (virtio m)) = 2"

lemma device_frame_upd_virtio: "device_frame m (upd_virtio f m)"
  by (simp add: upd_virtio_def device_frame_def list_all2_refl)

lemma virtio_w_upd: "virtio_mmio_blk_w off data n m = Some m' \<Longrightarrow> \<exists>f. m' = upd_virtio f m"
  by (auto simp: virtio_mmio_blk_w_def Let_def)

lemma virtio_w_good:
  assumes "virtio_mmio_blk_w off data n m = Some m'" and "virtio_good m"
  shows "virtio_good m'"
  using assms unfolding virtio_mmio_blk_w_def Let_def virtio_good_def upd_virtio_def
  by (auto split: if_splits)

interpretation virtio_dev: mmio_device virtio_good virtio_mmio_blk_r virtio_mmio_blk_w
proof unfold_locales
  fix off :: u64 and n m v m'
  assume g: "virtio_good m" and r: "virtio_mmio_blk_r off n m = Some (v, m')"
  have "m' = m" using r by (simp add: virtio_mmio_blk_r_def Let_def)
  then show "device_frame m m'" "virtio_good m'" using g by simp_all
next
  fix off data :: u64 and n m m'
  assume g: "virtio_good m" and w: "virtio_mmio_blk_w off data n m = Some m'"
  show "device_frame m m'" using virtio_w_upd[OF w] device_frame_upd_virtio by blast
  show "virtio_good m'" by (rule virtio_w_good[OF w g])
qed

subsection \<open>Behaviour\<close>

lemma ucast_mask_32: "(ucast (data AND mask 32 :: u64) :: u32) = ucast data"
  by (rule bit_word_eqI) (simp add: bit_simps)

text \<open>
  A configuration register of the block device below the queue registers reads back the low
  word of what was written.
\<close>

lemma virtio_config_readback:
  assumes g: "virtio_good m" and o: "off \<le> 0x30" "off \<noteq> 0x10" "off \<noteq> 0x20" and n: "4 \<le> n"
  shows "\<exists>m'. virtio_mmio_blk_w off data n m = Some m' \<and>
    mmio_load virtio_mmio_blk_r off 4 m' = Some (ucast (ucast data :: u32), m')"
proof -
  have k: "unat off div 4 < DEVCFG_WORDS" using o(1) by (simp add: word_le_nat_alt)
  have s: "virtio_sel v off = off" for v using o by (simp add: virtio_sel_def)
  have l: "\<not> 0x34 \<le> off" "\<not> 0x50 \<le> off" "\<not> 0x100 \<le> off" using o(1) by (simp_all add: word_le_nat_alt)
  define v' where "v' = (virtio m)\<lparr>blk_devcfg := (blk_devcfg (virtio m))[unat off div 4 := ucast data]\<rparr>"
  have "virtio_mmio_blk_w off data n m = Some (upd_virtio (\<lambda>_. v') m)"
    using g k n l o(1) by (simp add: virtio_mmio_blk_w_def Let_def s v'_def virtio_good_def upd_opt_def data_as_def ucast_mask_32)
  moreover have "mmio_load virtio_mmio_blk_r off 4 (upd_virtio (\<lambda>_. v') m) =
      Some (ucast (ucast data :: u32), upd_virtio (\<lambda>_. v') m)"
    using g k o(1) load_view_words[of "unat off div 4" "blk_devcfg v'"]
    by (simp add: mmio_load_def virtio_mmio_blk_r_def s v'_def upd_virtio_def virtio_good_def)
  ultimately show ?thesis by blast
qed

text \<open>
  C40. A write to a queue register of queue 0 lands in a different word of the queue structure: the
  byte offset is used as a word index, and reading the register back returns its old value.
\<close>

lemma virtio_queue_write_misplaced:
  assumes g: "virtio_good m" and q: "blk_devcfg (virtio m) ! 12 = 0"
    and o: "0x34 \<le> off" "off \<le> 0x46" and n: "4 \<le> n"
  shows "\<exists>m'. virtio_mmio_blk_w off data n m = Some m' \<and>
    blk_queues (virtio m') = (blk_queues (virtio m))[unat off - 13 := ucast data] \<and>
    mmio_load virtio_mmio_blk_r off 4 m' = Some (ucast (blk_queues (virtio m) ! ((unat off - 0x34) div 4)), m')"
proof -
  have u: "0x34 \<le> unat off" "unat off \<le> 0x46" using o by (simp_all add: word_le_nat_alt)
  have l: "\<not> off \<le> 0x30" "\<not> 0x50 \<le> off" "off \<le> 0xa4" "\<not> 0x100 \<le> off"
    using u by (simp_all add: word_le_nat_alt)
  define v' where "v' = (virtio m)\<lparr>blk_queues := (blk_queues (virtio m))[unat off - 13 := ucast data]\<rparr>"
  have "virtio_mmio_blk_w off data n m = Some (upd_virtio (\<lambda>_. v') m)"
    using g q n l o u
    by (simp add: virtio_mmio_blk_w_def Let_def v'_def virtio_good_def upd_opt_def queue_base_def data_as_def ucast_mask_32)
  moreover have "mmio_load virtio_mmio_blk_r off 4 (upd_virtio (\<lambda>_. v') m) =
      Some (ucast (blk_queues (virtio m) ! ((unat off - 0x34) div 4)), upd_virtio (\<lambda>_. v') m)"
  proof -
    have k: "(unat off - 0x34) div 4 < length (blk_queues v')" "(unat off - 0x34) div 4 \<noteq> unat off - 13"
      using g u by (auto simp: v'_def virtio_good_def)
    have e: "blk_queues v' ! ((unat off - 0x34) div 4) = blk_queues (virtio m) ! ((unat off - 0x34) div 4)"
      using k(2) by (simp add: v'_def)
    have "virtio_mmio_blk_r off 4 (upd_virtio (\<lambda>_. v') m) =
        Some (view_words (blk_queues v') ((unat off - 0x34) div 4), upd_virtio (\<lambda>_. v') m)"
      using q o l by (simp add: virtio_mmio_blk_r_def upd_virtio_def queue_base_def v'_def)
    then show ?thesis using load_view_words[OF k(1)] e by (simp add: mmio_load_def)
  qed
  ultimately show ?thesis by (auto simp: upd_virtio_def v'_def)
qed

lemma virtio_queue_write_undefined:
  assumes g: "virtio_good m" and o: "0x71 \<le> off" "off \<le> 0xa4"
  shows "virtio_mmio_blk_w off data n m = None"
proof -
  have u: "0x71 \<le> unat off" using o by (simp add: word_le_nat_alt)
  have "\<not> off \<le> 0x30" "\<not> off \<le> 0x70" "0x34 \<le> off" using u by (simp_all add: word_le_nat_alt)
  then show ?thesis
    using g u o by (auto simp: virtio_mmio_blk_w_def Let_def virtio_good_def queue_base_def)
qed

end
