(* ===== verification/Physmem.thy ===== *)
theory Physmem
  imports Pmp Tlb Uart Virtio
begin

text \<open>
  Physical memory: the memory map of \<open>mem.h\<close>, the device-tree buffer, and the templates
  \<open>phy_mem_fetch\<close>, \<open>phy_mem_store\<close>, \<open>mem_fetch\<close> and \<open>mem_store\<close> of \<open>mem.ipp\<close> with their
  byte specialisations in \<open>mem.cpp\<close>.  The template argument is its size \<open>n\<close> in bytes, and
  an \<open>n\<close>-byte value is a \<open>u64\<close> below \<open>256 ^ n\<close>.  \<open>h\<close> is the index of the hart passed by
  reference.
\<close>

subsection \<open>RAM\<close>

text \<open>\<open>new uint8_t[MACH_MEM_SIZE] {0}\<close>\<close>

definition mem_init :: "Machine \<Rightarrow> Machine" where
  "mem_init m = m\<lparr>main_mem := \<lambda>_. 0, reservations := replicate (unat (mach_hart_count m)) 0\<rparr>"

definition ram_index :: "u64 \<Rightarrow> u64" where
  "ram_index addr = addr - 0x80000000"

definition ram_ok :: "nat \<Rightarrow> u64 \<Rightarrow> Machine \<Rightarrow> bool" where
  "ram_ok n addr m \<longleftrightarrow> unat (ram_index addr) + n \<le> unat (mach_mem_size m)"

definition ram_load :: "nat \<Rightarrow> u64 \<Rightarrow> (u64 \<Rightarrow> u8) \<Rightarrow> u64" where
  "ram_load n i mem = of_le_bytes (map (\<lambda>k. mem (i + of_nat k)) [0..<n])"

fun ram_store :: "nat \<Rightarrow> u64 \<Rightarrow> u64 \<Rightarrow> (u64 \<Rightarrow> u8) \<Rightarrow> u64 \<Rightarrow> u8" where
  "ram_store 0 i data mem = mem"
| "ram_store (Suc n) i data mem = (ram_store n i data mem)(i + of_nat n := le_bytes data n)"

subsection \<open>The device tree\<close>

definition dtb_r :: "u64 \<Rightarrow> nat \<Rightarrow> Machine \<Rightarrow> (view \<times> Machine) option" where
  "dtb_r off len m = Some ((MAX_DTB_SIZE - unat off, \<lambda>j. dtb_buf m (unat off + j)), m)"

text \<open>
  The switch is on a length in bits, although the callers pass bytes: only the 8-byte store
  matches a case, the one for a single byte.
\<close>

definition dtb_put :: "nat \<Rightarrow> nat \<Rightarrow> u64 \<Rightarrow> Machine \<Rightarrow> Machine option" where
  "dtb_put k off data m = do {
     guard (off + k \<le> MAX_DTB_SIZE);
     Some (m\<lparr>dtb_buf := \<lambda>i. if off \<le> i \<and> i < off + k then le_bytes data (i - off) else dtb_buf m i\<rparr>)
   }"

definition dtb_w :: "u64 \<Rightarrow> u64 \<Rightarrow> nat \<Rightarrow> Machine \<Rightarrow> Machine option" where
  "dtb_w off data len m =
    (if len = 8 then do { x \<leftarrow> data_as 1 len data; dtb_put 1 (unat off) x m }
     else if len = 16 then do { x \<leftarrow> data_as 2 len data; dtb_put 2 (unat off) x m }
     else if len = 32 then do { x \<leftarrow> data_as 4 len data; dtb_put 4 (unat off) x m }
     else if len = 64 then do { x \<leftarrow> data_as 8 len data; dtb_put 8 (unat off) x m }
     else Some m)"

subsection \<open>The memory map\<close>

datatype Handler = H_virtio | H_uart | H_plic | H_mtimer | H_mswi | H_dtb

record Memmap_Entry =
  base :: u64
  msize :: u64
  handler :: Handler

definition mem_map :: "Memmap_Entry list" where
  "mem_map =
    [\<lparr>base = 0x10001000, msize = 0x1000, handler = H_virtio\<rparr>,
     \<lparr>base = 0x10000000, msize = 16, handler = H_uart\<rparr>,
     \<lparr>base = 0xC000000, msize = 0x4000000, handler = H_plic\<rparr>,
     \<lparr>base = 0x2004000, msize = 0x8000, handler = H_mtimer\<rparr>,
     \<lparr>base = 0x2000000, msize = 0x4000, handler = H_mswi\<rparr>,
     \<lparr>base = 0x1100, msize = 32768, handler = H_dtb\<rparr>]"

fun handler_r :: "Handler \<Rightarrow> u64 \<Rightarrow> nat \<Rightarrow> Machine \<Rightarrow> (view \<times> Machine) option" where
  "handler_r H_virtio = virtio_mmio_blk_r"
| "handler_r H_uart = uart_r"
| "handler_r H_plic = plic_r"
| "handler_r H_mtimer = aclint_mtimer_r"
| "handler_r H_mswi = aclint_mswi_r"
| "handler_r H_dtb = dtb_r"

fun handler_w :: "Handler \<Rightarrow> u64 \<Rightarrow> u64 \<Rightarrow> nat \<Rightarrow> Machine \<Rightarrow> Machine option" where
  "handler_w H_virtio = virtio_mmio_blk_w"
| "handler_w H_uart = uart_w"
| "handler_w H_plic = plic_w"
| "handler_w H_mtimer = aclint_mtimer_w"
| "handler_w H_mswi = aclint_mswi_w"
| "handler_w H_dtb = dtb_w"

text \<open>\<open>int64_t offset = addr - base; 0 <= offset && offset < size\<close>\<close>

definition entry_hit :: "u64 \<Rightarrow> Memmap_Entry \<Rightarrow> bool" where
  "entry_hit addr e \<longleftrightarrow> 0 \<le> sint (addr - base e) \<and> sint (addr - base e) < sint (msize e)"

definition boot_rom_content :: "u8 list" where
  "boot_rom_content =
    [0x13, 0x04, 0x10, 0x00,
     0x13, 0x14, 0xf4, 0x01,
     0x67, 0x00, 0x04, 0x00]"

text \<open>The object a physical address below the RAM designates for a read: the map is searched backwards.\<close>

definition rom_load :: "nat \<Rightarrow> u64 \<Rightarrow> u64 option" where
  "rom_load n addr = do {
     guard (unat (addr - 0x1000) + n \<le> 12);
     Some (of_le_bytes (take n (drop (unat (addr - 0x1000)) boot_rom_content)))
   }"

definition phy_mem_fetch :: "nat \<Rightarrow> u64 \<Rightarrow> Machine \<Rightarrow> (u64 \<times> Machine) option" where
  "phy_mem_fetch n addr m =
    (if addr \<ge> 0x80000000 then do {
       guard (ram_ok n addr m);
       Some (ram_load n (ram_index addr) (main_mem m), m) }
     else case find (entry_hit addr) (rev mem_map) of
       Some e \<Rightarrow> do {
         (v, m') \<leftarrow> handler_r (handler e) (addr - base e) n m;
         x \<leftarrow> load_view v n;
         Some (x, m') }
     | None \<Rightarrow>
         if 0x1000 \<le> addr \<and> addr < 0x1000 + 12 then do { x \<leftarrow> rom_load n addr; Some (x, m) }
         else Some (0xFF, m))"

definition phy_mem_store :: "nat \<Rightarrow> u64 \<Rightarrow> u64 \<Rightarrow> Machine \<Rightarrow> Machine option" where
  "phy_mem_store n addr data m =
    (if addr \<ge> 0x80000000 then do {
       guard (ram_ok n addr m);
       Some (m\<lparr>main_mem := ram_store n (ram_index addr) data (main_mem m)\<rparr>) }
     else case find (entry_hit addr) mem_map of
       Some e \<Rightarrow> handler_w (handler e) (addr - base e) data n m
     | None \<Rightarrow> Some m)"

subsection \<open>Protected accesses\<close>

definition set_mem_status :: "bool \<Rightarrow> HartState \<Rightarrow> HartState" where
  "set_mem_status b hs = hs\<lparr>mem_status := b\<rparr>"

definition mem_in_range :: "u64 \<Rightarrow> Machine \<Rightarrow> bool" where
  "mem_in_range addr m \<longleftrightarrow> \<not> (addr < 0x1000 \<or> addr \<ge> 0x80000000 + mach_mem_size m)"

text \<open>
  The four tests on the code returned for the range, in the order of the source; \<open>load\<close> is
  \<open>hs.mem_status\<close>.
\<close>

definition fetch_denied :: "HartState \<Rightarrow> u8 \<Rightarrow> bool" where
  "fetch_denied hs st \<longleftrightarrow>
     st = 0xF7 \<or> (st = 0xFF \<and> privmode hs < 0b11)
     \<or> (mem_status hs \<and> \<not> bit st 0) \<or> (\<not> (mem_status hs \<or> bit st 2))"

definition store_denied :: "HartState \<Rightarrow> u8 \<Rightarrow> bool" where
  "store_denied hs st \<longleftrightarrow> st = 0xF7 \<or> (st = 0xFF \<and> privmode hs < 0b11) \<or> \<not> bit st 1"

definition mem_fetch_T :: "nat \<Rightarrow> nat \<Rightarrow> u64 \<Rightarrow> Machine \<Rightarrow> (u64 \<times> Machine) option" where
  "mem_fetch_T h n addr m =
    (if \<not> mem_in_range addr m
        \<or> fetch_denied (hart h m) (chk_pmp_range_exp (hart h m) addr (addr + of_nat n - 1))
     then Some (0, upd_hart h (set_mem_status True) m)
     else phy_mem_fetch n addr (upd_hart h (set_mem_status False) m))"

definition mem_store_T :: "nat \<Rightarrow> nat \<Rightarrow> u64 \<Rightarrow> u64 \<Rightarrow> Machine \<Rightarrow> Machine option" where
  "mem_store_T h n addr data m =
    (if \<not> mem_in_range addr m
        \<or> store_denied (hart h m) (chk_pmp_range_exp (hart h m) addr (addr + of_nat n - 1))
     then Some (upd_hart h (set_mem_status True) m)
     else phy_mem_store n addr data (upd_hart h (set_mem_status False) m))"

definition fetch_denied_u8 :: "HartState \<Rightarrow> u16 \<Rightarrow> bool" where
  "fetch_denied_u8 hs st \<longleftrightarrow>
     (st = 0xFFF0 \<and> privmode hs \<le> 0b01)
     \<or> (mem_status hs \<and> \<not> bit st 6) \<or> (\<not> (mem_status hs \<or> bit st 8))"

definition store_denied_u8 :: "HartState \<Rightarrow> u16 \<Rightarrow> bool" where
  "store_denied_u8 hs st \<longleftrightarrow> (st = 0xFFF0 \<and> privmode hs \<le> 0b01) \<or> \<not> bit st 7"

definition mem_fetch_u8 :: "nat \<Rightarrow> u64 \<Rightarrow> Machine \<Rightarrow> (u64 \<times> Machine) option" where
  "mem_fetch_u8 h addr m =
    (if \<not> mem_in_range addr m \<or> fetch_denied_u8 (hart h m) (chk_pmp_exp (hart h m) addr)
     then Some (0, upd_hart h (set_mem_status True) m)
     else phy_mem_fetch 1 addr (upd_hart h (set_mem_status False) m))"

definition mem_store_u8 :: "nat \<Rightarrow> u64 \<Rightarrow> u64 \<Rightarrow> Machine \<Rightarrow> Machine option" where
  "mem_store_u8 h addr data m =
    (if \<not> mem_in_range addr m \<or> store_denied_u8 (hart h m) (chk_pmp_exp (hart h m) addr)
     then Some (upd_hart h (set_mem_status True) m)
     else phy_mem_store 1 addr data (upd_hart h (set_mem_status False) m))"

text \<open>The instantiation at \<open>T\<close>: the specialisation for \<open>uint8_t\<close>, else the template.\<close>

definition mem_fetch :: "nat \<Rightarrow> nat \<Rightarrow> u64 \<Rightarrow> Machine \<Rightarrow> (u64 \<times> Machine) option" where
  "mem_fetch h n addr m = (if n = 1 then mem_fetch_u8 h addr m else mem_fetch_T h n addr m)"

definition mem_store :: "nat \<Rightarrow> nat \<Rightarrow> u64 \<Rightarrow> u64 \<Rightarrow> Machine \<Rightarrow> Machine option" where
  "mem_store h n addr data m =
    (if n = 1 then mem_store_u8 h addr data m else mem_store_T h n addr data m)"

subsection \<open>RAM as a byte memory\<close>

definition ranges_disjoint :: "nat \<Rightarrow> u64 \<Rightarrow> nat \<Rightarrow> u64 \<Rightarrow> bool" where
  "ranges_disjoint n a k b \<longleftrightarrow> unat a + n \<le> unat b \<or> unat b + k \<le> unat a"

text \<open>The contract of a byte-addressed store, with accesses of up to eight bytes.\<close>

locale byte_memory =
  fixes ok :: "nat \<Rightarrow> u64 \<Rightarrow> 's \<Rightarrow> bool"
    and ld :: "nat \<Rightarrow> u64 \<Rightarrow> 's \<Rightarrow> u64"
    and st :: "nat \<Rightarrow> u64 \<Rightarrow> u64 \<Rightarrow> 's \<Rightarrow> 's"
  assumes ok_st [simp]: "ok k b (st n a d s) = ok k b s"
    and ld_st_same: "ok n a s \<Longrightarrow> n \<le> 8 \<Longrightarrow> ld n a (st n a d s) = d AND mask (8 * n)"
    and ld_st_disjoint: "ok n a s \<Longrightarrow> n \<le> 8 \<Longrightarrow> ok k b s \<Longrightarrow> k \<le> 8 \<Longrightarrow>
      ranges_disjoint n a k b \<Longrightarrow> ld k b (st n a d s) = ld k b s"
begin

lemma ld_under_st:
  assumes "ok n a s" "n \<le> 8" "ok k b s" "k \<le> 8" "ranges_disjoint k b n a"
  shows "ld n a (st k b e (st n a d s)) = d AND mask (8 * n)"
  using assms by (simp add: ld_st_disjoint ld_st_same)

lemma ld_last_st: "ok n a s \<Longrightarrow> n \<le> 8 \<Longrightarrow> ld n a (st n a e (st n a d s)) = e AND mask (8 * n)"
  by (simp add: ld_st_same)

end

lemma unat_offset: "n \<le> 8 \<Longrightarrow> k < n \<Longrightarrow> unat (of_nat k :: u64) = k"
  by (simp add: unat_of_nat)

lemma ram_store_apply:
  assumes "n \<le> 8"
  shows "ram_store n i d mem j = (if unat (j - i) < n then le_bytes d (unat (j - i)) else mem j)"
  using assms
proof (induction n)
  case 0
  then show ?case by simp
next
  case (Suc n)
  have "unat (j - i) = n \<longleftrightarrow> j = i + of_nat n"
  proof
    assume "unat (j - i) = n"
    then have "j - i = of_nat n" by (auto simp: word_unat_eq_iff)
    then show "j = i + of_nat n" by (simp add: algebra_simps)
  next
    assume "j = i + of_nat n"
    then show "unat (j - i) = n" using Suc.prems by (simp add: unat_of_nat)
  qed
  then show ?case using Suc by (auto simp: less_Suc_eq)
qed

lemma ram_load_store_same: "n \<le> 8 \<Longrightarrow> ram_load n i (ram_store n i d mem) = d AND mask (8 * n)"
proof -
  assume n: "n \<le> 8"
  have "map (\<lambda>k. ram_store n i d mem (i + of_nat k)) [0..<n] = map (le_bytes d) [0..<n]"
    using n by (intro map_cong) (auto simp: ram_store_apply unat_offset)
  then show ?thesis unfolding ram_load_def using of_le_bytes_le_bytes[OF n] by metis
qed

lemma ram_load_cong: "(\<And>k. k < n \<Longrightarrow> f (i + of_nat k) = g (i + of_nat k)) \<Longrightarrow> ram_load n i f = ram_load n i g"
proof -
  assume "\<And>k. k < n \<Longrightarrow> f (i + of_nat k) = g (i + of_nat k)"
  then have "map (\<lambda>k. f (i + of_nat k)) [0..<n] = map (\<lambda>k. g (i + of_nat k)) [0..<n]" by simp
  then show ?thesis unfolding ram_load_def by (rule arg_cong)
qed

lemma unat_add_offset:
  assumes "unat (i :: u64) + n < 2 ^ 64" "k \<le> n"
  shows "unat (i + of_nat k) = unat i + k"
proof -
  have "unat (of_nat k :: u64) = k" using assms by (simp add: unat_of_nat)
  then show ?thesis using assms by (subst unat_plus_simple[THEN iffD1]) (simp_all add: no_olen_add_nat)
qed

lemma ram_load_store_disjoint:
  assumes "n \<le> 8" "k \<le> 8" "unat i + n < 2 ^ 64" "unat j + k < 2 ^ 64" "ranges_disjoint n i k j"
  shows "ram_load k j (ram_store n i d mem) = ram_load k j mem"
proof (rule ram_load_cong)
  fix l assume l: "l < k"
  have u: "unat (j + of_nat l) = unat j + l" using unat_add_offset[OF assms(4)] l by simp
  have "\<not> unat (j + of_nat l - i) < n"
  proof (cases "i \<le> j + of_nat l")
    case True
    then have "unat (j + of_nat l - i) = unat j + l - unat i" using u by (simp add: unat_sub)
    then show ?thesis using True u assms(5) l by (auto simp: ranges_disjoint_def word_le_nat_alt)
  next
    case False
    define w where "w = j + of_nat l - i"
    show ?thesis
    proof
      assume "unat (j + of_nat l - i) < n"
      then have w: "unat w < n" by (simp add: w_def)
      have "i + w = j + of_nat l" by (simp add: w_def)
      moreover have "unat (i + of_nat (unat w)) = unat i + unat w"
        using unat_add_offset[OF assms(3), of "unat w"] w by simp
      ultimately have "unat i + unat w = unat j + l" using u by simp
      then show False using False u by (simp add: word_le_nat_alt not_le)
    qed
  qed
  then show "ram_store n i d mem (j + of_nat l) = mem (j + of_nat l)"
    using assms(1) by (simp add: ram_store_apply)
qed

text \<open>Addresses from \<open>0x80000000\<close> on, on machines whose memory leaves room below \<open>2^64\<close>.\<close>

definition ram_access_ok :: "nat \<Rightarrow> u64 \<Rightarrow> Machine \<Rightarrow> bool" where
  "ram_access_ok n a m \<longleftrightarrow> 0x80000000 \<le> a \<and> ram_ok n a m \<and> unat (mach_mem_size m) < 2 ^ 63"

definition ram_ld :: "nat \<Rightarrow> u64 \<Rightarrow> Machine \<Rightarrow> u64" where
  "ram_ld n a m = ram_load n (ram_index a) (main_mem m)"

definition ram_st :: "nat \<Rightarrow> u64 \<Rightarrow> u64 \<Rightarrow> Machine \<Rightarrow> Machine" where
  "ram_st n a d m = m\<lparr>main_mem := ram_store n (ram_index a) d (main_mem m)\<rparr>"

lemma phy_mem_fetch_ram: "ram_access_ok n a m \<Longrightarrow> phy_mem_fetch n a m = Some (ram_ld n a m, m)"
  by (simp add: phy_mem_fetch_def ram_access_ok_def ram_ld_def)

lemma phy_mem_store_ram: "ram_access_ok n a m \<Longrightarrow> phy_mem_store n a d m = Some (ram_st n a d m)"
  by (simp add: phy_mem_store_def ram_access_ok_def ram_st_def)

lemma unat_ram_index: "0x80000000 \<le> a \<Longrightarrow> unat (ram_index a) = unat a - 0x80000000"
  by (simp add: ram_index_def unat_sub)

interpretation ram: byte_memory ram_access_ok ram_ld ram_st
proof unfold_locales
  fix k n :: nat and a b d :: u64 and s :: Machine
  show "ram_access_ok k b (ram_st n a d s) = ram_access_ok k b s"
    by (simp add: ram_access_ok_def ram_ok_def ram_st_def)
  show "ram_access_ok n a s \<Longrightarrow> n \<le> 8 \<Longrightarrow> ram_ld n a (ram_st n a d s) = d AND mask (8 * n)"
    by (simp add: ram_ld_def ram_st_def ram_load_store_same)
  assume ok: "ram_access_ok n a s" "n \<le> 8" "ram_access_ok k b s" "k \<le> 8" and "ranges_disjoint n a k b"
  then have "ranges_disjoint n (ram_index a) k (ram_index b)"
    by (auto simp: ranges_disjoint_def unat_ram_index ram_access_ok_def word_le_nat_alt)
  moreover have "unat (ram_index a) + n < 2 ^ 64" "unat (ram_index b) + k < 2 ^ 64"
    using ok by (auto simp: ram_access_ok_def ram_ok_def)
  ultimately show "ram_ld k b (ram_st n a d s) = ram_ld k b s"
    using ok by (simp add: ram_ld_def ram_st_def ram_load_store_disjoint)
qed

subsection \<open>The memory map\<close>

text \<open>Below the RAM an entry is hit exactly inside its range, and no address hits two entries.\<close>

lemma sint_u64_low:
  assumes "uint (x :: u64) < 2 ^ 63"
  shows "sint x = uint x"
proof -
  have "signed_take_bit 63 (uint x) = uint x"
    using assms uint_ge_0[of x] by (intro signed_take_bit_int_eq_self) linarith+
  then show ?thesis by (simp add: sint_uint)
qed

lemma sint_u64_high:
  assumes "\<not> uint (x :: u64) < 2 ^ 63"
  shows "sint x < 0"
proof -
  have "uint x < 2 ^ 64" using uint_lt2p[of x] by simp
  then have "uint x div 2 ^ 63 = 1" using assms by simp
  then have "bit (uint x) 63" unfolding bit_iff_odd by simp
  then show ?thesis by (simp add: sint_uint signed_take_bit_negative_iff)
qed

lemma entry_hit_offset:
  assumes "unat (msize e) < 2 ^ 63"
  shows "entry_hit addr e \<longleftrightarrow> unat (addr - base e) < unat (msize e)"
proof -
  have m: "uint (msize e) < 2 ^ 63" using assms by (simp add: nat_less_iff flip: nat_uint_eq)
  have l: "unat (addr - base e) < unat (msize e) \<longleftrightarrow> uint (addr - base e) < uint (msize e)"
    by (simp add: word_less_def flip: word_less_nat_alt)
  show ?thesis
    unfolding l using m sint_u64_low[of "addr - base e"] sint_u64_high[of "addr - base e"] sint_u64_low[OF m]
    by (cases "uint (addr - base e) < 2 ^ 63") (auto simp: entry_hit_def)
qed

lemma entry_hit_range:
  assumes "unat (base e) + unat (msize e) < 2 ^ 63"
  shows "entry_hit addr e \<longleftrightarrow> unat (base e) \<le> unat addr \<and> unat addr < unat (base e) + unat (msize e)"
proof (cases "base e \<le> addr")
  case True
  then show ?thesis
    using assms by (auto simp: entry_hit_offset unat_sub word_le_nat_alt)
next
  case False
  then have l: "unat addr < unat (base e)" by (simp add: word_le_nat_alt)
  define w where "w = addr - base e"
  have "\<not> unat w < unat (msize e)"
  proof
    assume w: "unat w < unat (msize e)"
    have "unat (base e + of_nat (unat w)) = unat (base e) + unat w"
      using assms w by (intro unat_add_offset[of _ "unat w"]) auto
    then show False using l by (simp add: w_def)
  qed
  then show ?thesis using assms l by (simp add: entry_hit_offset w_def)
qed

definition entries_apart :: "Memmap_Entry \<Rightarrow> Memmap_Entry \<Rightarrow> bool" where
  "entries_apart e f \<longleftrightarrow> unat (base e) + unat (msize e) \<le> unat (base f)
     \<or> unat (base f) + unat (msize f) \<le> unat (base e)"

lemma mem_map_small: "e \<in> set mem_map \<Longrightarrow> unat (base e) + unat (msize e) < 2 ^ 31"
  by (auto simp: mem_map_def)

lemma mem_map_apart: "e \<in> set mem_map \<Longrightarrow> f \<in> set mem_map \<Longrightarrow> e = f \<or> entries_apart e f"
  by (auto simp: mem_map_def entries_apart_def)

lemma mem_map_hit:
  assumes "e \<in> set mem_map"
  shows "entry_hit addr e \<longleftrightarrow> unat (base e) \<le> unat addr \<and> unat addr < unat (base e) + unat (msize e)"
  by (rule entry_hit_range) (use mem_map_small[OF assms] in simp)

lemma mem_map_unique:
  assumes "e \<in> set mem_map" "f \<in> set mem_map" "entry_hit addr e" "entry_hit addr f"
  shows "e = f"
  using mem_map_apart[OF assms(1,2)] assms(3,4)
  by (auto simp: mem_map_hit[OF assms(1)] mem_map_hit[OF assms(2)] entries_apart_def)

lemma find_unique:
  assumes "\<And>x y. x \<in> set xs \<Longrightarrow> y \<in> set xs \<Longrightarrow> P x \<Longrightarrow> P y \<Longrightarrow> x = y"
  shows "find P (rev xs) = find P xs"
proof (cases "find P xs")
  case None
  then have "find P (rev xs) = None" by (simp add: find_None_iff)
  with None show ?thesis by simp
next
  case (Some x)
  then have x: "x \<in> set xs" "P x" by (auto simp: find_Some_iff)
  show ?thesis
  proof (cases "find P (rev xs)")
    case None
    then show ?thesis using x by (auto simp: find_None_iff)
  next
    case (Some y)
    then have "y \<in> set (rev xs)" "P y" by (metis find_Some_iff nth_mem)+
    then show ?thesis using assms[OF x(1) _ x(2)] Some \<open>find P xs = Some x\<close> by simp
  qed
qed

text \<open>Reads search the map backwards and writes forwards, yet they find the same device.\<close>

lemma mem_map_order: "find (entry_hit addr) (rev mem_map) = find (entry_hit addr) mem_map"
  by (rule find_unique) (rule mem_map_unique)

lemma mem_map_no_ram: "0x80000000 \<le> addr \<Longrightarrow> find (entry_hit addr) mem_map = None"
  using mem_map_small by (fastforce simp: find_None_iff mem_map_hit word_le_nat_alt)

text \<open>Boot ROM addresses belong to no device.\<close>

lemma mem_map_no_rom: "0x1000 \<le> addr \<Longrightarrow> addr < 0x1100 \<Longrightarrow> find (entry_hit addr) mem_map = None"
  unfolding find_None_iff
proof
  fix e assume a: "0x1000 \<le> addr" "addr < 0x1100" and e: "\<exists>x. x \<in> set mem_map \<and> entry_hit addr x"
  then obtain x where x: "x \<in> set mem_map" "entry_hit addr x" by blast
  then have "0x1100 \<le> unat (base x)" by (auto simp: mem_map_def)
  then show False using x a by (simp add: mem_map_hit word_less_nat_alt)
qed

subsection \<open>The devices together\<close>

definition machine_good :: "Machine \<Rightarrow> bool" where
  "machine_good m \<longleftrightarrow> aclint_good m \<and> uart_dev_good m \<and> virtio_good m
     \<and> length (reservations m) = length (hartlist m) \<and> (\<forall>h < length (hartlist m). hart_good (hart h m))"

lemma only_mip_hart_good: "only_mip s s' \<Longrightarrow> hart_good s' = hart_good s"
  by (auto simp: only_mip_def hart_good_def)

lemma machine_good_length: "machine_good m \<Longrightarrow> length (hartlist m) = unat (mach_hart_count m)"
  by (simp add: machine_good_def uart_dev_good_def plic_good_def)

lemma machine_goodD:
  assumes "machine_good m"
  shows "aclint_good m" "uart_dev_good m" "plic_good m" "virtio_good m"
    "length (reservations m) = length (hartlist m)"
    "h < length (hartlist m) \<Longrightarrow> hart_good (hart h m)"
  using assms by (auto simp: machine_good_def uart_dev_good_def)

text \<open>A frame step that leaves a device alone keeps that device's invariant.\<close>

lemma good_frames:
  assumes "device_frame m m'"
  shows "aclint m' = aclint m \<Longrightarrow> aclint_good m \<Longrightarrow> aclint_good m'"
    and "plic m' = plic m \<Longrightarrow> plic_good m \<Longrightarrow> plic_good m'"
    and "virtio m' = virtio m \<Longrightarrow> virtio_good m \<Longrightarrow> virtio_good m'"
    and "length (reservations m) = length (hartlist m) \<Longrightarrow> length (reservations m') = length (hartlist m')"
proof -
  show "aclint m' = aclint m \<Longrightarrow> aclint_good m \<Longrightarrow> aclint_good m'"
    using aclint_good_frame[OF _ assms] by simp
  show "plic m' = plic m \<Longrightarrow> plic_good m \<Longrightarrow> plic_good m'"
    using assms device_frame_length[OF assms]
    by (simp add: plic_good_def PLIC_CTX_COUNT_def device_frame_def)
  show "virtio m' = virtio m \<Longrightarrow> virtio_good m \<Longrightarrow> virtio_good m'"
    by (simp add: virtio_good_def)
  show "length (reservations m) = length (hartlist m) \<Longrightarrow> length (reservations m') = length (hartlist m')"
    using assms device_frame_length[OF assms] by (simp add: device_frame_def)
qed

lemma machine_good_step:
  assumes f: "device_frame m m'" and g: "machine_good m"
    and a: "aclint m' = aclint m \<or> aclint_good m'"
    and p: "plic m' = plic m \<or> plic_good m'"
    and u: "uart_good (uart m')"
    and v: "virtio m' = virtio m \<or> virtio_good m'"
  shows "machine_good m'"
proof -
  have "\<forall>h < length (hartlist m'). hart_good (hart h m')"
    using machine_goodD(6)[OF g] only_mip_hart_good[OF device_frame_hart[OF f]] device_frame_length[OF f] by simp
  then show ?thesis
    using good_frames[OF f] machine_goodD(1-5)[OF g] assms by (auto simp: machine_good_def uart_dev_good_def)
qed

lemma aclint_w_others:
  "aclint_mtimer_w off d n m = Some m' \<Longrightarrow> plic m' = plic m \<and> uart m' = uart m \<and> virtio m' = virtio m"
  "aclint_mswi_w off d n m = Some m' \<Longrightarrow> plic m' = plic m \<and> uart m' = uart m \<and> virtio m' = virtio m"
  by (auto simp: aclint_mtimer_w_def aclint_mswi_w_def aclint_mtimer_chk_def split: if_splits)

lemma virtio_w_others:
  "virtio_mmio_blk_w off d n m = Some m' \<Longrightarrow> plic m' = plic m \<and> uart m' = uart m \<and> aclint m' = aclint m"
  by (auto simp: upd_virtio_def dest!: virtio_w_upd)

lemma dtb_w_others:
  "dtb_w off d n m = Some m' \<Longrightarrow> device_frame m m' \<and> plic m' = plic m \<and> uart m' = uart m
     \<and> aclint m' = aclint m \<and> virtio m' = virtio m"
  by (auto simp: dtb_w_def dtb_put_def device_frame_same split: if_splits)

lemma handler_r_contract:
  assumes g: "machine_good m" and r: "handler_r k off n m = Some (v, m')"
  shows "device_frame m m' \<and> machine_good m'"
proof (cases k)
  case H_virtio
  then have "m' = m" using r by (auto simp: virtio_mmio_blk_r_def Let_def)
  then show ?thesis using g by simp
next
  case H_uart
  then have "uart_r off n m = Some (v, m')" using r by simp
  note e = uart_r_effect[OF this]
  have "machine_good m'"
    using e g machine_goodD[OF g]
    by (intro machine_good_step[of m m']) (auto simp: uart_frame_def uart_dev_good_def)
  then show ?thesis using e uart_frame_device by blast
next
  case H_plic
  then have "plic_r off n m = Some (v, m')" using r by simp
  note e = plic_r_frame[OF this]
  have "machine_good m'"
    using e g machine_goodD[OF g] plic_frame_good[OF e]
    by (intro machine_good_step[of m m']) (auto simp: plic_frame_def uart_dev_good_def)
  then show ?thesis using e plic_frame_device by blast
next
  case H_mtimer
  then have "m' = m" using r by (auto dest: aclint_mtimer_r_same)
  then show ?thesis using g by simp
next
  case H_mswi
  then have "m' = m" using r by (auto simp: aclint_mswi_r_def)
  then show ?thesis using g by simp
next
  case H_dtb
  then have "m' = m" using r by (auto simp: dtb_r_def)
  then show ?thesis using g by simp
qed

lemma handler_w_contract:
  assumes g: "machine_good m" and w: "handler_w k off d n m = Some m'"
  shows "device_frame m m' \<and> machine_good m'"
proof (cases k)
  case H_virtio
  then have w': "virtio_mmio_blk_w off d n m = Some m'" using w by simp
  show ?thesis
    using virtio_dev.w_frame[OF _ w'] virtio_dev.w_good[OF _ w'] virtio_w_others[OF w'] g machine_goodD[OF g]
    by (auto intro!: machine_good_step[of m m'] simp: uart_dev_good_def)
next
  case H_uart
  then have w': "uart_w off d n m = Some m'" using w by simp
  have e: "uart_frame m m' \<and> uart_good (uart m')"
    using uart_w_effect[OF w'] machine_goodD[OF g] by (simp add: uart_dev_good_def)
  have "machine_good m'"
    using e g machine_goodD[OF g] by (intro machine_good_step[of m m']) (auto simp: uart_frame_def)
  then show ?thesis using e uart_frame_device by blast
next
  case H_plic
  then have "plic_w off d n m = Some m'" using w by simp
  note e = plic_w_frame[OF this]
  have "machine_good m'"
    using e g machine_goodD[OF g] plic_frame_good[OF e]
    by (intro machine_good_step[of m m']) (auto simp: plic_frame_def uart_dev_good_def)
  then show ?thesis using e plic_frame_device by blast
next
  case H_mtimer
  then have w': "aclint_mtimer_w off d n m = Some m'" using w by simp
  show ?thesis
    using mtimer.w_frame[OF _ w'] mtimer.w_good[OF _ w'] aclint_w_others(1)[OF w'] g machine_goodD[OF g]
    by (auto intro!: machine_good_step[of m m'] simp: uart_dev_good_def)
next
  case H_mswi
  then have w': "aclint_mswi_w off d n m = Some m'" using w by simp
  show ?thesis
    using mswi.w_frame[OF _ w'] mswi.w_good[OF _ w'] aclint_w_others(2)[OF w'] g machine_goodD[OF g]
    by (auto intro!: machine_good_step[of m m'] simp: uart_dev_good_def)
next
  case H_dtb
  then have w': "dtb_w off d n m = Some m'" using w by simp
  show ?thesis
    using dtb_w_others[OF w'] g machine_goodD[OF g]
    by (auto intro!: machine_good_step[of m m'] simp: uart_dev_good_def)
qed

interpretation any_dev: mmio_device machine_good "handler_r k" "handler_w k" for k
  by unfold_locales (use handler_r_contract handler_w_contract in blast)+

subsection \<open>The protection check as an interface\<close>

lemma pmp_spec_ends:
  assumes "pmp_spec hs b lo hi"
  shows "pmp_spec hs b lo lo" "pmp_spec hs b hi hi"
proof -
  have "find (\<lambda>i. pmp_touches hs a i \<or> pmp_touches hs a i) is = find (pmp_touches hs a) is" for a "is"
    by simp
  have *: "find (pmp_touches hs a) [0..<PMP_COUNT] =
      find (\<lambda>i. pmp_touches hs lo i \<or> pmp_touches hs hi i) [0..<PMP_COUNT]" if "a = lo \<or> a = hi" for a
  proof (cases "find (\<lambda>i. pmp_touches hs lo i \<or> pmp_touches hs hi i) [0..<PMP_COUNT]")
    case None
    then have "find (pmp_touches hs a) [0..<PMP_COUNT] = None" using that by (auto simp: find_None_iff)
    then show ?thesis using None by simp
  next
    case (Some i)
    then have "pmp_touches hs a i" using assms that by (auto simp: pmp_spec_def)
    moreover have "i < PMP_COUNT" "\<forall>j<i. \<not> pmp_touches hs a j" using Some that by (auto simp: find_Some_iff)
    ultimately have "find (pmp_touches hs a) [0..<PMP_COUNT] = Some i"
      unfolding find_Some_iff by (intro exI[of _ i]) auto
    then show ?thesis using Some by simp
  qed
  show "pmp_spec hs b lo lo" using assms *[of lo] by (auto simp: pmp_spec_def split: option.splits)
  show "pmp_spec hs b hi hi" using assms *[of hi] by (auto simp: pmp_spec_def split: option.splits)
qed

text \<open>
  What a checker promises on states it may be asked about: an access it grants is allowed,
  at its first and at its last byte, by the first-match rule; an access the rule allows as
  a whole is granted.
\<close>

locale access_checker =
  fixes askable :: "HartState \<Rightarrow> u64 \<Rightarrow> u64 \<Rightarrow> bool"
    and grants :: "HartState \<Rightarrow> nat \<Rightarrow> u64 \<Rightarrow> u64 \<Rightarrow> bool"
  assumes sound: "askable hs lo hi \<Longrightarrow> b < 3 \<Longrightarrow> grants hs b lo hi \<Longrightarrow>
      pmp_spec hs b lo lo \<and> pmp_spec hs b hi hi"
    and complete: "askable hs lo hi \<Longrightarrow> b < 3 \<Longrightarrow> pmp_spec hs b lo hi \<Longrightarrow> grants hs b lo hi"
begin

text \<open>Below machine mode an address that no entry holds is out of reach.\<close>

lemma unmatched_denied:
  assumes "askable hs lo hi" "b < 3" "privmode hs \<noteq> 3"
    and "a = lo \<or> a = hi" "\<forall>i < PMP_COUNT. \<not> pmp_touches hs a i"
  shows "\<not> grants hs b lo hi"
proof
  assume "grants hs b lo hi"
  then have "pmp_spec hs b a a" using sound assms by blast
  moreover have "find (\<lambda>i. pmp_touches hs a i \<or> pmp_touches hs a i) [0..<PMP_COUNT] = None"
    using assms(5) by (auto simp: find_None_iff)
  ultimately show False using assms(3) by (simp add: pmp_spec_def)
qed

text \<open>Machine mode without locked entries may do everything.\<close>

lemma machine_granted:
  assumes "askable hs lo hi" "b < 3" "privmode hs = 3" "\<forall>i < PMP_COUNT. \<not> bit (pmpcfg hs i) 7"
  shows "grants hs b lo hi"
proof -
  have "find (\<lambda>i. pmp_touches hs lo i \<or> pmp_touches hs hi i) [0..<PMP_COUNT] = None"
    using assms(3,4) by (auto simp: find_None_iff pmp_touches_def)
  then have "pmp_spec hs b lo hi" using assms(3) by (simp add: pmp_spec_def)
  then show ?thesis using complete assms by blast
qed

text \<open>A locked entry without the permission stops every mode, if it is the first to match.\<close>

lemma locked_denied:
  assumes "askable hs lo hi" "b < 3" "i < PMP_COUNT" "pmp_touches hs lo i" "\<not> bit (pmpcfg hs i) b"
    and "\<forall>j < i. \<not> pmp_touches hs lo j"
  shows "\<not> grants hs b lo hi"
proof
  assume "grants hs b lo hi"
  then have "pmp_spec hs b lo lo" using sound assms by blast
  moreover have "find (\<lambda>i. pmp_touches hs lo i \<or> pmp_touches hs lo i) [0..<PMP_COUNT] = Some i"
    unfolding find_Some_iff using assms by (intro exI[of _ i]) auto
  ultimately show False using assms(5) by (simp add: pmp_spec_def)
qed

end

definition range_askable :: "HartState \<Rightarrow> u64 \<Rightarrow> u64 \<Rightarrow> bool" where
  "range_askable hs lo hi \<longleftrightarrow> pmp_synced hs \<and> privmode hs \<le> 3 \<and> lo \<le> hi \<and> hi \<noteq> 0xffffffffffffffff"

definition range_check :: "HartState \<Rightarrow> nat \<Rightarrow> u64 \<Rightarrow> u64 \<Rightarrow> bool" where
  "range_check hs b lo hi = range_grants hs b (chk_pmp_range_exp hs lo hi)"

definition byte_askable :: "HartState \<Rightarrow> u64 \<Rightarrow> u64 \<Rightarrow> bool" where
  "byte_askable hs lo hi \<longleftrightarrow> pmp_synced hs \<and> (privmode hs \<le> 1 \<or> privmode hs = 3) \<and> lo = hi
     \<and> hi \<noteq> 0xffffffffffffffff"

definition byte_check :: "HartState \<Rightarrow> nat \<Rightarrow> u64 \<Rightarrow> u64 \<Rightarrow> bool" where
  "byte_check hs b lo hi = byte_grants hs b (chk_pmp_exp hs lo)"

interpretation range_pmp: access_checker range_askable range_check
proof unfold_locales
  fix hs lo hi and b :: nat
  assume a: "range_askable hs lo hi" and b: "b < 3"
  then have s: "pmp_synced hs" "privmode hs \<le> 3" "lo \<le> hi" "hi \<noteq> 0xffffffffffffffff"
    by (auto simp: range_askable_def)
  have m1: "(0xffffffffffffffff :: u64) = - 1" by simp
  have "lo \<noteq> 0xffffffffffffffff"
    using s(3,4) word_order.extremum_uniqueI unfolding m1 by blast
  note lo = this
  show "pmp_spec hs b lo lo \<and> pmp_spec hs b hi hi" if g: "range_check hs b lo hi"
  proof (cases "pmp_fast hs lo hi")
    case True
    show ?thesis
      using fast_grants_spec[OF s(1) fast_range_ends(1)[OF True s(3)] lo b]
        fast_grants_spec[OF s(1) fast_range_ends(2)[OF True s(3)] s(4) b] by blast
  next
    case False
    have "pmp_spec hs b lo hi"
      using g range_exp_slow[OF s(1) False s(2) b] by (simp add: range_check_def)
    then show ?thesis using pmp_spec_ends by blast
  qed
  show "range_check hs b lo hi" if g: "pmp_spec hs b lo hi"
  proof (cases "pmp_fast hs lo hi")
    case True
    then have "chk_pmp_range_exp hs lo hi = 0b111" by (simp add: chk_pmp_range_exp_def pmp_fast_def)
    then show ?thesis using less_3_cases[OF b] by (auto simp: range_check_def range_grants_def)
  next
    case False
    then show ?thesis using g range_exp_slow[OF s(1) False s(2) b] by (simp add: range_check_def)
  qed
qed

interpretation byte_pmp: access_checker byte_askable byte_check
  by unfold_locales (auto simp: byte_askable_def byte_check_def byte_exp_spec)

lemma fetch_denied_check:
  "fetch_denied hs (chk_pmp_range_exp hs lo hi) \<longleftrightarrow> \<not> range_check hs (if mem_status hs then 0 else 2) lo hi"
  by (auto simp: fetch_denied_def range_check_def range_grants_def)

lemma store_denied_check:
  "store_denied hs (chk_pmp_range_exp hs lo hi) \<longleftrightarrow> \<not> range_check hs 1 lo hi"
  by (auto simp: store_denied_def range_check_def range_grants_def)

lemma fetch_denied_u8_check:
  "fetch_denied_u8 hs (chk_pmp_exp hs a) \<longleftrightarrow> \<not> byte_check hs (if mem_status hs then 0 else 2) a a"
  by (auto simp: fetch_denied_u8_def byte_check_def byte_grants_def)

lemma store_denied_u8_check:
  "store_denied_u8 hs (chk_pmp_exp hs a) \<longleftrightarrow> \<not> byte_check hs 1 a a"
  by (auto simp: store_denied_u8_def byte_check_def byte_grants_def)

subsection \<open>What an access may touch\<close>

text \<open>A hart without the fields an access may change.\<close>

definition access_core :: "HartState \<Rightarrow> HartState" where
  "access_core s = s\<lparr>mem_status := False, page_fault := False, tlb := zero_TLB, mip := 0\<rparr>"

definition access_hart :: "HartState \<Rightarrow> HartState \<Rightarrow> bool" where
  "access_hart s s' \<longleftrightarrow> access_core s' = access_core s"

text \<open>
  Besides memory and devices, an access of hart \<open>h\<close> changes the status flags, the TLB and
  the pending interrupts of \<open>h\<close> and the pending interrupts of the others.
\<close>

definition access_frame :: "nat \<Rightarrow> Machine \<Rightarrow> Machine \<Rightarrow> bool" where
  "access_frame h m m' \<longleftrightarrow> mach_mem_size m' = mach_mem_size m
     \<and> mach_hart_count m' = mach_hart_count m \<and> reservations m' = reservations m
     \<and> sig_mode m' = sig_mode m \<and> hart_start m' = hart_start m \<and> interrupted m' = interrupted m
     \<and> length (hartlist m') = length (hartlist m)
     \<and> (h < length (hartlist m) \<longrightarrow> access_hart (hart h m) (hart h m'))
     \<and> (\<forall>k < length (hartlist m). k \<noteq> h \<longrightarrow> only_mip (hart k m) (hart k m'))"

lemma access_hart_refl [simp]: "access_hart s s"
  by (simp add: access_hart_def)

lemma access_hart_trans: "access_hart s t \<Longrightarrow> access_hart t u \<Longrightarrow> access_hart s u"
  by (simp add: access_hart_def)

lemma access_core_upd [simp]:
  "access_core (s\<lparr>mem_status := b\<rparr>) = access_core s"
  "access_core (s\<lparr>page_fault := b\<rparr>) = access_core s"
  "access_core (s\<lparr>tlb := t\<rparr>) = access_core s"
  "access_core (s\<lparr>mip := w\<rparr>) = access_core s"
  by (simp_all add: access_core_def)

lemma access_hart_mip: "only_mip s s' \<Longrightarrow> access_hart s s'"
  by (auto simp: only_mip_def access_hart_def)

lemma access_hart_status [simp]: "access_hart s (set_mem_status b s)"
  by (simp add: set_mem_status_def access_hart_def)

lemma access_core_fields:
  "regs (access_core s) = regs s" "pc (access_core s) = pc s"
  "privmode (access_core s) = privmode s" "hartid (access_core s) = hartid s"
  "mstatus (access_core s) = mstatus s" "satp (access_core s) = satp s"
  "inst (access_core s) = inst s" "inst_len (access_core s) = inst_len s"
  "instbuf (access_core s) = instbuf s" "pmpcfg (access_core s) = pmpcfg s"
  "pmpaddr (access_core s) = pmpaddr s" "pmp_expanded (access_core s) = pmp_expanded s"
  "pmp_all_enabled (access_core s) = pmp_all_enabled s" "min_lbound (access_core s) = min_lbound s"
  "max_ubound (access_core s) = max_ubound s" "mie (access_core s) = mie s"
  "chk_int (access_core s) = chk_int s" "minstret (access_core s) = minstret s"
  "mideleg (access_core s) = mideleg s" "medeleg (access_core s) = medeleg s"
  "pmp_lockedaddr (access_core s) = pmp_lockedaddr s"
  by (simp_all add: access_core_def)

lemma access_hart_fields:
  assumes "access_hart s s'"
  shows
    "regs s' = regs s" "pc s' = pc s" "privmode s' = privmode s"
    "hartid s' = hartid s" "mstatus s' = mstatus s" "satp s' = satp s"
    "inst s' = inst s" "inst_len s' = inst_len s" "instbuf s' = instbuf s"
    "pmpcfg s' = pmpcfg s" "pmpaddr s' = pmpaddr s" "pmp_expanded s' = pmp_expanded s"
    "pmp_all_enabled s' = pmp_all_enabled s" "min_lbound s' = min_lbound s" "max_ubound s' = max_ubound s"
    "mie s' = mie s" "chk_int s' = chk_int s" "minstret s' = minstret s"
    "mideleg s' = mideleg s" "medeleg s' = medeleg s" "pmp_lockedaddr s' = pmp_lockedaddr s"
  using assms unfolding access_hart_def by (metis access_core_fields)+

lemma access_frame_refl [simp]: "access_frame h m m"
  by (simp add: access_frame_def)

lemma access_frame_trans [trans]:
  assumes "access_frame h a b" "access_frame h b c"
  shows "access_frame h a c"
proof -
  have l: "length (hartlist b) = length (hartlist a)" using assms(1) by (simp add: access_frame_def)
  have "h < length (hartlist a) \<longrightarrow> access_hart (hart h a) (hart h c)"
    using assms l access_hart_trans by (simp add: access_frame_def) blast
  moreover have "\<forall>k < length (hartlist a). k \<noteq> h \<longrightarrow> only_mip (hart k a) (hart k c)"
    using assms l only_mip_trans by (simp add: access_frame_def) blast
  ultimately show ?thesis using assms by (simp add: access_frame_def)
qed

lemma access_frame_device: "device_frame m m' \<Longrightarrow> access_frame h m m'"
  using device_frame_hart[of m m'] device_frame_length[of m m']
  by (auto simp: access_frame_def device_frame_def intro: access_hart_mip)

lemma access_frame_upd: "access_hart (hart h m) (f (hart h m)) \<Longrightarrow> access_frame h m (upd_hart h f m)"
  by (simp add: access_frame_def)

lemma access_frame_ram [simp]: "access_frame h m (m\<lparr>main_mem := f\<rparr>)"
  by (simp add: access_frame_def hart_def)

lemma machine_good_upd:
  assumes "machine_good m" and "hartid (f (hart h m)) = hartid (hart h m)"
    and "hart_good (hart h m) \<Longrightarrow> hart_good (f (hart h m))"
  shows "machine_good (upd_hart h f m)"
  using assms
  by (auto simp: machine_good_def aclint_good_def uart_dev_good_def plic_good_def virtio_good_def
      PLIC_CTX_COUNT_def hart_upd_hart)

lemma machine_good_ram [simp]: "machine_good (m\<lparr>main_mem := f\<rparr>) = machine_good m"
  by (simp add: machine_good_def aclint_good_def uart_dev_good_def plic_good_def virtio_good_def
      PLIC_CTX_COUNT_def hart_def)

lemma hartid_set_mem_status [simp]:
  "hartid (set_mem_status b hs) = hartid hs" "hart_good (set_mem_status b hs) = hart_good hs"
  by (simp_all add: set_mem_status_def hart_good_def)

text \<open>The invariant-and-frame contract every memory operation satisfies.\<close>

definition access_step :: "nat \<Rightarrow> Machine \<Rightarrow> Machine \<Rightarrow> bool" where
  "access_step h m m' \<longleftrightarrow> access_frame h m m' \<and> machine_good m'"

lemma access_step_trans [trans]: "access_step h a b \<Longrightarrow> access_step h b c \<Longrightarrow> access_step h a c"
  unfolding access_step_def using access_frame_trans by blast

lemma access_step_refl: "machine_good m \<Longrightarrow> access_step h m m"
  by (simp add: access_step_def)

lemma access_step_status: "machine_good m \<Longrightarrow> access_step h m (upd_hart h (set_mem_status b) m)"
  by (simp add: access_step_def access_frame_upd machine_good_upd)

lemma phy_mem_fetch_step:
  assumes g: "machine_good m" and f: "phy_mem_fetch n addr m = Some (x, m')"
  shows "access_step h m m'"
proof (cases "0x80000000 \<le> addr")
  case True
  then show ?thesis using f g by (auto simp: phy_mem_fetch_def access_step_refl)
next
  case False
  show ?thesis
  proof (cases "find (entry_hit addr) (rev mem_map)")
    case None
    then show ?thesis
      using f g False by (auto simp: phy_mem_fetch_def access_step_refl split: if_splits)
  next
    case (Some e)
    with f False obtain v where "handler_r (handler e) (addr - base e) n m = Some (v, m')"
      by (auto simp: phy_mem_fetch_def)
    then show ?thesis
      using handler_r_contract[OF g] access_frame_device unfolding access_step_def by blast
  qed
qed

lemma phy_mem_store_step:
  assumes g: "machine_good m" and f: "phy_mem_store n addr d m = Some m'"
  shows "access_step h m m'"
proof (cases "0x80000000 \<le> addr")
  case True
  then show ?thesis using f g by (auto simp: phy_mem_store_def access_step_def)
next
  case False
  show ?thesis
  proof (cases "find (entry_hit addr) mem_map")
    case None
    then show ?thesis using f g False by (auto simp: phy_mem_store_def access_step_refl)
  next
    case (Some e)
    with f False have "handler_w (handler e) (addr - base e) d n m = Some m'"
      by (auto simp: phy_mem_store_def)
    then show ?thesis
      using handler_w_contract[OF g] access_frame_device unfolding access_step_def by blast
  qed
qed

lemma mem_fetch_step:
  assumes g: "machine_good m" and f: "mem_fetch h n addr m = Some (x, m')"
  shows "access_step h m m'"
proof -
  have "m' = upd_hart h (set_mem_status True) m \<or>
      phy_mem_fetch n addr (upd_hart h (set_mem_status False) m) = Some (x, m')"
    using f by (auto simp: mem_fetch_def mem_fetch_T_def mem_fetch_u8_def split: if_splits)
  then show ?thesis
    using g access_step_status access_step_trans phy_mem_fetch_step
    by (metis access_step_def)
qed

lemma mem_store_step:
  assumes g: "machine_good m" and f: "mem_store h n addr d m = Some m'"
  shows "access_step h m m'"
proof -
  have "m' = upd_hart h (set_mem_status True) m \<or>
      phy_mem_store n addr d (upd_hart h (set_mem_status False) m) = Some m'"
    using f by (auto simp: mem_store_def mem_store_T_def mem_store_u8_def split: if_splits)
  then show ?thesis
    using g access_step_status access_step_trans phy_mem_store_step
    by (metis access_step_def)
qed

subsection \<open>Granted and denied accesses\<close>

definition mem_access_ok :: "nat \<Rightarrow> nat \<Rightarrow> nat \<Rightarrow> u64 \<Rightarrow> Machine \<Rightarrow> bool" where
  "mem_access_ok h b n addr m \<longleftrightarrow> mem_in_range addr m \<and>
     (if n = 1 then byte_check (hart h m) b addr addr
      else range_check (hart h m) b addr (addr + of_nat n - 1))"

lemma mem_store_cases:
  "mem_store h n addr d m =
     (if mem_access_ok h 1 n addr m
      then phy_mem_store n addr d (upd_hart h (set_mem_status False) m)
      else Some (upd_hart h (set_mem_status True) m))"
  by (simp add: mem_store_def mem_store_T_def mem_store_u8_def mem_access_ok_def store_denied_check
      store_denied_u8_check)

lemma mem_fetch_cases:
  "mem_fetch h n addr m =
     (if mem_access_ok h (if mem_status (hart h m) then 0 else 2) n addr m
      then phy_mem_fetch n addr (upd_hart h (set_mem_status False) m)
      else Some (0, upd_hart h (set_mem_status True) m))"
  by (cases "n = 1"; cases "mem_in_range addr m")
    (simp_all add: mem_fetch_def mem_fetch_T_def mem_fetch_u8_def mem_access_ok_def fetch_denied_check
      fetch_denied_u8_check)

subsection \<open>The promises of the physical memory\<close>

lemma find_same_set:
  assumes "\<And>x y. x \<in> set xs \<Longrightarrow> y \<in> set xs \<Longrightarrow> P x \<Longrightarrow> P y \<Longrightarrow> x = y" and "set ys = set xs"
  shows "find P ys = find P xs"
proof (cases "find P ys")
  case None
  then have "find P xs = None" using assms(2) by (auto simp: find_None_iff)
  then show ?thesis using None by simp
next
  case (Some x)
  then have x: "x \<in> set xs" "P x" using assms(2) by (auto simp: find_Some_iff)
  then obtain y where y: "find P xs = Some y" by (cases "find P xs") (auto simp: find_None_iff)
  then have "y \<in> set xs" "P y" by (auto simp: find_Some_iff)
  then show ?thesis using assms(1)[OF x(1) _ x(2)] Some y by auto
qed

text \<open>
  C35. The memory map is unambiguous: an address selects the same device, or none, in whatever
  order the table lists the regions, and an address of the RAM selects none.
\<close>

lemma memory_map_unambiguous:
  assumes "set ms = set mem_map"
  shows "find (entry_hit addr) ms = find (entry_hit addr) mem_map
    \<and> (0x80000000 \<le> addr \<longrightarrow> find (entry_hit addr) ms = None)"
  using find_same_set[OF mem_map_unique assms] mem_map_no_ram[of addr] by auto

lemma memory_map_unambiguous_witness:
  "find (entry_hit 0x10000000) (rev mem_map) = find (entry_hit 0x10000000) mem_map"
  using memory_map_unambiguous[of "rev mem_map" "0x10000000"] by simp

end
