(* ===== verification/Mmu.thy ===== *)
theory Mmu
  imports Physmem
begin

text \<open>
  Address translation: the TLB and \<open>page_table_walk\<close> of \<open>mem.cpp\<close>, and the virtual accesses
  \<open>virt_mem_fetch\<close> and \<open>virt_mem_store\<close> of \<open>mem.ipp\<close>.  On entry \<open>mem_status\<close> says whether a
  read is a load (true) or an instruction fetch (false); on return it says whether an access
  fault has happened.
\<close>

subsection \<open>Looking up the TLB\<close>

text \<open>The tests of one iteration that do not touch memory.\<close>

definition tlb_hit :: "HartState \<Rightarrow> nat \<Rightarrow> u64 \<Rightarrow> u8 \<Rightarrow> TLBEntry \<Rightarrow> bool" where
  "tlb_hit hs i va perms e \<longleftrightarrow>
     i = unat (tlb_size e) \<and> permissions e \<noteq> 0
     \<and> (va XOR virt_page e) < shl64 1 (offset_size i)
     \<and> perms AND permissions e \<noteq> 0
     \<and> \<not> (privmode hs = 0 \<and> \<not> user e)
     \<and> \<not> (privmode hs \<ge> 1 \<and> user e \<and> \<not> bit (mstatus hs) 18)"

text \<open>
  Setting the A and D bits.  \<open>~(pte | (0b11 << 6))\<close> is tested as a number: it is zero only
  if every other bit of the entry is set.
\<close>

definition pte_mark :: "bool \<Rightarrow> u64 \<Rightarrow> u64" where
  "pte_mark wr pte = (if wr then pte OR bmask 6 1 OR bmask 7 1 else pte OR bmask 6 1)"

definition pte_needs_mark :: "u64 \<Rightarrow> bool" where
  "pte_needs_mark pte \<longleftrightarrow> NOT (pte OR bmask 6 2) \<noteq> 0"

text \<open>\<open>Some m\<close> if the entry may be used, \<open>None\<close> in the first component for a miss.\<close>

definition tlb_touch_pte :: "nat \<Rightarrow> u8 \<Rightarrow> TLBEntry \<Rightarrow> Machine \<Rightarrow> (bool \<times> Machine) option" where
  "tlb_touch_pte h perms e m = do {
     (pte, m1) \<leftarrow> mem_fetch h 8 (pte_addr e) m;
     if pte_needs_mark pte then do {
       m2 \<leftarrow> mem_store h 8 (pte_addr e) (pte_mark (bit perms 1) pte) m1;
       Some (if mem_status (hart h m2) then (False, upd_hart h (set_mem_status False) m2) else (True, m2)) }
     else Some (True, m1)
   }"

fun tlb_find_loop :: "nat \<Rightarrow> u64 \<Rightarrow> u8 \<Rightarrow> nat list \<Rightarrow> Machine \<Rightarrow> (u64 \<times> Machine) option" where
  "tlb_find_loop h va perms [] m = Some (0, m)"
| "tlb_find_loop h va perms (i # is) m =
    (let e = tlb_slot (tlb (hart h m)) i va
     in if tlb_hit (hart h m) i va perms e then do {
          (ok, m') \<leftarrow> tlb_touch_pte h perms e m;
          Some (if ok then phy_page e + (va AND shr64 (- 1) (64 - offset_size i)) else 0, m') }
        else tlb_find_loop h va perms is m)"

definition tlb_find :: "nat \<Rightarrow> u64 \<Rightarrow> u8 \<Rightarrow> Machine \<Rightarrow> (u64 \<times> Machine) option" where
  "tlb_find h va perms m =
    (if satp (hart h m) = 0 then Some (va, m)
     else tlb_find_loop h va perms (tlb_sizes (tlb (hart h m))) m)"

subsection \<open>The page-table walk\<close>

definition set_page_fault :: "bool \<Rightarrow> HartState \<Rightarrow> HartState" where
  "set_page_fault b hs = hs\<lparr>page_fault := b\<rparr>"

definition PAGENUM :: "u64 \<Rightarrow> u64" where
  "PAGENUM x = push_bit 12 x"

text \<open>\<open>satp.MODE\<close>: 8, 9, 10 for Sv39, Sv48, Sv57; the number of levels, 0 for no translation.\<close>

definition satp_levels :: "u64 \<Rightarrow> nat" where
  "satp_levels s =
    (let mode = drop_bit 60 s
     in if mode = 8 then 3 else if mode = 9 then 4 else if mode = 10 then 5 else 0)"

definition pte_invalid :: "u64 \<Rightarrow> bool" where
  "pte_invalid pte \<longleftrightarrow> \<not> bit pte 0 \<or> pte AND 0b110 = 0b100"

definition pte_pointer :: "u64 \<Rightarrow> bool" where
  "pte_pointer pte \<longleftrightarrow> pte AND 0b1110 = 0"

text \<open>The table a pointer entry leads to.\<close>

definition pte_next :: "u64 \<Rightarrow> u64" where
  "pte_next pte = PAGENUM (drop_bit 10 pte AND NOT (push_bit 51 0b111))"

definition pte_ppn :: "u64 \<Rightarrow> u64" where
  "pte_ppn pte = push_bit 2 (pte AND 0x3FFFFFFFFFFC00)"

definition superpage_mask :: "nat \<Rightarrow> u64" where
  "superpage_mask i = NOT (shl64 (- 1) (9 * i + 12))"

text \<open>The permission checks on a leaf, in the order of the source; \<open>load\<close> is the caller's \<open>mem_status\<close>.\<close>

definition leaf_denied :: "HartState \<Rightarrow> bool \<Rightarrow> bool \<Rightarrow> nat \<Rightarrow> u64 \<Rightarrow> bool" where
  "leaf_denied hs load wr i pte \<longleftrightarrow>
     (if wr then \<not> bit pte 2
      else (load \<and> \<not> bit pte 1)
         \<or> (\<not> load \<and> \<not> (bit pte 3 \<or> (bit (mstatus hs) 19 \<and> bit pte 1))))
     \<or> (if bit pte 4 then privmode hs \<ge> 1 \<and> (\<not> bit (mstatus hs) 18 \<or> (\<not> load \<and> \<not> wr))
        else privmode hs = 0)
     \<or> (0 < i \<and> pte_ppn pte AND superpage_mask i \<noteq> 0)"

definition leaf_entry :: "nat \<Rightarrow> u64 \<Rightarrow> u64 \<Rightarrow> u64 \<Rightarrow> TLBEntry" where
  "leaf_entry i va a pte = \<lparr>virt_page = va AND shl64 (- 1) (12 + 9 * i), phy_page = pte_ppn pte,
     pte_addr = a, tlb_size = of_nat i, permissions = ucast (drop_bit 1 pte AND 0b111),
     user = bit pte 4\<rparr>"

text \<open>A leaf at level \<open>i\<close>, read from address \<open>a\<close>.\<close>

definition walk_leaf :: "nat \<Rightarrow> u64 \<Rightarrow> bool \<Rightarrow> bool \<Rightarrow> nat \<Rightarrow> u64 \<Rightarrow> u64 \<Rightarrow> Machine \<Rightarrow>
    (u64 \<times> Machine) option" where
  "walk_leaf h va wr load i a pte m =
    (if leaf_denied (hart h m) load wr i pte then Some (0, upd_hart h (set_page_fault True) m)
     else do {
       let pte' = (if pte_needs_mark pte then pte_mark wr pte else pte);
       m1 \<leftarrow> (if pte_needs_mark pte then mem_store h 8 a pte' m else Some m);
       if pte_needs_mark pte \<and> mem_status (hart h m1) then Some (0, m1)
       else Some ((va AND superpage_mask i) + pte_ppn pte,
         upd_hart h (\<lambda>hs. hs\<lparr>tlb := tlb_add (tlb hs) (leaf_entry i va a pte'), mem_status := False\<rparr>) m1)
     })"

definition pte_address :: "u64 \<Rightarrow> nat \<Rightarrow> u64 \<Rightarrow> u64" where
  "pte_address a i va = a + 8 * (drop_bit (9 * i + 12) va AND 0b111111111)"

fun walk_loop :: "nat \<Rightarrow> u64 \<Rightarrow> bool \<Rightarrow> bool \<Rightarrow> nat list \<Rightarrow> u64 \<Rightarrow> Machine \<Rightarrow> (u64 \<times> Machine) option" where
  "walk_loop h va wr load [] a m = Some (0, upd_hart h (set_page_fault True) m)"
| "walk_loop h va wr load (i # is) a m = do {
     (pte, m1) \<leftarrow> mem_fetch h 8 (pte_address a i va) (upd_hart h (set_mem_status load) m);
     if mem_status (hart h m1) then Some (0, m1)
     else if pte_invalid pte then Some (0, upd_hart h (set_page_fault True) m1)
     else if pte_pointer pte then
       walk_loop h va wr load is (pte_next pte) m1
     else walk_leaf h va wr load i (pte_address a i va) pte m1
   }"

definition page_table_walk :: "nat \<Rightarrow> u64 \<Rightarrow> bool \<Rightarrow> Machine \<Rightarrow> (u64 \<times> Machine) option" where
  "page_table_walk h va wr m =
    (let hs = hart h m
     in if satp_levels (satp hs) = 0 then Some (va, upd_hart h (set_mem_status False) m)
        else walk_loop h va wr (mem_status hs) (rev [0..<satp_levels (satp hs)])
               (PAGENUM (satp hs AND 0xFFFFFFFFFFF)) m)"

subsection \<open>Virtual accesses\<close>

definition set_privmode :: "u8 \<Rightarrow> HartState \<Rightarrow> HartState" where
  "set_privmode p hs = hs\<lparr>privmode := p\<rparr>"

definition mpp :: "HartState \<Rightarrow> u8" where
  "mpp hs = ucast (drop_bit 11 (mstatus hs) AND 0b11)"

definition mprv_active :: "HartState \<Rightarrow> bool" where
  "mprv_active hs \<longleftrightarrow> bit (mstatus hs) 17 \<and> mpp hs \<noteq> 0b11"

text \<open>Translation by the TLB and, on a miss, by a walk: \<open>None\<close> in the first component is a fault.\<close>

definition translate :: "nat \<Rightarrow> u64 \<Rightarrow> u8 \<Rightarrow> bool \<Rightarrow> Machine \<Rightarrow> (u64 option \<times> Machine) option" where
  "translate h va perms wr m = do {
     (pa, m1) \<leftarrow> tlb_find h va perms m;
     if pa \<noteq> 0 then Some (Some pa, m1)
     else do {
       let curr = mem_status (hart h m1);
       (pa', m2) \<leftarrow> page_table_walk h va wr m1;
       if page_fault (hart h m2) \<or> mem_status (hart h m2) then Some (None, m2)
       else Some (Some pa', upd_hart h (set_mem_status curr) m2) }
   }"

definition virt_mem_fetch :: "nat \<Rightarrow> nat \<Rightarrow> u64 \<Rightarrow> Machine \<Rightarrow> (u64 \<times> Machine) option" where
  "virt_mem_fetch h n addr m =
    (let hs = hart h m; inMPRV = (privmode hs = 0b11)
     in if privmode hs = 0b11 \<and> \<not> (mem_status hs \<and> mprv_active hs) then mem_fetch h n addr m
        else do {
          (pa, m1) \<leftarrow> translate h addr (if mem_status hs then 0b001 else 0b100) False
                        (if inMPRV then upd_hart h (set_privmode (mpp hs)) m else m);
          (x, m2) \<leftarrow> (case pa of None \<Rightarrow> Some (0, m1) | Some a \<Rightarrow> mem_fetch h n a m1);
          Some (x, if inMPRV then upd_hart h (set_privmode 0b11) m2 else m2)
        })"

definition virt_mem_store :: "nat \<Rightarrow> nat \<Rightarrow> u64 \<Rightarrow> u64 \<Rightarrow> Machine \<Rightarrow> Machine option" where
  "virt_mem_store h n addr data m =
    (let hs = hart h m; inMPRV = (privmode hs = 0b11)
     in if privmode hs = 0b11 \<and> \<not> mprv_active hs then mem_store h n addr data m
        else do {
          (pa, m1) \<leftarrow> translate h addr 0b010 True
                        (if inMPRV then upd_hart h (set_privmode (mpp hs)) m else m);
          m2 \<leftarrow> (case pa of None \<Rightarrow> Some m1 | Some a \<Rightarrow> mem_store h n a data m1);
          Some (if inMPRV then upd_hart h (set_privmode 0b11) m2 else m2)
        })"

subsection \<open>Frame and invariant\<close>

lemma hartid_setters [simp]:
  "hartid (set_page_fault b hs) = hartid hs" "hartid (set_privmode p hs) = hartid hs"
  "hart_good (set_page_fault b hs) = hart_good hs"
  "p \<le> 3 \<Longrightarrow> hart_good hs \<Longrightarrow> hart_good (set_privmode p hs)"
  by (simp_all add: set_page_fault_def set_privmode_def hart_good_def)

lemma mpp_le: "mpp hs \<le> 3"
proof -
  have m: "(0b11 :: u64) = mask 2" by (simp add: mask_eq_exp_minus_1)
  have "mpp hs < 2 ^ 2"
    unfolding mpp_def m by (intro less_pow_of_bits) (auto simp: bit_simps)
  then show ?thesis by (simp add: word_less_nat_alt word_le_nat_alt)
qed

lemma leaf_entry_good:
  assumes "i \<le> 4" "\<not> pte_pointer pte"
  shows "tlb_entry_for i va (leaf_entry i va a pte)"
proof -
  have m: "(0b111 :: u64) = mask 3" "(0b1110 :: u64) = bmask 1 3"
    by (simp_all add: bmask_def mask_eq_exp_minus_1)
  have "ucast (drop_bit 1 pte AND 0b111) \<noteq> (0 :: u8)"
  proof
    assume z: "ucast (drop_bit 1 pte AND 0b111) = (0 :: u8)"
    have "pte AND 0b1110 = 0"
    proof (rule bit_word_eqI)
      fix n assume "n < LENGTH(64)"
      have "bit (ucast (drop_bit 1 pte AND 0b111) :: u8) (n - 1) = False" using z by simp
      then show "bit (pte AND 0b1110) n = bit 0 n"
        unfolding m by (cases n) (auto simp: bit_simps bits)
    qed
    then show False using assms(2) by (simp add: pte_pointer_def)
  qed
  then show ?thesis
    using assms(1) by (simp add: tlb_entry_for_def leaf_entry_def page_base_def offset_size_small unat_of_nat)
qed

lemma access_hart_page_fault [simp]: "access_hart s (set_page_fault b s)"
  by (simp add: set_page_fault_def access_hart_def)

lemma access_step_upd:
  "machine_good m \<Longrightarrow> access_hart (hart h m) (f (hart h m)) \<Longrightarrow>
   (hart_good (hart h m) \<Longrightarrow> hart_good (f (hart h m))) \<Longrightarrow> access_step h m (upd_hart h f m)"
  by (simp add: access_step_def access_frame_upd machine_good_upd access_hart_fields(4))

lemma access_step_good: "access_step h m m' \<Longrightarrow> machine_good m'"
  by (simp add: access_step_def)

lemma access_step_fault: "machine_good m \<Longrightarrow> access_step h m (upd_hart h (set_page_fault b) m)"
  by (rule access_step_upd) simp_all

lemma tlb_touch_pte_step:
  assumes g: "machine_good m" and f: "tlb_touch_pte h perms e m = Some (ok, m')"
  shows "access_step h m m'"
proof -
  obtain pte m1 where f1: "mem_fetch h 8 (pte_addr e) m = Some (pte, m1)"
    using f by (auto simp: tlb_touch_pte_def)
  have s1: "access_step h m m1" by (rule mem_fetch_step[OF g f1])
  show ?thesis
  proof (cases "pte_needs_mark pte")
    case True
    then obtain m2 where f2: "mem_store h 8 (pte_addr e) (pte_mark (bit perms 1) pte) m1 = Some m2"
      and m': "m' = m2 \<or> m' = upd_hart h (set_mem_status False) m2"
      using f f1 by (auto simp: tlb_touch_pte_def split: if_splits)
    have "access_step h m1 m2" by (rule mem_store_step[OF access_step_good[OF s1] f2])
    then have s2: "access_step h m m2" using s1 access_step_trans by blast
    then show ?thesis
      using m' access_step_trans[OF s2 access_step_status[OF access_step_good[OF s2]]] by blast
  next
    case False
    then show ?thesis using f f1 s1 by (auto simp: tlb_touch_pte_def)
  qed
qed

lemma tlb_find_loop_step:
  assumes "machine_good m" and "tlb_find_loop h va perms is m = Some (pa, m')"
  shows "access_step h m m'"
  using assms
proof (induction "is")
  case Nil
  then show ?case by (simp add: access_step_refl)
next
  case (Cons i "is")
  then show ?case
    by (cases "tlb_hit (hart h m) i va perms (tlb_slot (tlb (hart h m)) i va)")
      (auto simp: Let_def intro: tlb_touch_pte_step)
qed

lemma tlb_find_step:
  "machine_good m \<Longrightarrow> tlb_find h va perms m = Some (pa, m') \<Longrightarrow> access_step h m m'"
  by (auto simp: tlb_find_def access_step_refl intro: tlb_find_loop_step split: if_splits)

lemma pte_pointer_mark [simp]: "pte_pointer (pte_mark wr pte) = pte_pointer pte"
proof -
  have m: "(0b1110 :: u64) = bmask 1 3" by (simp add: bmask_def mask_eq_exp_minus_1)
  have "pte_mark wr pte AND bmask 1 3 = pte AND bmask 1 3"
    by (rule bit_word_eqI) (auto simp: pte_mark_def bit_simps bits)
  then show ?thesis by (simp add: pte_pointer_def m)
qed

lemma hart_good_tlb_add:
  "hart_good hs \<Longrightarrow> tlb_entry_for i va e \<Longrightarrow> hart_good (hs\<lparr>tlb := tlb_add (tlb hs) e, mem_status := b\<rparr>)"
  using tlb_cache.inv_add by (simp add: hart_good_def)

lemma walk_leaf_step:
  assumes i: "i \<le> 4" and leaf: "\<not> pte_pointer pte" and g: "machine_good m" and f: "walk_leaf h va wr load i a pte m = Some (pa, m')"
  shows "access_step h m m'"
proof (cases "leaf_denied (hart h m) load wr i pte")
  case True
  then show ?thesis using f access_step_fault[OF g] by (auto simp: walk_leaf_def)
next
  case False
  define pte' where "pte' = (if pte_needs_mark pte then pte_mark wr pte else pte)"
  obtain m1 where f1: "(if pte_needs_mark pte then mem_store h 8 a pte' m else Some m) = Some m1"
    and m': "m' = m1 \<or> m' = upd_hart h (\<lambda>hs. hs\<lparr>tlb := tlb_add (tlb hs) (leaf_entry i va a pte'),
        mem_status := False\<rparr>) m1"
    using f False unfolding walk_leaf_def Let_def pte'_def[symmetric]
    by (auto split: if_splits)
  have s1: "access_step h m m1"
    using f1 g by (auto split: if_splits intro: mem_store_step access_step_refl)
  have "access_step h m1 (upd_hart h (\<lambda>hs. hs\<lparr>tlb := tlb_add (tlb hs) (leaf_entry i va a pte'),
        mem_status := False\<rparr>) m1)"
    using access_step_good[OF s1]
  proof (rule access_step_upd)
    have "tlb_entry_for i va (leaf_entry i va a pte')"
      using leaf by (intro leaf_entry_good[OF i]) (simp add: pte'_def)
    then show "hart_good (hart h m1) \<Longrightarrow> hart_good ((hart h m1)\<lparr>tlb := tlb_add (tlb (hart h m1)) (leaf_entry i va a pte'),
        mem_status := False\<rparr>)"
      using hart_good_tlb_add by blast
  qed (simp add: access_hart_def)
  then show ?thesis using m' s1 access_step_trans by blast
qed

lemma walk_loop_step:
  assumes "\<forall>i \<in> set is. i \<le> 4" and "machine_good m" and "walk_loop h va wr load is a m = Some (pa, m')"
  shows "access_step h m m'"
  using assms
proof (induction "is" arbitrary: a m)
  case Nil
  then show ?case by (auto simp: access_step_fault)
next
  case (Cons i "is")
  define m0 where "m0 = upd_hart h (set_mem_status load) m"
  have s0: "access_step h m m0" unfolding m0_def by (rule access_step_status[OF Cons.prems(2)])
  obtain pte m1 where f1: "mem_fetch h 8 (pte_address a i va) m0 = Some (pte, m1)"
    using Cons.prems(3) by (auto simp: m0_def)
  have s1: "access_step h m m1"
    using access_step_trans[OF s0 mem_fetch_step[OF access_step_good[OF s0] f1]] .
  note g1 = access_step_good[OF s1]
  have "access_step h m1 m'"
    using Cons.prems f1 Cons.IH[OF _ g1] walk_leaf_step[OF _ _ g1] access_step_fault[OF g1]
      access_step_refl[OF g1]
    by (auto simp: m0_def split: if_splits)
  then show ?case using s1 access_step_trans by blast
qed

lemma satp_levels_le: "satp_levels x \<le> 5"
  by (simp add: satp_levels_def Let_def)

lemma page_table_walk_step:
  assumes g: "machine_good m" and f: "page_table_walk h va wr m = Some (pa, m')"
  shows "access_step h m m'"
proof (cases "satp_levels (satp (hart h m)) = 0")
  case True
  then show ?thesis using f g by (auto simp: page_table_walk_def access_step_status)
next
  case False
  have lv: "\<forall>i \<in> set (rev [0..<satp_levels (satp (hart h m))]). i \<le> 4"
    using satp_levels_le[of "satp (hart h m)"] by auto
  have "walk_loop h va wr (mem_status (hart h m)) (rev [0..<satp_levels (satp (hart h m))])
      (PAGENUM (satp (hart h m) AND 0xFFFFFFFFFFF)) m = Some (pa, m')"
    using f False by (simp add: page_table_walk_def Let_def)
  then show ?thesis by (rule walk_loop_step[OF lv g])
qed

lemma translate_step:
  assumes g: "machine_good m" and f: "translate h va perms wr m = Some (pa, m')"
  shows "access_step h m m'"
proof -
  obtain p m1 where f1: "tlb_find h va perms m = Some (p, m1)" using f by (auto simp: translate_def)
  have s1: "access_step h m m1" by (rule tlb_find_step[OF g f1])
  show ?thesis
  proof (cases "p = 0")
    case False
    then show ?thesis using f f1 s1 by (auto simp: translate_def)
  next
    case True
    then obtain p' m2 where f2: "page_table_walk h va wr m1 = Some (p', m2)"
      and m': "m' = m2 \<or> m' = upd_hart h (set_mem_status (mem_status (hart h m1))) m2"
      using f f1 by (auto simp: translate_def Let_def split: if_splits)
    have s2: "access_step h m m2"
      using access_step_trans[OF s1 page_table_walk_step[OF access_step_good[OF s1] f2]] .
    then show ?thesis
      using m' access_step_trans[OF s2 access_step_status[OF access_step_good[OF s2]]] by blast
  qed
qed

text \<open>Borrowing another privilege mode for an access and giving it back is invisible.\<close>

lemma access_step_mprv:
  assumes h: "h < length (hartlist m)" and p: "privmode (hart h m) = q" and q: "q \<le> 3"
    and s: "access_step h (upd_hart h (set_privmode p) m) m2"
  shows "access_step h m (upd_hart h (set_privmode q) m2)"
proof -
  have core: "access_core (set_privmode x s) = (access_core s)\<lparr>privmode := x\<rparr>" for x s
    by (simp add: access_core_def set_privmode_def)
  have f: "access_frame h (upd_hart h (set_privmode p) m) m2" and g: "machine_good m2"
    using s by (simp_all add: access_step_def)
  have l: "length (hartlist m2) = length (hartlist m)" using f by (simp add: access_frame_def)
  have "access_core (hart h m2) = (access_core (hart h m))\<lparr>privmode := p\<rparr>"
    using f h by (simp add: access_frame_def access_hart_def core)
  then have "access_core (hart h (upd_hart h (set_privmode q) m2)) = (access_core (hart h m))\<lparr>privmode := q\<rparr>"
    using l h by (simp add: core)
  also have "\<dots> = access_core (hart h m)" using p by (simp add: access_core_def)
  finally have "access_hart (hart h m) (set_privmode q (hart h m2))"
    using l h by (simp add: access_hart_def)
  moreover have "\<forall>k < length (hartlist m). k \<noteq> h \<longrightarrow> only_mip (hart k m) (hart k m2)"
    using f by (simp add: access_frame_def)
  ultimately have "access_frame h m (upd_hart h (set_privmode q) m2)"
    using f by (simp add: access_frame_def)
  then show ?thesis using g q by (simp add: access_step_def machine_good_upd)
qed

lemma virt_mem_fetch_step:
  assumes g: "machine_good m" and h: "h < length (hartlist m)"
    and f: "virt_mem_fetch h n va m = Some (x, m')"
  shows "access_step h m m'"
proof (cases "privmode (hart h m) = 0b11 \<and> \<not> (mem_status (hart h m) \<and> mprv_active (hart h m))")
  case True
  then show ?thesis using f mem_fetch_step[OF g] by (simp add: virt_mem_fetch_def Let_def)
next
  case False
  define M where "M = (privmode (hart h m) = 0b11)"
  define m0 where "m0 = (if M then upd_hart h (set_privmode (mpp (hart h m))) m else m)"
  have g0: "machine_good m0" using g by (simp add: m0_def machine_good_upd mpp_le)
  obtain pa m1 y m2 where t: "translate h va (if mem_status (hart h m) then 0b001 else 0b100) False m0 = Some (pa, m1)"
    and a: "(case pa of None \<Rightarrow> Some (0, m1) | Some a \<Rightarrow> mem_fetch h n a m1) = Some (y, m2)"
    and m': "m' = (if M then upd_hart h (set_privmode 0b11) m2 else m2)"
    using f False unfolding virt_mem_fetch_def Let_def M_def[symmetric] m0_def[symmetric]
    by auto
  have s1: "access_step h m0 m1" by (rule translate_step[OF g0 t])
  have "access_step h m1 m2"
    using a access_step_good[OF s1] by (auto split: option.splits intro: mem_fetch_step access_step_refl)
  then have "access_step h m0 m2" using s1 access_step_trans by blast
  then show ?thesis using access_step_mprv[OF h] by (auto simp: m' m0_def M_def split: if_splits)
qed

lemma virt_mem_store_step:
  assumes g: "machine_good m" and h: "h < length (hartlist m)"
    and f: "virt_mem_store h n va d m = Some m'"
  shows "access_step h m m'"
proof (cases "privmode (hart h m) = 0b11 \<and> \<not> mprv_active (hart h m)")
  case True
  then show ?thesis using f mem_store_step[OF g] by (simp add: virt_mem_store_def Let_def)
next
  case False
  define M where "M = (privmode (hart h m) = 0b11)"
  define m0 where "m0 = (if M then upd_hart h (set_privmode (mpp (hart h m))) m else m)"
  have g0: "machine_good m0" using g by (simp add: m0_def machine_good_upd mpp_le)
  obtain pa m1 m2 where t: "translate h va 0b010 True m0 = Some (pa, m1)"
    and a: "(case pa of None \<Rightarrow> Some m1 | Some a \<Rightarrow> mem_store h n a d m1) = Some m2"
    and m': "m' = (if M then upd_hart h (set_privmode 0b11) m2 else m2)"
    using f False unfolding virt_mem_store_def Let_def M_def[symmetric] m0_def[symmetric]
    by auto
  have s1: "access_step h m0 m1" by (rule translate_step[OF g0 t])
  have "access_step h m1 m2"
    using a access_step_good[OF s1] by (auto split: option.splits intro: mem_store_step access_step_refl)
  then have "access_step h m0 m2" using s1 access_step_trans by blast
  then show ?thesis using access_step_mprv[OF h] by (auto simp: m' m0_def M_def split: if_splits)
qed

subsection \<open>Virtual accesses without translation\<close>

lemma virt_mem_fetch_bare:
  "privmode (hart h m) = 3 \<Longrightarrow> \<not> mprv_active (hart h m) \<Longrightarrow> virt_mem_fetch h n va m = mem_fetch h n va m"
  by (simp add: virt_mem_fetch_def)

lemma virt_mem_store_bare:
  "privmode (hart h m) = 3 \<Longrightarrow> \<not> mprv_active (hart h m) \<Longrightarrow> virt_mem_store h n va d m = mem_store h n va d m"
  by (simp add: virt_mem_store_def)

lemma translate_off:
  "satp (hart h m) = 0 \<Longrightarrow> va \<noteq> 0 \<Longrightarrow> translate h va perms wr m = Some (Some va, m)"
  by (simp add: translate_def tlb_find_def)

subsection \<open>The walk as a pure search\<close>

text \<open>
  The tree search of the privileged specification over a reader of page-table entries: the
  level, address and contents of the leaf, or nothing.
\<close>

fun sv_walk :: "(u64 \<Rightarrow> u64) \<Rightarrow> u64 \<Rightarrow> nat list \<Rightarrow> u64 \<Rightarrow> (nat \<times> u64 \<times> u64) option" where
  "sv_walk rd va [] a = None"
| "sv_walk rd va (i # is) a =
    (let pa = pte_address a i va; pte = rd pa
     in if pte_invalid pte then None
        else if pte_pointer pte then
          sv_walk rd va is (pte_next pte)
        else Some (i, pa, pte))"

text \<open>The entries the search looks at, in order.\<close>

fun sv_path :: "(u64 \<Rightarrow> u64) \<Rightarrow> u64 \<Rightarrow> nat list \<Rightarrow> u64 \<Rightarrow> u64 list" where
  "sv_path rd va [] a = []"
| "sv_path rd va (i # is) a =
    (let pa = pte_address a i va; pte = rd pa
     in pa # (if pte_invalid pte \<or> \<not> pte_pointer pte then []
              else sv_path rd va is (pte_next pte)))"

text \<open>A page-table entry in RAM that hart \<open>h\<close> may read, as a load or as a fetch.\<close>

definition pte_readable :: "nat \<Rightarrow> bool \<Rightarrow> Machine \<Rightarrow> u64 \<Rightarrow> bool" where
  "pte_readable h load m a \<longleftrightarrow> mem_access_ok h (if load then 0 else 2) 8 a m \<and> ram_access_ok 8 a m"

definition with_status :: "nat \<Rightarrow> bool \<Rightarrow> Machine \<Rightarrow> Machine" where
  "with_status h b m = upd_hart h (set_mem_status b) m"

lemma set_mem_status_simps [simp]:
  "privmode (set_mem_status b hs) = privmode hs" "pmp_expanded (set_mem_status b hs) = pmp_expanded hs"
  "pmp_all_enabled (set_mem_status b hs) = pmp_all_enabled hs"
  "min_lbound (set_mem_status b hs) = min_lbound hs" "max_ubound (set_mem_status b hs) = max_ubound hs"
  "mem_status (set_mem_status b hs) = b" "page_fault (set_mem_status b hs) = page_fault hs"
  "mstatus (set_mem_status b hs) = mstatus hs" "satp (set_mem_status b hs) = satp hs"
  "set_mem_status a (set_mem_status b hs) = set_mem_status a hs"
  by (simp_all add: set_mem_status_def)

lemma pmp_checks_status [simp]:
  "range_check (set_mem_status b hs) p lo hi = range_check hs p lo hi"
  "byte_check (set_mem_status b hs) p lo hi = byte_check hs p lo hi"
proof -
  have "chk_pmp_range_exp_loop (set_mem_status b hs) lo hi is = chk_pmp_range_exp_loop hs lo hi is" for "is"
    by (induction "is") (simp_all add: Let_def)
  then show "range_check (set_mem_status b hs) p lo hi = range_check hs p lo hi"
    by (simp add: range_check_def range_grants_def chk_pmp_range_exp_def)
  have "chk_pmp_exp_loop (set_mem_status b hs) lo is = chk_pmp_exp_loop hs lo is" for "is"
    by (induction "is") (simp_all add: Let_def)
  then show "byte_check (set_mem_status b hs) p lo hi = byte_check hs p lo hi"
    by (simp add: byte_check_def byte_grants_def chk_pmp_exp_def)
qed

lemma mem_access_ok_status [simp]:
  "h < length (hartlist m) \<Longrightarrow> mem_access_ok h b n a (with_status h s m) = mem_access_ok h b n a m"
  by (simp add: mem_access_ok_def with_status_def mem_in_range_def)

lemma ram_status [simp]:
  "ram_access_ok n a (with_status h s m) = ram_access_ok n a m" "ram_ld n a (with_status h s m) = ram_ld n a m"
  by (simp_all add: ram_access_ok_def ram_ok_def ram_ld_def with_status_def)

lemma with_status_twice [simp]: "with_status h a (with_status h b m) = with_status h a m"
  by (simp add: with_status_def)

lemma pte_readable_status [simp]:
  "h < length (hartlist m) \<Longrightarrow> pte_readable h load (with_status h s m) a = pte_readable h load m a"
  by (simp add: pte_readable_def)

lemma with_status_simps [simp]:
  "length (hartlist (with_status h s m)) = length (hartlist m)"
  "h < length (hartlist m) \<Longrightarrow> mem_status (hart h (with_status h s m)) = s"
  by (simp_all add: with_status_def set_mem_status_def)

lemma mem_fetch_pte:
  assumes "h < length (hartlist m)" "pte_readable h load m a"
  shows "mem_fetch h 8 a (with_status h load m) = Some (ram_ld 8 a m, with_status h False m)"
proof -
  have "mem_fetch h 8 a (with_status h load m) = phy_mem_fetch 8 a (with_status h False (with_status h load m))"
    using assms unfolding mem_fetch_cases by (simp add: pte_readable_def with_status_def[symmetric])
  then show ?thesis using assms by (simp add: phy_mem_fetch_ram pte_readable_def)
qed

text \<open>The walk is the search followed by the leaf checks; a search that finds nothing is a page fault.\<close>

lemma walk_loop_sv:
  assumes h: "h < length (hartlist m)"
    and path: "\<forall>a \<in> set (sv_path (\<lambda>a. ram_ld 8 a m) va is root). pte_readable h load m a"
  shows "walk_loop h va wr load is root (with_status h s m) =
    (let m0 = with_status h (if is = [] then s else False) m
     in case sv_walk (\<lambda>a. ram_ld 8 a m) va is root of
          None \<Rightarrow> Some (0, upd_hart h (set_page_fault True) m0)
        | Some (i, a, pte) \<Rightarrow> walk_leaf h va wr load i a pte m0)"
  using path
proof (induction "is" arbitrary: root s)
  case Nil
  then show ?case by simp
next
  case (Cons i "is")
  define a where "a = pte_address root i va"
  define pte where "pte = ram_ld 8 a m"
  define nxt where "nxt = pte_next pte"
  have r: "pte_readable h load m a" using Cons.prems by (simp add: a_def Let_def)
  have f: "mem_fetch h 8 a (upd_hart h (set_mem_status load) (with_status h s m)) =
      Some (pte, with_status h False m)"
    using mem_fetch_pte[OF h r] by (simp add: with_status_def[symmetric] pte_def)
  have ms: "\<not> mem_status (hart h (with_status h False m))" using h by simp
  have unf: "walk_loop h va wr load (i # is) root (with_status h s m) =
      (if pte_invalid pte then Some (0, upd_hart h (set_page_fault True) (with_status h False m))
       else if pte_pointer pte then walk_loop h va wr load is nxt (with_status h False m)
       else walk_leaf h va wr load i a pte (with_status h False m))"
    using f ms by (simp add: a_def[symmetric] nxt_def)
  show ?case
  proof (cases "\<not> pte_invalid pte \<and> pte_pointer pte")
    case True
    then have p: "\<forall>a \<in> set (sv_path (\<lambda>a. ram_ld 8 a m) va is nxt). pte_readable h load m a"
      using Cons.prems by (simp add: a_def[symmetric] pte_def[symmetric] nxt_def Let_def)
    show ?thesis
      unfolding unf using Cons.IH[OF p, of False] True
      by (simp add: Let_def a_def[symmetric] pte_def[symmetric] nxt_def[symmetric])
  next
    case False
    then show ?thesis
      unfolding unf by (auto simp: Let_def a_def[symmetric] pte_def[symmetric])
  qed
qed

lemma page_table_walk_sv:
  assumes h: "h < length (hartlist m)" and lv: "0 < satp_levels (satp (hart h m))"
    and path: "\<forall>a \<in> set (sv_path (\<lambda>a. ram_ld 8 a m) va (rev [0..<satp_levels (satp (hart h m))])
        (PAGENUM (satp (hart h m) AND 0xFFFFFFFFFFF))). pte_readable h (mem_status (hart h m)) m a"
  shows "page_table_walk h va wr m =
    (case sv_walk (\<lambda>a. ram_ld 8 a m) va (rev [0..<satp_levels (satp (hart h m))])
        (PAGENUM (satp (hart h m) AND 0xFFFFFFFFFFF)) of
       None \<Rightarrow> Some (0, upd_hart h (set_page_fault True) (with_status h False m))
     | Some (i, a, pte) \<Rightarrow> walk_leaf h va wr (mem_status (hart h m)) i a pte (with_status h False m))"
proof -
  have m: "with_status h (mem_status (hart h m)) m = m"
    using h by (simp add: with_status_def upd_hart_def set_mem_status_def hart_def)
  have ne: "rev [0..<satp_levels (satp (hart h m))] \<noteq> []" using lv by simp
  show ?thesis
    using walk_loop_sv[OF h path, of wr "mem_status (hart h m)"] ne lv
    unfolding m by (simp add: page_table_walk_def Let_def)
qed

subsection \<open>The page offset survives\<close>

lemma bit_superpage_mask: "i \<le> 4 \<Longrightarrow> bit (superpage_mask i) k \<longleftrightarrow> k < 12 + 9 * i"
  by (cases "k < 64") (auto simp: superpage_mask_def shl64_def bit_simps bit_64_above)

lemma bit_pte_ppn: "bit (pte_ppn pte) k \<longleftrightarrow> 12 \<le> k \<and> k < 56 \<and> bit pte (k - 2)"
proof -
  have m: "(0x3FFFFFFFFFFC00 :: u64) = push_bit 10 (mask 44)" by (simp add: mask_eq_exp_minus_1)
  show ?thesis unfolding pte_ppn_def m by (cases "k < 64") (auto simp: bit_simps bit_64_above)
qed

text \<open>An aligned leaf keeps every bit of the offset within its (super)page.\<close>

lemma leaf_aligned:
  assumes i: "i \<le> 4" and ok: "\<not> leaf_denied hs load wr i pte" and j: "j < 12 + 9 * i"
  shows "\<not> bit (pte_ppn pte) j"
proof (cases "i = 0")
  case True
  then show ?thesis using j by (simp add: bit_pte_ppn)
next
  case False
  then have "pte_ppn pte AND superpage_mask i = 0" using ok by (auto simp: leaf_denied_def split: if_splits)
  then have "\<not> bit (pte_ppn pte AND superpage_mask i) j" by simp
  then show ?thesis using j i by (simp add: bit_simps bit_superpage_mask)
qed

lemma leaf_offset:
  assumes i: "i \<le> 4" and ok: "\<not> leaf_denied hs load wr i pte" and k: "k < 12 + 9 * i"
  shows "bit ((va AND superpage_mask i) + pte_ppn pte) k = bit va k"
    and "bit ((va AND superpage_mask i) + pte_ppn pte) k' = (if k' < 12 + 9 * i then bit va k' else bit (pte_ppn pte) k')"
proof -
  note al = leaf_aligned[OF i ok]
  have "(va AND superpage_mask i) AND pte_ppn pte = 0"
    using al i by (intro bit_word_eqI) (auto simp: bit_simps bit_superpage_mask)
  then have s: "(va AND superpage_mask i) + pte_ppn pte = (va AND superpage_mask i) OR pte_ppn pte"
    by (rule disjunctive_add_eq_or)
  have "bit ((va AND superpage_mask i) + pte_ppn pte) k' = (if k' < 12 + 9 * i then bit va k' else bit (pte_ppn pte) k')" for k'
    unfolding s using al i by (auto simp: bit_simps bit_superpage_mask)
  then show "bit ((va AND superpage_mask i) + pte_ppn pte) k' = (if k' < 12 + 9 * i then bit va k' else bit (pte_ppn pte) k')"
    and "bit ((va AND superpage_mask i) + pte_ppn pte) k = bit va k"
    using k by simp_all
qed

subsection \<open>Reading back what was stored\<close>

text \<open>
  C5. A store of up to eight bytes to RAM that the protection grants is visible: loading the same
  range returns the stored bytes, and every disjoint range of the RAM still reads as before.
\<close>

lemma ram_store_visible:
  assumes h: "h < length (hartlist m)" and n: "n \<le> 8" and ok: "mem_access_ok h 1 n a m" "mem_access_ok h 0 n a m"
    and ram: "ram_access_ok n a m"
  shows "\<exists>m1. mem_store h n a d m = Some m1
    \<and> mem_fetch h n a (with_status h True m1) = Some (d AND mask (8 * n), m1)
    \<and> (\<forall>k b. k \<le> 8 \<longrightarrow> ram_access_ok k b m \<longrightarrow> ranges_disjoint n a k b \<longrightarrow> ram_ld k b m1 = ram_ld k b m)"
proof -
  define m1 where "m1 = ram_st n a d (with_status h False m)"
  have s: "mem_store h n a d m = Some m1"
    using ok(1) ram by (simp add: mem_store_cases with_status_def[symmetric] phy_mem_store_ram m1_def)
  have l: "h < length (hartlist m1)" and hh: "hart h m1 = set_mem_status False (hart h m)"
    using h by (simp_all add: m1_def ram_st_def hart_def with_status_def)
      (simp add: upd_hart_def)
  have "hart h (with_status h True m1) = set_mem_status True (hart h m)"
    using l by (simp add: with_status_def hh)
  moreover have "mem_in_range a (with_status h True m1) = mem_in_range a m"
    by (simp add: m1_def ram_st_def mem_in_range_def with_status_def)
  ultimately have "mem_access_ok h 0 n a (with_status h True m1)"
    using ok(2) by (simp add: mem_access_ok_def)
  moreover have "with_status h False (with_status h True m1) = m1"
    using h by (simp add: with_status_def upd_hart_def m1_def ram_st_def set_mem_status_def hart_def)
  moreover have "ram_access_ok n a m1" using ram by (simp add: m1_def)
  moreover have "ram_ld n a m1 = d AND mask (8 * n)" using ram n by (simp add: m1_def ram.ld_st_same)
  ultimately have "mem_fetch h n a (with_status h True m1) = Some (d AND mask (8 * n), m1)"
    using l by (simp add: mem_fetch_cases with_status_def[symmetric] phy_mem_fetch_ram)
  moreover have "ram_ld k b m1 = ram_ld k b m"
    if "k \<le> 8" "ram_access_ok k b m" "ranges_disjoint n a k b" for k b
    using ram.ld_st_disjoint[of n a "with_status h False m" k b d] ram n that by (simp add: m1_def)
  ultimately show ?thesis using s by blast
qed

subsection \<open>What a completed walk returns\<close>

lemma sv_walk_level: "sv_walk rd va is root = Some (i, a, pte) \<Longrightarrow> i \<in> set is \<and> \<not> pte_pointer pte"
  by (induction "is" arbitrary: root) (auto simp: Let_def split: if_splits)

lemma phy_mem_store_only_mip:
  assumes g: "machine_good m" and h: "h < length (hartlist m)" and s: "phy_mem_store n a d m = Some m'"
  shows "only_mip (hart h m) (hart h m')"
proof (cases "0x80000000 \<le> a")
  case True
  then show ?thesis using s by (auto simp: phy_mem_store_def hart_def)
next
  case False
  show ?thesis
  proof (cases "find (entry_hit a) mem_map")
    case None
    then show ?thesis using s False by (simp add: phy_mem_store_def)
  next
    case (Some e)
    then have "handler_w (handler e) (a - base e) d n m = Some m'" using s False by (simp add: phy_mem_store_def)
    then show ?thesis using handler_w_contract[OF g] device_frame_hart h by blast
  qed
qed

lemma tlb_set_mem_status [simp]: "tlb (set_mem_status b hs) = tlb hs"
  by (simp add: set_mem_status_def)

text \<open>A store reports no page fault and leaves the TLB alone.\<close>

lemma mem_store_keeps:
  assumes g: "machine_good m" and h: "h < length (hartlist m)" and s: "mem_store h n a d m = Some m'"
  shows "page_fault (hart h m') = page_fault (hart h m)" "tlb (hart h m') = tlb (hart h m)"
proof -
  have "\<exists>b. only_mip (set_mem_status b (hart h m)) (hart h m')"
  proof (cases "mem_access_ok h 1 n a m")
    case True
    have "machine_good (upd_hart h (set_mem_status False) m)"
      by (rule machine_good_upd[OF g]) simp_all
    then have "only_mip (hart h (upd_hart h (set_mem_status False) m)) (hart h m')"
      by (rule phy_mem_store_only_mip) (use s True h in \<open>simp_all add: mem_store_cases\<close>)
    then show ?thesis using h by auto
  next
    case False
    then have "hart h m' = set_mem_status True (hart h m)" using s h by (auto simp: mem_store_cases)
    then show ?thesis by (metis only_mip_refl)
  qed
  then show "page_fault (hart h m') = page_fault (hart h m)" "tlb (hart h m') = tlb (hart h m)"
    by (auto simp: only_mip_def)
qed

lemma walk_leaf_result:
  assumes g: "machine_good m" and h: "h < length (hartlist m)" and i: "i \<le> 4" and pf: "\<not> page_fault (hart h m)"
    and w: "walk_leaf h va wr load i a pte m = Some (pa, m')" and ok: "\<not> mem_status (hart h m')"
  shows "if leaf_denied (hart h m) load wr i pte then page_fault (hart h m')
    else \<not> page_fault (hart h m')
      \<and> (\<forall>k. bit pa k \<longleftrightarrow> (if k < 12 + 9 * i then bit va k else bit (pte_ppn pte) k))"
proof (cases "leaf_denied (hart h m) load wr i pte")
  case True
  then show ?thesis using w h by (auto simp: walk_leaf_def set_page_fault_def)
next
  case False
  obtain m1 where m1: "(if pte_needs_mark pte then mem_store h 8 a (pte_mark wr pte) m else Some m) = Some m1"
    and r: "(if pte_needs_mark pte \<and> mem_status (hart h m1) then Some (0, m1)
       else Some ((va AND superpage_mask i) + pte_ppn pte,
         upd_hart h (\<lambda>hs. hs\<lparr>tlb := tlb_add (tlb hs) (leaf_entry i va a (if pte_needs_mark pte then pte_mark wr pte else pte)),
           mem_status := False\<rparr>) m1)) = Some (pa, m')"
    using w False by (auto simp: walk_leaf_def Let_def split: if_splits)
  have p1: "\<not> page_fault (hart h m1)" and l1: "length (hartlist m1) = length (hartlist m)"
    using m1 mem_store_keeps(1)[OF g h] mem_store_step[OF g] pf
    by (auto simp: access_step_def access_frame_def split: if_splits)
  have "\<not> (pte_needs_mark pte \<and> mem_status (hart h m1))"
    using r ok by (auto split: if_splits)
  then have "pa = (va AND superpage_mask i) + pte_ppn pte" "\<not> page_fault (hart h m')"
    using r p1 l1 h by auto
  then show ?thesis using False leaf_offset(2)[OF i False, of 0] by simp
qed

subsection \<open>Translation as the privileged manual describes it\<close>

text \<open>
  The manual's translation, over a reader of page-table entries and independent of the code's
  masks and tests.  An entry has the flags V, R, W, X, U at bits 0 to 4 and a 44-bit page number
  at bit 10.  \<open>t\<close> is the page number of the table, \<open>n\<close> the number of levels left.  An entry that
  is not valid, or writable but not readable, faults; one without R, W and X leads to the next
  table; any other is a leaf, which must permit the access and be aligned to its size.
\<close>

datatype access = Fetch | Load | Store

text \<open>\<open>p\<close> is the privilege mode (0 user, 1 supervisor), \<open>ms\<close> is \<open>mstatus\<close>: SUM is bit 18, MXR bit 19.\<close>

fun sv_permits :: "u64 \<Rightarrow> u8 \<Rightarrow> access \<Rightarrow> u64 \<Rightarrow> bool" where
  "sv_permits ms p k pte \<longleftrightarrow>
    (case k of Fetch \<Rightarrow> bit pte 3 | Load \<Rightarrow> bit pte 1 \<or> (bit ms 19 \<and> bit pte 3) | Store \<Rightarrow> bit pte 2)
    \<and> (if bit pte 4 then p = 0 \<or> (bit ms 18 \<and> k \<noteq> Fetch) else p = 1)"

definition sv_ppn :: "u64 \<Rightarrow> u64" where
  "sv_ppn pte = take_bit 44 (drop_bit 10 pte)"

definition sv_entry :: "u64 \<Rightarrow> nat \<Rightarrow> u64 \<Rightarrow> u64" where
  "sv_entry va n t = 4096 * t + 8 * take_bit 9 (drop_bit (12 + 9 * n) va)"

fun sv_translate :: "(u64 \<Rightarrow> u64) \<Rightarrow> u64 \<Rightarrow> u8 \<Rightarrow> access \<Rightarrow> u64 \<Rightarrow> nat \<Rightarrow> u64 \<Rightarrow> u64 option" where
  "sv_translate rd ms p k va 0 t = None"
| "sv_translate rd ms p k va (Suc n) t =
    (let pte = rd (sv_entry va n t)
     in if \<not> bit pte 0 \<or> (\<not> bit pte 1 \<and> bit pte 2) then None
        else if \<not> bit pte 1 \<and> \<not> bit pte 3 then sv_translate rd ms p k va n (sv_ppn pte)
        else if sv_permits ms p k pte \<and> take_bit (9 * n) (sv_ppn pte) = 0
          then Some (push_bit 12 (sv_ppn pte) OR take_bit (12 + 9 * n) va)
        else None)"

text \<open>The entries it reads.\<close>

fun sv_reads :: "(u64 \<Rightarrow> u64) \<Rightarrow> u64 \<Rightarrow> nat \<Rightarrow> u64 \<Rightarrow> u64 list" where
  "sv_reads rd va 0 t = []"
| "sv_reads rd va (Suc n) t =
    (let a = sv_entry va n t; pte = rd a
     in a # (if bit pte 0 \<and> \<not> bit pte 1 \<and> \<not> bit pte 2 \<and> \<not> bit pte 3
             then sv_reads rd va n (sv_ppn pte) else []))"

text \<open>With \<open>n\<close> levels a virtual address is a sign-extended \<open>12 + 9 n\<close>-bit number.\<close>

definition sv_canonical :: "nat \<Rightarrow> u64 \<Rightarrow> bool" where
  "sv_canonical n va \<longleftrightarrow> signed_take_bit (11 + 9 * n) va = va"

definition sv_address :: "(u64 \<Rightarrow> u64) \<Rightarrow> u64 \<Rightarrow> u8 \<Rightarrow> access \<Rightarrow> u64 \<Rightarrow> nat \<Rightarrow> u64 \<Rightarrow> u64 option" where
  "sv_address rd ms p k va n t = (if sv_canonical n va then sv_translate rd ms p k va n t else None)"

subsection \<open>The code's tests against the manual's\<close>

lemma and_low_bits: "(w :: u64) AND 0b110 = 0b100 \<longleftrightarrow> \<not> bit w 1 \<and> bit w 2"
  "(w :: u64) AND 0b1110 = 0 \<longleftrightarrow> \<not> bit w 1 \<and> \<not> bit w 2 \<and> \<not> bit w 3"
proof -
  have m: "(0b110 :: u64) = bmask 1 2" "(0b100 :: u64) = bmask 2 1" "(0b1110 :: u64) = bmask 1 3"
    by (simp_all add: bmask_def mask_eq_exp_minus_1)
  have at: "bit (w AND bmask 1 n) k \<longleftrightarrow> bit w k \<and> 1 \<le> k \<and> k < 1 + n" for n k
    by (cases "k < 64") (auto simp: bit_simps bits bit_64_above)
  show "w AND 0b110 = 0b100 \<longleftrightarrow> \<not> bit w 1 \<and> bit w 2"
  proof
    assume "w AND 0b110 = 0b100"
    then have "bit (w AND bmask 1 2) k = bit (bmask 2 1 :: u64) k" for k unfolding m by simp
    from this[of 1] this[of 2] show "\<not> bit w 1 \<and> bit w 2" unfolding at by (simp add: bits)
  next
    assume b: "\<not> bit w 1 \<and> bit w 2"
    have e: "bit w k \<and> 1 \<le> k \<and> k < 1 + 2 \<longleftrightarrow> k = 2" for k
    proof (cases "k = 1 \<or> k = 2")
      case False
      then have "\<not> (1 \<le> k \<and> k < 1 + 2)" "k \<noteq> 2" by auto
      then show ?thesis by blast
    qed (use b in auto)
    show "w AND 0b110 = 0b100"
      unfolding m by (rule bit_word_eqI) (simp only: at e bit_bmask, auto)
  qed
  show "w AND 0b1110 = 0 \<longleftrightarrow> \<not> bit w 1 \<and> \<not> bit w 2 \<and> \<not> bit w 3"
  proof
    assume "w AND 0b1110 = 0"
    then have "bit (w AND bmask 1 3) k = bit (0 :: u64) k" for k unfolding m by simp
    from this[of 1] this[of 2] this[of 3] show "\<not> bit w 1 \<and> \<not> bit w 2 \<and> \<not> bit w 3" unfolding at by simp
  next
    assume b: "\<not> bit w 1 \<and> \<not> bit w 2 \<and> \<not> bit w 3"
    have e: "\<not> (bit w k \<and> 1 \<le> k \<and> k < 1 + 3)" for k
    proof (cases "k = 1 \<or> k = 2 \<or> k = 3")
      case False
      then have "\<not> (1 \<le> k \<and> k < 1 + 3)" by auto
      then show ?thesis by blast
    qed (use b in auto)
    show "w AND 0b1110 = 0"
      unfolding m by (rule bit_word_eqI) (simp only: at e, simp)
  qed
qed

lemma pte_address_entry: "pte_address (push_bit 12 t) n va = sv_entry va n t"
proof -
  have m: "(0b111111111 :: u64) = mask 9" by (simp add: mask_eq_exp_minus_1)
  show ?thesis
    unfolding pte_address_def sv_entry_def m take_bit_eq_mask[symmetric]
    by (simp add: push_bit_eq_mult mult.commute add.commute)
qed

lemma bit_sv_ppn: "bit (sv_ppn pte) k \<longleftrightarrow> k < 44 \<and> bit pte (10 + k)"
  by (auto simp: sv_ppn_def bit_simps)

lemma high_bits_clear: "drop_bit n w = 0 \<Longrightarrow> n \<le> k \<Longrightarrow> \<not> bit (w :: u64) k"
proof -
  assume z: "drop_bit n w = 0" and k: "n \<le> k"
  have "bit (drop_bit n w) (k - n) = bit w k" using k by (simp add: bit_drop_bit_eq)
  then show ?thesis using z by simp
qed

lemma pte_next_ppn:
  assumes "drop_bit 54 pte = 0"
  shows "pte_next pte = push_bit 12 (sv_ppn pte)"
proof -
  have m: "push_bit 51 0b111 = (bmask 51 3 :: u64)" by (simp add: bmask_def mask_eq_exp_minus_1)
  have c: "j < 54" if "bit pte j" for j using high_bits_clear[OF assms, of j] that by (cases "j < 54") auto
  show ?thesis
    unfolding pte_next_def PAGENUM_def m
    by (rule bit_word_eqI) (auto simp: bit_simps bits bit_sv_ppn dest: c)
qed

lemma pte_ppn_sv: "pte_ppn pte = push_bit 12 (sv_ppn pte)"
  by (rule bit_word_eqI) (auto simp: bit_pte_ppn bit_simps bit_sv_ppn)

lemma misaligned_sv:
  assumes "i \<le> 4"
  shows "0 < i \<and> pte_ppn pte AND superpage_mask i \<noteq> 0 \<longleftrightarrow> take_bit (9 * i) (sv_ppn pte) \<noteq> 0"
proof -
  have "pte_ppn pte AND superpage_mask i = push_bit 12 (take_bit (9 * i) (sv_ppn pte))"
    unfolding pte_ppn_sv using assms
    by (intro bit_word_eqI) (auto simp: bit_simps bit_superpage_mask bit_sv_ppn)
  moreover have "push_bit 12 (take_bit (9 * i) (sv_ppn pte)) = 0 \<longleftrightarrow> take_bit (9 * i) (sv_ppn pte) = 0"
  proof
    assume z: "push_bit 12 (take_bit (9 * i) (sv_ppn pte)) = 0"
    show "take_bit (9 * i) (sv_ppn pte) = 0"
    proof (rule bit_word_eqI)
      fix k
      have "bit (push_bit 12 (take_bit (9 * i) (sv_ppn pte))) (12 + k) = False" using z by simp
      then show "bit (take_bit (9 * i) (sv_ppn pte)) k = bit 0 k" by (auto simp: bit_simps bit_sv_ppn)
    qed
  qed simp
  ultimately show ?thesis by (cases "i = 0") auto
qed

definition access_of :: "bool \<Rightarrow> bool \<Rightarrow> access" where
  "access_of load wr = (if wr then Store else if load then Load else Fetch)"

lemma leaf_denied_sv:
  assumes "i \<le> 4" and "privmode hs \<le> 1" and "bit (mstatus hs) 19 \<longrightarrow> wr"
  shows "leaf_denied hs load wr i pte \<longleftrightarrow>
    \<not> (sv_permits (mstatus hs) (privmode hs) (access_of load wr) pte \<and> take_bit (9 * i) (sv_ppn pte) = 0)"
proof -
  have "privmode hs = 0 \<or> privmode hs = 1"
    using assms(2) by (auto simp: word_le_nat_alt word_unat_eq_iff)
  then show ?thesis
    using assms(3) misaligned_sv[OF assms(1), of pte] by (auto simp: leaf_denied_def access_of_def)
qed

text \<open>With MXR set the code lets a supervisor execute a page that is readable only.\<close>

lemma mxr_permits_fetch:
  "privmode hs = 1 \<Longrightarrow> bit (mstatus hs) 19 \<Longrightarrow>
     \<not> leaf_denied hs False False 0 0b11 \<and> \<not> sv_permits (mstatus hs) 1 Fetch 0b11"
  by (simp add: leaf_denied_def)

lemma rev_upt_Suc: "rev [0..<Suc n] = n # rev [0..<n]"
  by simp

lemma sv_reads_path:
  assumes "\<forall>a \<in> set (sv_reads rd va n t). drop_bit 54 (rd a) = 0"
  shows "sv_path rd va (rev [0..<n]) (push_bit 12 t) = sv_reads rd va n t"
  using assms
proof (induction n arbitrary: t)
  case 0
  then show ?case by simp
next
  case (Suc n)
  define pte where "pte = rd (sv_entry va n t)"
  have r: "drop_bit 54 pte = 0" using Suc.prems by (simp add: Let_def pte_def)
  have c: "\<not> (pte_invalid pte \<or> \<not> pte_pointer pte) \<longleftrightarrow> bit pte 0 \<and> \<not> bit pte 1 \<and> \<not> bit pte 2 \<and> \<not> bit pte 3"
    by (auto simp: pte_invalid_def pte_pointer_def and_low_bits)
  show ?case
    using Suc.IH[of "sv_ppn pte"] Suc.prems c
    unfolding rev_upt_Suc sv_path.simps sv_reads.simps Let_def pte_address_entry pte_def[symmetric]
    by (cases "bit pte 0 \<and> \<not> bit pte 1 \<and> \<not> bit pte 2 \<and> \<not> bit pte 3")
      (simp_all only: if_True if_False simp_thms pte_next_ppn[OF r], auto)
qed

text \<open>The walk as the code structures it, and the leaf it ends at, against the manual.\<close>

lemma sv_walk_translate:
  assumes "\<forall>a \<in> set (sv_reads rd va n t). drop_bit 54 (rd a) = 0" and "n \<le> 5"
    and "privmode hs \<le> 1" and "bit (mstatus hs) 19 \<longrightarrow> wr"
  shows "case sv_walk rd va (rev [0..<n]) (push_bit 12 t) of
      None \<Rightarrow> sv_translate rd (mstatus hs) (privmode hs) (access_of load wr) va n t = None
    | Some (i, a, pte) \<Rightarrow> i \<le> 4 \<and> a \<in> set (sv_reads rd va n t) \<and>
        sv_translate rd (mstatus hs) (privmode hs) (access_of load wr) va n t =
          (if leaf_denied hs load wr i pte then None else Some (pte_ppn pte OR take_bit (12 + 9 * i) va))"
  using assms(1,2)
proof (induction n arbitrary: t)
  case 0
  then show ?case by simp
next
  case (Suc n)
  define a where "a = sv_entry va n t"
  define pte where "pte = rd a"
  have r: "drop_bit 54 pte = 0" using Suc.prems by (simp add: Let_def pte_def a_def)
  have n: "n \<le> 4" using Suc.prems by simp
  have inv: "pte_invalid pte \<longleftrightarrow> \<not> bit pte 0 \<or> (\<not> bit pte 1 \<and> bit pte 2)"
    and ptr: "\<not> pte_invalid pte \<Longrightarrow> pte_pointer pte \<longleftrightarrow> \<not> bit pte 1 \<and> \<not> bit pte 3"
    by (auto simp: pte_invalid_def pte_pointer_def and_low_bits)
  note unf = rev_upt_Suc sv_walk.simps sv_translate.simps sv_reads.simps Let_def pte_address_entry
    a_def[symmetric] pte_def[symmetric]
  show ?case
  proof (cases "pte_invalid pte")
    case True
    then show ?thesis unfolding unf using inv by simp
  next
    case v: False
    show ?thesis
    proof (cases "pte_pointer pte")
      case True
      have b: "bit pte 0 \<and> \<not> bit pte 1 \<and> \<not> bit pte 2 \<and> \<not> bit pte 3" using v inv ptr True by auto
      have "\<forall>a \<in> set (sv_reads rd va n (sv_ppn pte)). drop_bit 54 (rd a) = 0"
        using Suc.prems(1) b unfolding unf by simp
      from Suc.IH[OF this] n show ?thesis
        unfolding unf using v True b by (auto simp: pte_next_ppn[OF r] split: option.splits)
    next
      case False
      then have l: "\<not> (\<not> bit pte 1 \<and> \<not> bit pte 3)" using ptr v by blast
      show ?thesis
        unfolding unf using v inv False l n leaf_denied_sv[OF n assms(3,4), where load = load and pte = pte]
        by (auto simp: pte_ppn_sv simp del: sv_permits.simps)
    qed
  qed
qed

text \<open>A leaf's update of its entry returns, and reports an access fault only if it is not writable.\<close>

lemma walk_leaf_returns:
  assumes h: "h < length (hartlist m)" and ram: "ram_access_ok 8 a m" and ms: "\<not> mem_status (hart h m)"
  shows "\<exists>pa m'. walk_leaf h va wr load i a pte m = Some (pa, m')
    \<and> (mem_status (hart h m') \<longrightarrow> \<not> mem_access_ok h 1 8 a m)"
proof (cases "leaf_denied (hart h m) load wr i pte")
  case True
  then show ?thesis using h ms by (simp add: walk_leaf_def set_page_fault_def)
next
  case False
  define pte' where "pte' = (if pte_needs_mark pte then pte_mark wr pte else pte)"
  have "\<exists>m1. mem_store h 8 a pte' m = Some m1 \<and> length (hartlist m1) = length (hartlist m)
      \<and> (mem_status (hart h m1) \<longleftrightarrow> \<not> mem_access_ok h 1 8 a m)"
  proof (cases "mem_access_ok h 1 8 a m")
    case True
    then show ?thesis
      using h ram by (simp add: mem_store_cases with_status_def[symmetric] phy_mem_store_ram)
        (simp add: ram_st_def hart_def with_status_def upd_hart_def set_mem_status_def)
  next
    case False
    then show ?thesis using h by (simp add: mem_store_cases set_mem_status_def)
  qed
  then obtain m1 where m1: "mem_store h 8 a pte' m = Some m1" "length (hartlist m1) = length (hartlist m)"
    "mem_status (hart h m1) \<longleftrightarrow> \<not> mem_access_ok h 1 8 a m" by blast
  then show ?thesis
    using False h unfolding walk_leaf_def Let_def pte'_def[symmetric]
    by (cases "pte_needs_mark pte"; cases "mem_status (hart h m1)") auto
qed

text \<open>
  C3. In user and supervisor mode a page-table walk computes the translation of the privileged
  manual.  For 3, 4 or 5 levels (Sv39, Sv48, Sv57), a canonical address, MXR clear or a
  store, and entries that lie in RAM the hart may read and have no reserved bit set, the walk
  returns; it reports an access fault only if an entry is not writable (it sets the A and D bits itself); otherwise it
  raises a page fault exactly if the manual's translation faults, and else returns its address.
\<close>

lemma page_table_walk_correct:
  assumes g: "machine_good m" and h: "h < length (hartlist m)" and hs: "hs = hart h m"
    and p: "privmode hs \<le> 1" and mxr: "bit (mstatus hs) 19 \<longrightarrow> wr" and pf: "\<not> page_fault hs"
    and levels: "n \<in> {3, 4, 5}" "drop_bit 60 (satp hs) = of_nat (5 + n)" and va: "sv_canonical n va"
    and root: "root = take_bit 44 (satp hs)" and rd: "rd = (\<lambda>a. ram_ld 8 a m)"
    and entries: "\<forall>a \<in> set (sv_reads rd va n root). pte_readable h (mem_status hs) m a \<and> drop_bit 54 (rd a) = 0"
    and k: "k = (if wr then Store else if mem_status hs then Load else Fetch)"
  shows "\<exists>pa m'. page_table_walk h va wr m = Some (pa, m') \<and>
    (if mem_status (hart h m') then \<exists>a \<in> set (sv_reads rd va n root). \<not> mem_access_ok h 1 8 a m
     else case sv_address rd (mstatus hs) (privmode hs) k va n root of
         None \<Rightarrow> page_fault (hart h m')
       | Some pa' \<Rightarrow> \<not> page_fault (hart h m') \<and> pa = pa')"
proof -
  have lv: "satp_levels (satp hs) = n" using levels by (auto simp: satp_levels_def)
  have m44: "(0xFFFFFFFFFFF :: u64) = mask 44" by (simp add: mask_eq_exp_minus_1)
  have a0: "PAGENUM (satp hs AND 0xFFFFFFFFFFF) = push_bit 12 root"
    unfolding m44 root PAGENUM_def by (simp add: take_bit_eq_mask)
  have res: "\<forall>a \<in> set (sv_reads rd va n root). drop_bit 54 (rd a) = 0" using entries by blast
  have n5: "n \<le> 5" "0 < n" using levels(1) by auto
  have k': "k = access_of (mem_status hs) wr" by (simp add: k access_of_def)
  have walk: "page_table_walk h va wr m =
    (case sv_walk rd va (rev [0..<n]) (push_bit 12 root) of
       None \<Rightarrow> Some (0, upd_hart h (set_page_fault True) (with_status h False m))
     | Some (i, a, pte) \<Rightarrow> walk_leaf h va wr (mem_status hs) i a pte (with_status h False m))"
    using page_table_walk_sv[OF h, of va wr] sv_reads_path[OF res] entries n5(2)
    unfolding hs[symmetric] lv a0 rd[symmetric] by simp
  note tr = sv_walk_translate[OF res n5(1) p mxr, where load = "mem_status hs", folded k']
  have adr: "sv_address rd (mstatus hs) (privmode hs) k va n root =
      sv_translate rd (mstatus hs) (privmode hs) k va n root" using va by (simp add: sv_address_def)
  show ?thesis
  proof (cases "sv_walk rd va (rev [0..<n]) (push_bit 12 root)")
    case None
    then show ?thesis using walk tr h unfolding adr by (simp add: set_page_fault_def)
  next
    case (Some x)
    obtain i a pte where x: "x = (i, a, pte)" by (cases x)
    let ?m = "with_status h False m"
    have i: "i \<le> 4" and a: "a \<in> set (sv_reads rd va n root)"
      and t: "sv_translate rd (mstatus hs) (privmode hs) k va n root =
        (if leaf_denied hs (mem_status hs) wr i pte then None else Some (pte_ppn pte OR take_bit (12 + 9 * i) va))"
      using tr by (auto simp: Some x)
    have ram: "ram_access_ok 8 a ?m" using entries a by (simp add: pte_readable_def)
    have w: "page_table_walk h va wr m = walk_leaf h va wr (mem_status hs) i a pte ?m"
      using walk by (simp add: Some x)
    obtain pa m' where leaf: "walk_leaf h va wr (mem_status hs) i a pte ?m = Some (pa, m')"
      and flt: "mem_status (hart h m') \<longrightarrow> \<not> mem_access_ok h 1 8 a m"
      using walk_leaf_returns[of h ?m a va wr "mem_status hs" i pte] h ram by auto
    have g0: "machine_good ?m" unfolding with_status_def by (rule machine_good_upd[OF g]) simp_all
    have ld: "leaf_denied (hart h ?m) (mem_status hs) wr i pte = leaf_denied hs (mem_status hs) wr i pte"
      using h by (simp add: leaf_denied_def with_status_def hs)
    have "case sv_address rd (mstatus hs) (privmode hs) k va n root of
         None \<Rightarrow> page_fault (hart h m') | Some pa' \<Rightarrow> \<not> page_fault (hart h m') \<and> pa = pa'"
      if ok: "\<not> mem_status (hart h m')"
    proof -
      have pf': "\<not> page_fault (hart h ?m)" using h pf by (simp add: with_status_def hs)
      note res = walk_leaf_result[OF g0 _ i pf' leaf ok, unfolded ld]
      have "pa = pte_ppn pte OR take_bit (12 + 9 * i) va" if nd: "\<not> leaf_denied hs (mem_status hs) wr i pte"
      proof (rule bit_word_eqI)
        fix j :: nat assume "j < LENGTH(64)"
        have "\<not> bit (pte_ppn pte) j" if "j < 12 + 9 * i"
          using leaf_aligned[OF i nd that] .
        then show "bit pa j = bit (pte_ppn pte OR take_bit (12 + 9 * i) va) j"
          using res nd h \<open>j < LENGTH(64)\<close> by (auto simp: bit_simps)
      qed
      then show ?thesis using res h unfolding adr t by auto
    qed
    then show ?thesis using w leaf flt a by auto
  qed
qed

subsection \<open>A hit repeats the walk\<close>

lemma walk_leaf_fill:
  assumes g: "machine_good m" and h: "h < length (hartlist m)" and pf: "\<not> page_fault (hart h m')"
    and w: "walk_leaf h va wr load i a pte m = Some (pa, m')" and ok: "\<not> mem_status (hart h m')"
  shows "\<not> leaf_denied (hart h m) load wr i pte \<and> pa = (va AND superpage_mask i) + pte_ppn pte
    \<and> tlb (hart h m') = tlb_add (tlb (hart h m))
        (leaf_entry i va a (if pte_needs_mark pte then pte_mark wr pte else pte))"
proof -
  have nd: "\<not> leaf_denied (hart h m) load wr i pte" using w pf h by (auto simp: walk_leaf_def set_page_fault_def)
  obtain m1 where m1: "(if pte_needs_mark pte then mem_store h 8 a (pte_mark wr pte) m else Some m) = Some m1"
    and r: "(if pte_needs_mark pte \<and> mem_status (hart h m1) then Some (0, m1)
       else Some ((va AND superpage_mask i) + pte_ppn pte,
         upd_hart h (\<lambda>hs. hs\<lparr>tlb := tlb_add (tlb hs) (leaf_entry i va a (if pte_needs_mark pte then pte_mark wr pte else pte)),
           mem_status := False\<rparr>) m1)) = Some (pa, m')"
    using w nd by (auto simp: walk_leaf_def Let_def split: if_splits)
  have t: "tlb (hart h m1) = tlb (hart h m)" and l: "length (hartlist m1) = length (hartlist m)"
    using m1 mem_store_keeps(2)[OF g h] mem_store_step[OF g]
    by (auto simp: access_step_def access_frame_def split: if_splits)
  have "\<not> (pte_needs_mark pte \<and> mem_status (hart h m1))" using r ok by (auto split: if_splits)
  then have "pa = (va AND superpage_mask i) + pte_ppn pte"
    "m' = upd_hart h (\<lambda>hs. hs\<lparr>tlb := tlb_add (tlb hs) (leaf_entry i va a (if pte_needs_mark pte then pte_mark wr pte else pte)),
           mem_status := False\<rparr>) m1"
    using r by auto
  then show ?thesis using nd t l h by simp
qed

text \<open>A look-up that returns an address has used an entry cached for it.\<close>

lemma tlb_find_loop_hit:
  assumes "tlb_find_loop h va perms is m = Some (pa, m')" "pa \<noteq> 0"
  shows "\<exists>i e. tlb_cached (tlb (hart h m)) i va = Some e \<and> tlb_hit (hart h m) i va perms e
    \<and> pa = phy_page e + (va AND shr64 (- 1) (64 - offset_size i))"
  using assms
proof (induction "is")
  case (Cons i "is")
  define e where "e = tlb_slot (tlb (hart h m)) i va"
  show ?case
  proof (cases "tlb_hit (hart h m) i va perms e")
    case True
    then have "tlb_cached (tlb (hart h m)) i va = Some e"
      unfolding tlb_cached_def tlb_hit_def e_def Let_def by simp
    moreover have "pa = phy_page e + (va AND shr64 (- 1) (64 - offset_size i))"
      using Cons.prems True by (auto simp: e_def[symmetric] Let_def split: if_splits)
    ultimately show ?thesis using True by blast
  next
    case False
    then show ?thesis using Cons by (simp add: e_def[symmetric] Let_def)
  qed
qed simp

lemma low_mask: "i \<le> 4 \<Longrightarrow> shr64 (- 1) (64 - offset_size i) = superpage_mask i"
  by (rule bit_word_eqI)
    (auto simp: bit_superpage_mask offset_size_small shr64_def bit_simps)

lemma pte_ppn_mark [simp]: "pte_ppn (pte_mark wr pte) = pte_ppn pte"
  by (rule bit_word_eqI) (auto simp: bit_pte_ppn pte_mark_def bit_simps bits)

lemma xor_page_base_bits:
  assumes i: "i \<le> 4" and x: "va' XOR page_base i va < shl64 1 (offset_size i)" and k: "12 + 9 * i \<le> k"
  shows "bit va' k = bit va k"
proof -
  have "va' XOR page_base i va < 2 ^ (12 + 9 * i)"
    using x i by (simp add: offset_size_small shl64_def push_bit_eq_mult)
  then have "(va' XOR page_base i va) AND mask (12 + 9 * i) = va' XOR page_base i va" by (rule less_mask_eq)
  then have "\<not> bit (va' XOR page_base i va) k"
    using k by (metis bit_and_iff bit_mask_iff not_less)
  then show ?thesis using i k by (simp add: bit_simps bit_page_base)
qed

text \<open>
  C4. A TLB hit repeats the walk that filled the TLB.  After a walk with an empty TLB that found
  a leaf at level \<open>i\<close> and reported no fault, every address the TLB then translates lies in the
  leaf's (super)page, and its translation differs from the walk's exactly as the virtual
  addresses differ.
\<close>

lemma tlb_hit_repeats_walk:
  assumes g: "machine_good m" and h: "h < length (hartlist m)" and lv: "0 < satp_levels (satp (hart h m))"
    and path: "\<forall>a \<in> set (sv_path (\<lambda>a. ram_ld 8 a m) va (rev [0..<satp_levels (satp (hart h m))])
        (PAGENUM (satp (hart h m) AND 0xFFFFFFFFFFF))). pte_readable h (mem_status (hart h m)) m a"
    and empty: "tlb (hart h m) = zero_TLB"
    and w: "page_table_walk h va wr m = Some (pa, m1)"
    and ok: "\<not> mem_status (hart h m1)" "\<not> page_fault (hart h m1)"
    and f: "tlb_find h va' perms m1 = Some (pa', m2)" "pa' \<noteq> 0"
  shows "\<exists>i a pte. sv_walk (\<lambda>a. ram_ld 8 a m) va (rev [0..<satp_levels (satp (hart h m))])
        (PAGENUM (satp (hart h m) AND 0xFFFFFFFFFFF)) = Some (i, a, pte)
    \<and> drop_bit (12 + 9 * i) va' = drop_bit (12 + 9 * i) va \<and> pa' XOR pa = va' XOR va"
proof -
  let ?walk = "sv_walk (\<lambda>a. ram_ld 8 a m) va (rev [0..<satp_levels (satp (hart h m))])
        (PAGENUM (satp (hart h m) AND 0xFFFFFFFFFFF))"
  let ?m0 = "with_status h False m"
  have "?walk \<noteq> None"
  proof
    assume "?walk = None"
    then have "m1 = upd_hart h (set_page_fault True) ?m0" using w page_table_walk_sv[OF h lv path, of wr] by simp
    then show False using ok(2) h by (simp add: set_page_fault_def)
  qed
  then obtain i a pte where x: "?walk = Some (i, a, pte)" by auto
  have i: "i \<le> 4" using sv_walk_level[OF x] satp_levels_le[of "satp (hart h m)"] by auto
  have g0: "machine_good ?m0" unfolding with_status_def by (rule machine_good_upd[OF g]) simp_all
  have wl: "walk_leaf h va wr (mem_status (hart h m)) i a pte ?m0 = Some (pa, m1)"
    using w page_table_walk_sv[OF h lv path, of wr] by (simp add: x)
  define e where "e = leaf_entry i va a (if pte_needs_mark pte then pte_mark wr pte else pte)"
  have nd: "\<not> leaf_denied (hart h ?m0) (mem_status (hart h m)) wr i pte"
    and pa: "pa = (va AND superpage_mask i) + pte_ppn pte"
    and t: "tlb (hart h m1) = tlb_add zero_TLB e"
    using walk_leaf_fill[OF g0 _ ok(2) wl ok(1)] h empty by (simp_all add: e_def with_status_def)
  have "satp (hart h m1) = satp (hart h m)"
    using page_table_walk_step[OF g w] h access_hart_fields(6)
    by (auto simp: access_step_def access_frame_def)
  then have "satp (hart h m1) \<noteq> 0" using lv by (auto simp: satp_levels_def)
  then obtain i' e' where c: "tlb_cached (tlb_add zero_TLB e) i' va' = Some e'"
    and pa': "pa' = phy_page e' + (va' AND shr64 (- 1) (64 - offset_size i'))"
    using f tlb_find_loop_hit by (fastforce simp: tlb_find_def t)
  have e': "e' = e" using tlb_cached_add_old[OF c] tlb_cache.cached_empty by auto
  have i': "i' = i" and near: "va' XOR page_base i va < shl64 1 (offset_size i)"
    using c i by (auto simp: tlb_cached_def Let_def e' e_def leaf_entry_def unat_of_nat page_base_def
        offset_size_small split: if_splits)
  note far = xor_page_base_bits[OF i near]
  have "pa' = (va' AND superpage_mask i) + pte_ppn pte"
    by (simp add: pa' e' e_def leaf_entry_def i' low_mask[OF i] add.commute)
  then have b: "bit pa' k = (if k < 12 + 9 * i then bit va' k else bit (pte_ppn pte) k)" 
    "bit pa k = (if k < 12 + 9 * i then bit va k else bit (pte_ppn pte) k)" for k
    using leaf_offset(2)[OF i nd, of 0] by (simp_all add: pa)
  have "pa' XOR pa = va' XOR va"
    by (rule bit_word_eqI) (use far in \<open>auto simp: bit_simps b\<close>)
  moreover have "drop_bit (12 + 9 * i) va' = drop_bit (12 + 9 * i) va"
    by (rule bit_word_eqI) (use far in \<open>auto simp: bit_simps\<close>)
  ultimately show ?thesis using x by blast
qed

end
