(* ===== verification/Cpu.thy ===== *)
theory Cpu
  imports Csr Mmu
begin

text \<open>
  The execution half of \<open>decode_exc\<close> with the instructions that reach memory, instruction
  fetch and one \<open>cycle\<close> of a hart (\<open>cpu.cpp\<close>).  An operation of hart \<open>h\<close> takes the whole
  machine; \<^term>\<open>None\<close> is undefined behaviour or a wait that never ends.
\<close>

subsection \<open>Lifting operations of one hart\<close>

definition on_hart :: "nat \<Rightarrow> (HartState \<Rightarrow> 'a \<times> HartState) \<Rightarrow> Machine \<Rightarrow> 'a \<times> Machine" where
  "on_hart h f m = (fst (f (hart h m)), upd_hart h (\<lambda>s. snd (f s)) m)"

definition on_hart_opt :: "nat \<Rightarrow> (HartState \<Rightarrow> ('a \<times> HartState) option) \<Rightarrow> Machine \<Rightarrow> ('a \<times> Machine) option" where
  "on_hart_opt h f m = (case f (hart h m) of None \<Rightarrow> None | Some (a, s') \<Rightarrow> Some (a, upd_hart h (\<lambda>_. s') m))"

definition simply :: "(HartState \<Rightarrow> HartState) \<Rightarrow> HartState \<Rightarrow> ctl \<times> HartState" where
  "simply f s = (Done False, f s)"

text \<open>
  \<open>HANDLE_MEM_ERROR(X, tval)\<close>: with a pending access or page fault the function returns the
  exception, otherwise the code after the macro, \<open>k\<close>, runs.
\<close>

definition handle_mem_error :: "nat \<Rightarrow> HartException \<Rightarrow> HartException \<Rightarrow> u64 \<Rightarrow> Machine \<Rightarrow>
    (Machine \<Rightarrow> (ctl \<times> Machine) option) \<Rightarrow> (ctl \<times> Machine) option" where
  "handle_mem_error h afault pfault tval m k =
    (let hs = hart h m
     in if mem_status hs then Some (on_hart h (\<lambda>s. raise afault tval (set_mem_status False s)) m)
        else if page_fault hs then Some (on_hart h (\<lambda>s. raise pfault tval (set_page_fault False s)) m)
        else k m)"

subsection \<open>Loads and stores\<close>

text \<open>\<open>(intN_t)\<close> of an \<open>n\<close>-byte value, widened to 64 bits.\<close>

definition sext_bytes :: "nat \<Rightarrow> u64 \<Rightarrow> u64" where
  "sext_bytes n x = sext (8 * n) x"

definition exec_load :: "nat \<Rightarrow> decoded \<Rightarrow> Machine \<Rightarrow> (ctl \<times> Machine) option" where
  "exec_load h d m = do {
     let load_addr = regs (hart h m) (rs1 d) + imm d;
     let n = 2 ^ unat (funct3 d AND 0b11);
     (x, m1) \<leftarrow> virt_mem_fetch h n load_addr (upd_hart h (set_mem_status True) m);
     let lv = (if bit (funct3 d) 2 then x else sext_bytes n x);
     handle_mem_error h LAFAULT LPFAULT load_addr m1
       (\<lambda>m2. Some (Done False, upd_hart h (set_reg (rd d) lv) m2))
   }"

definition exec_store :: "nat \<Rightarrow> decoded \<Rightarrow> Machine \<Rightarrow> (ctl \<times> Machine) option" where
  "exec_store h d m = do {
     let store_addr = regs (hart h m) (rs1 d) + imm d;
     let m0 = upd_hart h (set_mem_status False) m;
     m1 \<leftarrow> (if funct3 d < 4
            then virt_mem_store h (2 ^ unat (funct3 d)) store_addr (regs (hart h m) (rs2 d)) m0
            else Some m0);
     handle_mem_error h SAFAULT SPFAULT store_addr m1 (\<lambda>m2. Some (Done False, m2))
   }"

definition exec_misc_mem :: "decoded \<Rightarrow> HartState \<Rightarrow> HartState" where
  "exec_misc_mem d hs = hs\<lparr>instbuf := (if funct3 d = 0b001 then 0 else instbuf hs)\<rparr>"

subsection \<open>Atomics\<close>

text \<open>
  The whole operation runs under \<open>atomic_op_mtx\<close> and is one step here.  \<open>reservations\<close> is
  indexed by \<open>hs.hartid\<close>.
\<close>

definition amo_size :: "decoded \<Rightarrow> nat" where
  "amo_size d = (if funct3 d = 0b010 then 4 else 8)"

definition amo_signed :: "decoded \<Rightarrow> u64 \<Rightarrow> u64" where
  "amo_signed d x = (if funct3 d = 0b010 then sx32 (lo32 x) else x)"

definition amo_unsigned :: "decoded \<Rightarrow> u64 \<Rightarrow> u64" where
  "amo_unsigned d x = (if funct3 d = 0b010 then zx32 (lo32 x) else x)"

definition amo_result :: "u8 \<Rightarrow> u64 \<Rightarrow> u64 \<Rightarrow> u64 \<Rightarrow> u64 \<Rightarrow> u64" where
  "amo_result funct5 ovalue src uovalue usrc =
    (if funct5 = 0b00001 then src
     else if funct5 = 0b00000 then ovalue + src
     else if funct5 = 0b00100 then ovalue XOR src
     else if funct5 = 0b01100 then ovalue AND src
     else if funct5 = 0b01000 then ovalue OR src
     else if funct5 = 0b10000 then (if slt ovalue src then ovalue else src)
     else if funct5 = 0b10100 then (if slt src ovalue then ovalue else src)
     else if funct5 = 0b11000 then (if uovalue < usrc then uovalue else usrc)
     else if funct5 = 0b11100 then (if usrc < uovalue then uovalue else usrc)
     else ovalue)"

definition clear_reservation :: "nat \<Rightarrow> Machine \<Rightarrow> Machine option" where
  "clear_reservation h m = do {
     rs \<leftarrow> upd_opt (reservations m) (unat (hartid (hart h m))) 0;
     Some (m\<lparr>reservations := rs\<rparr>)
   }"

definition sc_done :: "nat \<Rightarrow> u8 \<Rightarrow> u64 \<Rightarrow> Machine \<Rightarrow> (ctl \<times> Machine) option" where
  "sc_done h rdn v m = do {
     m' \<leftarrow> clear_reservation h (upd_hart h (set_reg rdn v) m);
     Some (Done False, m')
   }"

definition sc_commit :: "nat \<Rightarrow> decoded \<Rightarrow> u64 \<Rightarrow> u64 \<Rightarrow> Machine \<Rightarrow> (ctl \<times> Machine) option" where
  "sc_commit h d store_addr sc_phy_addr m = do {
     r \<leftarrow> nth_opt (reservations m) (unat (hartid (hart h m)));
     if r = sc_phy_addr then do {
       m1 \<leftarrow> virt_mem_store h (amo_size d) store_addr (regs (hart h m) (rs2 d))
              (upd_hart h (set_mem_status True) m);
       handle_mem_error h SAFAULT SPFAULT store_addr m1 (sc_done h (rd d) 0) }
     else sc_done h (rd d) 1 m
   }"

definition exec_sc :: "nat \<Rightarrow> decoded \<Rightarrow> Machine \<Rightarrow> (ctl \<times> Machine) option" where
  "exec_sc h d m = do {
     let store_addr = regs (hart h m) (rs1 d);
     (sc_phy_addr, m1) \<leftarrow> page_table_walk h store_addr True m;
     handle_mem_error h SAFAULT SPFAULT store_addr m1 (sc_commit h d store_addr sc_phy_addr)
   }"

text \<open>The loop over the harts that drops the others' reservations of the same address.\<close>

definition drop_reservation :: "u16 \<Rightarrow> u64 \<Rightarrow> nat \<Rightarrow> u64 list \<Rightarrow> u64 list option" where
  "drop_reservation self pa i rs =
    (if unat self = i then Some rs
     else do { r \<leftarrow> nth_opt rs i; if r = pa then upd_opt rs i 0 else Some rs })"

definition take_reservation :: "nat \<Rightarrow> u64 \<Rightarrow> Machine \<Rightarrow> Machine option" where
  "take_reservation h pa m = do {
     let self = hartid (hart h m);
     rs \<leftarrow> for_each (drop_reservation self pa) [0..<unat (mach_hart_count m)] (reservations m);
     rs' \<leftarrow> upd_opt rs (unat self) pa;
     Some (m\<lparr>reservations := rs'\<rparr>)
   }"

text \<open>Note the address of the second translation: \<open>rs1\<close> is read after \<open>rd\<close> has been written.\<close>

definition exec_lr :: "nat \<Rightarrow> decoded \<Rightarrow> Machine \<Rightarrow> (ctl \<times> Machine) option" where
  "exec_lr h d m = do {
     (lr_phy_addr, m1) \<leftarrow> page_table_walk h (regs (hart h m) (rs1 d)) False (upd_hart h (set_mem_status True) m);
     handle_mem_error h SAFAULT SPFAULT (regs (hart h m1) (rs1 d)) m1 (\<lambda>m2. do {
       m3 \<leftarrow> take_reservation h lr_phy_addr m2;
       Some (Done False, m3) })
   }"

text \<open>What follows a successful read of \<open>x\<close>; the operands were taken before \<open>rd\<close> was written.\<close>

definition amo_commit :: "nat \<Rightarrow> decoded \<Rightarrow> u64 \<Rightarrow> u64 \<Rightarrow> u64 \<Rightarrow> Machine \<Rightarrow> (ctl \<times> Machine) option" where
  "amo_commit h d op_addr rs2v x m =
    (let m1 = upd_hart h (set_reg (rd d) (amo_signed d x)) m; funct5 = drop_bit 2 (funct7 d)
     in if funct5 = 0b00010 then exec_lr h d m1
        else do {
          let v = amo_result funct5 (amo_signed d x) (amo_signed d rs2v) (amo_unsigned d x) (amo_unsigned d rs2v);
          m2 \<leftarrow> virt_mem_store h (amo_size d) op_addr v (upd_hart h (set_mem_status False) m1);
          handle_mem_error h SAFAULT SPFAULT op_addr m2 (\<lambda>m3. Some (Done False, m3)) })"

definition exec_amo :: "nat \<Rightarrow> decoded \<Rightarrow> Machine \<Rightarrow> (ctl \<times> Machine) option" where
  "exec_amo h d m =
    (if drop_bit 2 (funct7 d) = 0b00011 then exec_sc h d m
     else do {
       let op_addr = regs (hart h m) (rs1 d);
       let rs2v = regs (hart h m) (rs2 d);
       (x, m1) \<leftarrow> virt_mem_fetch h (amo_size d) op_addr (upd_hart h (set_mem_status True) m);
       handle_mem_error h SAFAULT SPFAULT op_addr (upd_hart h (set_reg (rd d) x) m1)
         (amo_commit h d op_addr rs2v x) })"

subsection \<open>Dispatch\<close>

text \<open>Opcodes without a case print a message and do nothing.\<close>

definition exec :: "nat \<Rightarrow> decoded \<Rightarrow> Machine \<Rightarrow> (ctl \<times> Machine) option" where
  "exec h d m = (case op_fun d of
       OP_IMM \<Rightarrow> Some (on_hart h (simply (exec_op_imm d)) m)
     | OP_IMM_32 \<Rightarrow> Some (on_hart h (simply (exec_op_imm_32 d)) m)
     | LUI \<Rightarrow> Some (on_hart h (simply (exec_lui d)) m)
     | AUIPC \<Rightarrow> Some (on_hart h (simply (exec_auipc d)) m)
     | OP \<Rightarrow> Some (on_hart h (simply (exec_op d)) m)
     | OP_32 \<Rightarrow> on_hart_opt h (\<lambda>s. map_option (Pair (Done False)) (exec_op_32 d s)) m
     | JAL \<Rightarrow> Some (on_hart h (exec_jal d) m)
     | JALR \<Rightarrow> Some (on_hart h (exec_jalr d) m)
     | BRANCH \<Rightarrow> Some (on_hart h (exec_branch d) m)
     | LOAD \<Rightarrow> exec_load h d m
     | STORE \<Rightarrow> exec_store h d m
     | MISC_MEM \<Rightarrow> Some (on_hart h (simply (exec_misc_mem d)) m)
     | SYSTEM \<Rightarrow> on_hart_opt h (exec_system (aclint_mtime_get m) d) m
     | AMO \<Rightarrow> exec_amo h d m
     | _ \<Rightarrow> Some (Done False, m))"

text \<open>The end of \<open>decode_exc\<close>, for an instruction that has not returned early.\<close>

definition retire :: "bool \<Rightarrow> HartState \<Rightarrow> HartState" where
  "retire pc_chgd hs = hs\<lparr>
     pc := (if pc_chgd then pc hs else pc hs + inst_bytes hs),
     instbuf := (if pc_chgd then 0 else instbuf hs),
     minstret := minstret hs + 1\<rparr>"

definition exec_decoded :: "nat \<Rightarrow> decoded \<Rightarrow> Machine \<Rightarrow> (HartException \<times> Machine) option" where
  "exec_decoded h d m = do {
     (c, m') \<leftarrow> exec h d (upd_hart h (\<lambda>s. s\<lparr>inst := dinst d\<rparr>) m);
     Some (case c of Return e \<Rightarrow> (e, m') | Done chg \<Rightarrow> (NOEXC, upd_hart h (retire chg) m'))
   }"

definition decode_exc :: "nat \<Rightarrow> Machine \<Rightarrow> (HartException \<times> Machine) option" where
  "decode_exc h m =
    (let hs = hart h m
     in if inst_len hs = 16 then
          (case decode16 (inst hs) of
             None \<Rightarrow> Some (on_hart h (\<lambda>s. create_exception s ILLINST (scast (inst s))) m)
           | Some d \<Rightarrow> exec_decoded h d m)
        else if inst_len hs = 32 then exec_decoded h (decode32 (inst hs)) m
        else Some (on_hart h (\<lambda>s. create_exception (s\<lparr>inst_len := 0\<rparr>) ILLINST (scast (inst s))) m))"

subsection \<open>Fetch\<close>

text \<open>From the word in \<open>hs.inst\<close> to the instruction: its length and what is left in the buffer.\<close>

definition fetch_split :: "HartState \<Rightarrow> HartException \<times> HartState" where
  "fetch_split hs =
    (let w = inst hs
     in if w = 0 \<or> w = 0xffffffff then create_exception (hs\<lparr>inst_len := 0\<rparr>) ILLINST (scast w)
        else if w AND 0b11 \<noteq> 0b11 then
          (NOEXC, hs\<lparr>inst_len := 16,
             instbuf := (if w AND 0x30000 \<noteq> 0x30000 then ucast (drop_bit 16 w) else instbuf hs),
             inst := w AND 0xFFFF\<rparr>)
        else if w AND 0b11100 \<noteq> 0b11100 then (NOEXC, hs\<lparr>inst_len := 32\<rparr>)
        else create_exception (hs\<lparr>inst_len := 0\<rparr>) IMISALIGN (pc hs))"

text \<open>A buffered half-word is an \<open>int16_t\<close>: it is sign-extended into \<open>hs.inst\<close>.\<close>

definition fetch_word :: "nat \<Rightarrow> Machine \<Rightarrow> Machine option" where
  "fetch_word h m = do {
     let m0 = upd_hart h (set_mem_status False) m;
     let hs = hart h m0;
     if instbuf hs = 0 then do {
       (x, m1) \<leftarrow> virt_mem_fetch h 4 (pc hs) m0;
       Some (upd_hart h (\<lambda>s. s\<lparr>inst := ucast x\<rparr>) m1) }
     else Some (upd_hart h (\<lambda>s. s\<lparr>inst := scast (instbuf s), instbuf := 0\<rparr>) m0)
   }"

text \<open>The second \<open>HANDLE_MEM_ERROR\<close> of the source can find nothing the first has not.\<close>

definition fetch :: "nat \<Rightarrow> Machine \<Rightarrow> (HartException \<times> Machine) option" where
  "fetch h m = do {
     m1 \<leftarrow> fetch_word h m;
     let hs = hart h m1;
     if mem_status hs then Some (on_hart h (\<lambda>s. create_exception (set_mem_status False s) IAFAULT (pc s)) m1)
     else if page_fault hs then Some (on_hart h (\<lambda>s. create_exception (set_page_fault False s) IPFAULT (pc s)) m1)
     else Some (on_hart h fetch_split m1)
   }"

subsection \<open>One cycle\<close>

definition cycle_end :: "HartState \<Rightarrow> HartState" where
  "cycle_end hs =
    (let hs1 = hs\<lparr>mcycle := mcycle hs + 1, cycle_csr := mcycle hs + 1, instret := minstret hs\<rparr>
     in if chk_int hs1 then snd (setup_pending_int (hs1\<lparr>chk_int := False\<rparr>)) else hs1)"

text \<open>\<open>false\<close>, the halting instruction of signature mode, ends the hart's loop.\<close>

definition cycle :: "nat \<Rightarrow> Machine \<Rightarrow> (bool \<times> Machine) option" where
  "cycle h m = do {
     (exc, m1) \<leftarrow> fetch h (upd_hart h (set_reg 0 0) m);
     if sig_mode m1 \<and> inst (hart h m1) = 0xbad33013 then Some (False, m1)
     else do {
       (_, m2) \<leftarrow> (if exc \<noteq> NOEXC then Some (exc, m1) else decode_exc h m1);
       Some (True, upd_hart h cycle_end m2) }
   }"

subsection \<open>Every instruction keeps the machine's invariant\<close>

text \<open>What an operation of one hart has to respect.\<close>

definition hart_keeps :: "HartState \<Rightarrow> HartState \<Rightarrow> bool" where
  "hart_keeps s s' \<longleftrightarrow> hartid s' = hartid s \<and> (hart_good s \<longrightarrow> hart_good s')"

named_theorems keeps "operations of a hart that respect the machine's invariant"

lemma hart_keeps_refl [keeps]: "hart_keeps s s"
  by (simp add: hart_keeps_def)

lemma hart_keeps_trans: "hart_keeps s t \<Longrightarrow> hart_keeps t u \<Longrightarrow> hart_keeps s u"
  by (simp add: hart_keeps_def)

lemma hart_keepsI: "hartid s' = hartid s \<Longrightarrow> tlb s' = tlb s \<Longrightarrow> privmode s' = privmode s \<Longrightarrow> hart_keeps s s'"
  by (simp add: hart_keeps_def hart_good_def)

lemma hart_keeps_priv: "hartid s' = hartid s \<Longrightarrow> tlb s' = tlb s \<Longrightarrow> privmode s' \<le> 3 \<Longrightarrow> hart_keeps s s'"
  by (simp add: hart_keeps_def hart_good_def)

lemma machine_good_keeps:
  "machine_good m \<Longrightarrow> hart_keeps (hart h m) (f (hart h m)) \<Longrightarrow> machine_good (upd_hart h f m)"
  by (rule machine_good_upd) (simp_all add: hart_keeps_def)

lemma set_reg_keeps [keeps]: "hart_keeps s (set_reg r v s)"
  by (rule hart_keepsI) (simp_all add: set_reg_def)

lemma status_keeps [keeps]: "hart_keeps s (set_mem_status b s)" "hart_keeps s (set_page_fault b s)"
  by (simp_all add: hart_keeps_def)

lemma u8_le_3: "(0 :: u8) \<le> 3" "(1 :: u8) \<le> 3" "(3 :: u8) \<le> 3"
  by (simp_all add: word_le_nat_alt)

lemma create_exception_keeps [keeps]: "hart_keeps s (snd (create_exception s x v))"
  unfolding create_exception_def Let_def
  by (auto simp: trap_to_s_def trap_to_m_def u8_le_3 intro: hart_keepsI hart_keeps_priv)

lemma raise_keeps [keeps]: "hart_keeps s (snd (raise x v s))"
  using create_exception_keeps[of s x v] by (simp add: raise_def split_beta)

lemma field_le_3: "ucast (get_field lo 2 w) \<le> (3 :: u8)" "ucast (get_field lo 1 w) \<le> (3 :: u8)"
proof -
  have "ucast (get_field lo 2 w) < (2 ^ 2 :: u8)" "ucast (get_field lo 1 w) < (2 ^ 2 :: u8)"
    by (rule less_pow_of_bits; auto simp: bits bit_simps)+
  then show "ucast (get_field lo 2 w) \<le> (3 :: u8)" "ucast (get_field lo 1 w) \<le> (3 :: u8)"
    by (simp_all add: word_less_nat_alt word_le_nat_alt)
qed

lemma ret_keeps [keeps]: "hart_keeps s (exec_mret s)" "hart_keeps s (exec_sret s)"
  using field_le_3[where lo = 11 and w = "mret_mstatus (mstatus s)"]
    field_le_3[where lo = 8 and w = "sret_mstatus (mstatus s)"]
  by (auto intro!: hart_keeps_priv simp: exec_mret_def exec_sret_def Let_def)

lemma sync_keeps [keeps]: "hart_keeps s (sync_exp_pmp s)"
proof -
  have e: "hart_keeps s (sync_exp_entry i s)" for i s
    by (rule hart_keepsI) (simp_all add: sync_exp_entry_def Let_def)
  have f: "hart_keeps s (fold sync_exp_entry is s)" for "is" s
    by (induction "is" arbitrary: s) (auto simp: hart_keeps_refl intro: hart_keeps_trans[OF e])
  show ?thesis
    unfolding sync_exp_pmp_def by (rule hart_keeps_trans[OF _ f]) (rule hart_keepsI; simp)
qed

lemma csr_put_keeps [keeps]: "hart_keeps s (csr_put r v s)"
  by (cases r) (auto intro!: hart_keepsI)

lemma csr_mirror_keeps [keeps]: "hart_keeps s (csr_mirror im a b s)"
  by (rule hart_keepsI) (simp_all add: csr_mirror_def Let_def)

lemma chk_int_keeps [keeps]: "hart_keeps s (s\<lparr>chk_int := b\<rparr>)"
  by (rule hart_keepsI) simp_all

lemma csr_access_keeps [keeps]: "hart_keeps s (snd (csr_access im a b c r rdn rs1n f wv s))"
proof -
  define s1 where "s1 = (if rdn \<noteq> 0 then set_reg rdn (csr_get r s) s else s)"
  have s1: "hart_keeps s s1" by (simp add: s1_def keeps)
  have "hart_keeps s1 (snd (csr_access im a b c r rdn rs1n f wv s))"
    unfolding csr_access_def s1_def[symmetric] Let_def
    by (simp add: keeps hart_keeps_trans[OF chk_int_keeps hart_keeps_trans[OF csr_put_keeps csr_mirror_keeps]])
  then show ?thesis using s1 hart_keeps_trans by blast
qed

lemma pmpcfg_byte_keeps: "pmpcfg_byte st wv f i x = Some y \<Longrightarrow> hart_keeps (snd x) (snd y)"
  by (cases x) (auto simp: pmpcfg_byte_def Let_def intro!: hart_keepsI split: if_splits)

lemma pmpcfg_rw_keeps: "pmpcfg_rw a rdn wv f s = Some (e, s') \<Longrightarrow> hart_keeps s s'"
proof (cases "bit a 0")
  case True
  assume "pmpcfg_rw a rdn wv f s = Some (e, s')"
  then have "s' = snd (create_exception s ILLINST (scast (inst s)))"
    using True by (auto simp: pmpcfg_rw_def)
  then show ?thesis by (simp add: keeps)
next
  case False
  assume "pmpcfg_rw a rdn wv f s = Some (e, s')"
  then obtain r s1 where l: "for_each (pmpcfg_byte (4 * unat (a - 0x3A0)) wv f) [0..<8] (0, s) = Some (r, s1)"
    and s': "s' = sync_exp_pmp (set_reg rdn r s1)"
    using False by (auto simp: pmpcfg_rw_def)
  have "hart_keeps s (snd (r, s1))"
    using l
  proof (rule for_each_inv)
    show "hart_keeps s (snd (0, s))" by (simp add: keeps)
  qed (blast intro: hart_keeps_trans pmpcfg_byte_keeps)
  then show ?thesis
    unfolding s' using hart_keeps_trans set_reg_keeps sync_keeps by (metis snd_conv)
qed

lemma exec_csr_keeps: "exec_csr t d s = Some (c, s') \<Longrightarrow> hart_keeps s s'"
proof -
  assume a: "exec_csr t d s = Some (c, s')"
  have p: "hart_keeps s (s\<lparr>pc := pc s + inst_bytes s, minstret := minstret s + 1\<rparr>)"
    by (rule hart_keepsI) simp_all
  have r: "raise x v s = (c, s') \<Longrightarrow> hart_keeps s s'" for x v
    using raise_keeps[of s x v] by simp
  have ca: "csr_access im x y z q rdn rs1n f wv s = (c, s') \<Longrightarrow> hart_keeps s s'" for im x y z q rdn rs1n f wv
    using csr_access_keeps[of s im x y z q rdn rs1n f wv] by simp
  show ?thesis
    using a unfolding exec_csr_def Let_def
    by (auto split: if_splits option.splits simp: keeps intro: r ca hart_keeps_trans[OF p] dest!: pmpcfg_rw_keeps)
qed

lemma exec_system_keeps: "exec_system t d s = Some (c, s') \<Longrightarrow> hart_keeps s s'"
proof -
  assume a: "exec_system t d s = Some (c, s')"
  have r: "raise x v s = (c, s') \<Longrightarrow> hart_keeps s s'" for x v
    using raise_keeps[of s x v] by simp
  have f: "hart_keeps s (s\<lparr>tlb := tlb_clear t, instbuf := b\<rparr>)" for t b
    by (simp add: hart_keeps_def hart_good_def)
  show ?thesis
    using a unfolding exec_system_def
    by (auto split: if_splits simp: keeps f intro: r exec_csr_keeps)
qed

lemma alu_keeps [keeps]:
  "hart_keeps s (exec_op_imm d s)" "hart_keeps s (exec_op_imm_32 d s)" "hart_keeps s (exec_op d s)"
  "hart_keeps s (exec_lui d s)" "hart_keeps s (exec_auipc d s)" "hart_keeps s (exec_misc_mem d s)"
  by (simp_all add: exec_op_imm_def exec_op_imm_32_def exec_op_def exec_lui_def exec_auipc_def
      exec_misc_mem_def Let_def keeps hart_keepsI)

lemma exec_op_32_keeps: "exec_op_32 d s = Some s' \<Longrightarrow> hart_keeps s s'"
  by (drule exec_op_32_result) (auto simp: keeps)

lemma pc_keeps [keeps]: "hart_keeps s (s\<lparr>pc := p\<rparr>)"
  by (rule hart_keepsI) simp_all

lemma jump_keeps [keeps]:
  "hart_keeps s (snd (exec_jal d s))" "hart_keeps s (snd (exec_jalr d s))" "hart_keeps s (snd (exec_branch d s))"
proof -
  have j: "hart_keeps s t \<Longrightarrow> hart_keeps s (snd (if c then raise x v t else (Done b, t)))" for s t c x v b
    using hart_keeps_trans raise_keeps by auto
  show "hart_keeps s (snd (exec_jal d s))"
    unfolding exec_jal_def Let_def by (rule j) (rule hart_keeps_trans[OF set_reg_keeps pc_keeps])
  show "hart_keeps s (snd (exec_jalr d s))"
    unfolding exec_jalr_def Let_def by (rule j) (rule hart_keeps_trans[OF pc_keeps set_reg_keeps])
  show "hart_keeps s (snd (exec_branch d s))"
    unfolding exec_branch_def Let_def using j[OF pc_keeps] by (simp add: keeps)
qed

subsection \<open>The frame of an instruction\<close>

text \<open>
  An instruction of hart \<open>h\<close> keeps the invariant of the machine, and of the other harts it
  changes nothing but pending interrupts.
\<close>

text \<open>No two harts hold a reservation of the same address (0 stands for none).\<close>

definition res_exclusive :: "u64 list \<Rightarrow> bool" where
  "res_exclusive rs \<longleftrightarrow>
    (\<forall>i < length rs. \<forall>j < length rs. i \<noteq> j \<longrightarrow> rs ! i \<noteq> 0 \<longrightarrow> rs ! i \<noteq> rs ! j)"

definition exec_frame :: "nat \<Rightarrow> Machine \<Rightarrow> Machine \<Rightarrow> bool" where
  "exec_frame h m m' \<longleftrightarrow> mach_mem_size m' = mach_mem_size m \<and> mach_hart_count m' = mach_hart_count m
     \<and> sig_mode m' = sig_mode m \<and> hart_start m' = hart_start m \<and> interrupted m' = interrupted m
     \<and> length (hartlist m') = length (hartlist m)
     \<and> (res_exclusive (reservations m) \<longrightarrow> res_exclusive (reservations m'))
     \<and> (\<forall>k < length (hartlist m). k \<noteq> h \<longrightarrow> only_mip (hart k m) (hart k m'))"

definition exec_step :: "nat \<Rightarrow> Machine \<Rightarrow> Machine \<Rightarrow> bool" where
  "exec_step h m m' \<longleftrightarrow> exec_frame h m m' \<and> machine_good m'"

lemma exec_frame_trans [trans]:
  assumes "exec_frame h a b" "exec_frame h b c"
  shows "exec_frame h a c"
proof -
  have l: "length (hartlist b) = length (hartlist a)" using assms(1) by (simp add: exec_frame_def)
  have "\<forall>k < length (hartlist a). k \<noteq> h \<longrightarrow> only_mip (hart k a) (hart k c)"
    using assms l only_mip_trans by (simp add: exec_frame_def) blast
  then show ?thesis using assms by (simp add: exec_frame_def)
qed

lemma exec_step_trans [trans]: "exec_step h a b \<Longrightarrow> exec_step h b c \<Longrightarrow> exec_step h a c"
  unfolding exec_step_def using exec_frame_trans by blast

lemma exec_step_refl: "machine_good m \<Longrightarrow> exec_step h m m"
  by (simp add: exec_step_def exec_frame_def)

lemma exec_step_good: "exec_step h m m' \<Longrightarrow> machine_good m'"
  by (simp add: exec_step_def)

lemma exec_step_length: "exec_step h m m' \<Longrightarrow> length (hartlist m') = length (hartlist m)"
  by (simp add: exec_step_def exec_frame_def)

lemma exec_step_access: "access_step h m m' \<Longrightarrow> exec_step h m m'"
  by (simp add: exec_step_def exec_frame_def access_step_def access_frame_def)

lemma exec_step_upd:
  "machine_good m \<Longrightarrow> hart_keeps (hart h m) (f (hart h m)) \<Longrightarrow> exec_step h m (upd_hart h f m)"
  by (simp add: exec_step_def exec_frame_def machine_good_keeps)

lemma on_hart_step:
  "machine_good m \<Longrightarrow> (\<And>s. hart_keeps s (snd (f s))) \<Longrightarrow> on_hart h f m = (a, m') \<Longrightarrow> exec_step h m m'"
  by (auto simp: on_hart_def intro: exec_step_upd)

lemma on_hart_opt_step:
  "machine_good m \<Longrightarrow> (\<And>s a s'. f s = Some (a, s') \<Longrightarrow> hart_keeps s s') \<Longrightarrow>
   on_hart_opt h f m = Some (a, m') \<Longrightarrow> exec_step h m m'"
  by (auto simp: on_hart_opt_def split: option.splits prod.splits intro: exec_step_upd)

lemma handle_mem_error_step:
  assumes f: "handle_mem_error h x y v m k = Some (c, m')" and s: "exec_step h m0 m"
    and k: "\<And>c m'. k m = Some (c, m') \<Longrightarrow> exec_step h m0 m'"
  shows "exec_step h m0 m'"
proof -
  have e: "hart_keeps s (snd (raise z v (set_mem_status False s)))"
    "hart_keeps s (snd (raise z v (set_page_fault False s)))" for s z
    by (rule hart_keeps_trans[OF status_keeps(1) raise_keeps] hart_keeps_trans[OF status_keeps(2) raise_keeps])+
  have oh: "exec_step h m0 m'" if "\<And>s. hart_keeps s (snd (g s))" "on_hart h g m = (c, m')" for g
    using exec_step_trans[OF s on_hart_step[OF exec_step_good[OF s] that]] .
  show ?thesis
    using f k oh[OF e(1)] oh[OF e(2)] unfolding handle_mem_error_def Let_def by (auto split: if_splits)
qed

lemma exec_step_reservations:
  assumes "machine_good m" "length rs = length (reservations m)"
    and "res_exclusive (reservations m) \<Longrightarrow> res_exclusive rs"
  shows "exec_step h m (m\<lparr>reservations := rs\<rparr>)"
  using assms
  by (simp add: exec_step_def exec_frame_def machine_good_def aclint_good_def uart_dev_good_def
      plic_good_def virtio_good_def PLIC_CTX_COUNT_def hart_def)

lemma res_exclusive_clear: "res_exclusive rs \<Longrightarrow> res_exclusive (rs[k := 0])"
  unfolding res_exclusive_def
proof (intro allI impI)
  fix i j
  assume x: "\<forall>i < length rs. \<forall>j < length rs. i \<noteq> j \<longrightarrow> rs ! i \<noteq> 0 \<longrightarrow> rs ! i \<noteq> rs ! j"
    and i: "i < length (rs[k := 0])" "j < length (rs[k := 0])" "i \<noteq> j" "rs[k := 0] ! i \<noteq> 0"
  then have k: "i \<noteq> k" by (cases "i = k") simp_all
  then have "rs ! i \<noteq> 0" using i by simp
  then show "rs[k := 0] ! i \<noteq> rs[k := 0] ! j" using x i k by (cases "j = k") auto
qed

lemma clear_reservation_step: "machine_good m \<Longrightarrow> clear_reservation h m = Some m' \<Longrightarrow> exec_step h m m'"
  by (auto simp: clear_reservation_def intro: exec_step_reservations res_exclusive_clear)

text \<open>What the loop of LR leaves: the same address is held by nobody else.\<close>

lemma drop_reservations:
  assumes "for_each (drop_reservation self pa) [0..<n] rs = Some rs'"
  shows "length rs' = length rs \<and>
    (\<forall>k. rs' ! k = (if k < n \<and> k \<noteq> unat self \<and> k < length rs \<and> rs ! k = pa then 0 else rs ! k))"
  using assms
proof (induction n arbitrary: rs')
  case (Suc n)
  then obtain r where r: "for_each (drop_reservation self pa) [0..<n] rs = Some r"
    and s: "drop_reservation self pa n r = Some rs'"
    by (auto simp: for_each_append)
  show ?case
    using Suc.IH[OF r] s
    by (auto simp: drop_reservation_def nth_list_update less_Suc_eq split: if_splits)
qed simp

lemma take_reservation_effect:
  assumes g: "machine_good m" and h: "h < length (hartlist m)" and t: "take_reservation h pa m = Some m'"
  shows "\<exists>rs. m' = m\<lparr>reservations := rs\<rparr> \<and> length rs = length (reservations m) \<and> rs ! h = pa
    \<and> (\<forall>k < length rs. k \<noteq> h \<longrightarrow> rs ! k = (if reservations m ! k = pa then 0 else reservations m ! k))"
proof -
  have id: "unat (hartid (hart h m)) = h" using machine_goodD(1)[OF g] h by (simp add: aclint_good_def)
  obtain rs where l: "for_each (drop_reservation (hartid (hart h m)) pa) [0..<unat (mach_hart_count m)]
      (reservations m) = Some rs"
    and m': "m' = m\<lparr>reservations := rs[h := pa]\<rparr>" and hl: "h < length rs"
    using t id by (auto simp: take_reservation_def Let_def)
  have n: "unat (mach_hart_count m) = length (reservations m)"
    using machine_good_length[OF g] machine_goodD(5)[OF g] by simp
  show ?thesis
    using drop_reservations[OF l] hl unfolding m' n id by (intro exI[of _ "rs[h := pa]"]) auto
qed

lemma take_reservation_step:
  "machine_good m \<Longrightarrow> h < length (hartlist m) \<Longrightarrow> take_reservation h pa m = Some m' \<Longrightarrow> exec_step h m m'"
proof -
  assume g: "machine_good m" and h: "h < length (hartlist m)" and t: "take_reservation h pa m = Some m'"
  obtain rs where m': "m' = m\<lparr>reservations := rs\<rparr>" and l: "length rs = length (reservations m)"
    and rs: "rs ! h = pa"
      "\<And>k. k < length rs \<Longrightarrow> k \<noteq> h \<Longrightarrow> rs ! k = (if reservations m ! k = pa then 0 else reservations m ! k)"
    using take_reservation_effect[OF g h t] by blast
  have "res_exclusive rs" if "res_exclusive (reservations m)"
    unfolding res_exclusive_def
  proof (intro allI impI)
    fix i j assume "i < length rs" "j < length rs" "i \<noteq> j" "rs ! i \<noteq> 0"
    then show "rs ! i \<noteq> rs ! j"
      using that rs(2)[of i] rs(2)[of j] rs(1) l
      by (cases "i = h"; cases "j = h") (auto simp: res_exclusive_def split: if_splits)
  qed
  then show ?thesis unfolding m' using exec_step_reservations[OF g l] by blast
qed

lemma exec_step_mem_fetch:
  assumes "exec_step h m m1" "h < length (hartlist m)" "virt_mem_fetch h n va m1 = Some (x, m2)"
  shows "exec_step h m m2"
  using assms(1) exec_step_access[OF virt_mem_fetch_step[OF exec_step_good[OF assms(1)] _ assms(3)]]
    exec_step_length[OF assms(1)] assms(2) exec_step_trans by auto

lemma exec_step_mem_store:
  assumes "exec_step h m m1" "h < length (hartlist m)" "virt_mem_store h n va d m1 = Some m2"
  shows "exec_step h m m2"
  using assms(1) exec_step_access[OF virt_mem_store_step[OF exec_step_good[OF assms(1)] _ assms(3)]]
    exec_step_length[OF assms(1)] assms(2) exec_step_trans by auto

lemma exec_step_walk:
  assumes "exec_step h m m1" "page_table_walk h va wr m1 = Some (x, m2)"
  shows "exec_step h m m2"
  using exec_step_trans[OF assms(1) exec_step_access[OF page_table_walk_step[OF exec_step_good[OF assms(1)] assms(2)]]] .

lemma exec_step_then_upd:
  assumes s: "exec_step h m m1" and f: "\<And>s. hart_keeps s (f s)"
  shows "exec_step h m (upd_hart h f m1)"
proof -
  have "exec_step h m1 (upd_hart h f m1)" using exec_step_good[OF s] f by (rule exec_step_upd)
  then show ?thesis using s exec_step_trans by blast
qed

lemma exec_load_step:
  assumes g: "machine_good m" and h: "h < length (hartlist m)" and e: "exec_load h d m = Some (c, m')"
  shows "exec_step h m m'"
proof -
  define m0 where "m0 = upd_hart h (set_mem_status True) m"
  have s0: "exec_step h m m0" unfolding m0_def by (rule exec_step_then_upd[OF exec_step_refl[OF g]]) (rule keeps)
  obtain n a x m1 lv where f: "virt_mem_fetch h n a m0 = Some (x, m1)"
    and k: "handle_mem_error h LAFAULT LPFAULT a m1
        (\<lambda>m2. Some (Done False, upd_hart h (set_reg (rd d) lv) m2)) = Some (c, m')"
    using e unfolding exec_load_def Let_def m0_def[symmetric] by (auto simp del: One_nat_def)
  have s1: "exec_step h m m1" by (rule exec_step_mem_fetch[OF s0 h f])
  show ?thesis
    by (rule handle_mem_error_step[OF k s1]) (auto intro: exec_step_then_upd[OF s1] keeps)
qed

lemma exec_store_step:
  assumes g: "machine_good m" and h: "h < length (hartlist m)" and e: "exec_store h d m = Some (c, m')"
  shows "exec_step h m m'"
proof -
  define m0 where "m0 = upd_hart h (set_mem_status False) m"
  have s0: "exec_step h m m0" unfolding m0_def by (rule exec_step_then_upd[OF exec_step_refl[OF g]]) (rule keeps)
  obtain n a v m1 where f: "m1 = m0 \<or> virt_mem_store h n a v m0 = Some m1"
    and k: "handle_mem_error h SAFAULT SPFAULT a m1 (\<lambda>m2. Some (Done False, m2)) = Some (c, m')"
    using e unfolding exec_store_def Let_def m0_def[symmetric] by (auto split: if_splits)
  have s1: "exec_step h m m1" using f s0 exec_step_mem_store[OF s0 h] by blast
  show ?thesis by (rule handle_mem_error_step[OF k s1]) (use s1 in auto)
qed

lemma sc_done_step:
  assumes s: "exec_step h m m1" and e: "sc_done h r v m1 = Some (c, m')"
  shows "exec_step h m m'"
proof -
  have s': "exec_step h m (upd_hart h (set_reg r v) m1)" by (rule exec_step_then_upd[OF s]) (rule keeps)
  have "clear_reservation h (upd_hart h (set_reg r v) m1) = Some m'" using e by (auto simp: sc_done_def)
  then show ?thesis using exec_step_trans[OF s' clear_reservation_step[OF exec_step_good[OF s']]] by blast
qed

lemma sc_commit_step:
  assumes s: "exec_step h m m1" and h: "h < length (hartlist m)"
    and e: "sc_commit h d a pa m1 = Some (c, m')"
  shows "exec_step h m m'"
proof (cases "reservations m1 ! unat (hartid (hart h m1)) = pa")
  case False
  then have "sc_done h (rd d) 1 m1 = Some (c, m')" using e by (auto simp: sc_commit_def)
  then show ?thesis by (rule sc_done_step[OF s])
next
  case True
  have s2: "exec_step h m (upd_hart h (set_mem_status True) m1)"
    by (rule exec_step_then_upd[OF s]) (rule keeps)
  obtain m3 v where st: "virt_mem_store h (amo_size d) a v (upd_hart h (set_mem_status True) m1) = Some m3"
    and k2: "handle_mem_error h SAFAULT SPFAULT a m3 (sc_done h (rd d) 0) = Some (c, m')"
    using e True by (auto simp: sc_commit_def)
  have s3: "exec_step h m m3" by (rule exec_step_mem_store[OF s2 h st])
  show ?thesis by (rule handle_mem_error_step[OF k2 s3]) (rule sc_done_step[OF s3])
qed

lemma exec_sc_step:
  assumes g: "machine_good m" and h: "h < length (hartlist m)" and e: "exec_sc h d m = Some (c, m')"
  shows "exec_step h m m'"
proof -
  obtain a pa m1 where w: "page_table_walk h a True m = Some (pa, m1)"
    and k: "handle_mem_error h SAFAULT SPFAULT a m1 (sc_commit h d a pa) = Some (c, m')"
    using e by (auto simp: exec_sc_def Let_def)
  have s1: "exec_step h m m1" by (rule exec_step_walk[OF exec_step_refl[OF g] w])
  show ?thesis by (rule handle_mem_error_step[OF k s1]) (rule sc_commit_step[OF s1 h])
qed

lemma exec_lr_step:
  assumes s: "exec_step h m m1" and h: "h < length (hartlist m)" and e: "exec_lr h d m1 = Some (c, m')"
  shows "exec_step h m m'"
proof -
  have s0: "exec_step h m (upd_hart h (set_mem_status True) m1)"
    by (rule exec_step_then_upd[OF s]) (rule keeps)
  obtain a pa m2 where w: "page_table_walk h a False (upd_hart h (set_mem_status True) m1) = Some (pa, m2)"
    and k: "handle_mem_error h SAFAULT SPFAULT (regs (hart h m2) (rs1 d)) m2
      (\<lambda>m2. do { m3 \<leftarrow> take_reservation h pa m2; Some (Done False, m3) }) = Some (c, m')"
    using e by (auto simp: exec_lr_def Let_def)
  have s2: "exec_step h m m2" by (rule exec_step_walk[OF s0 w])
  show ?thesis
    by (rule handle_mem_error_step[OF k s2])
      (use h exec_step_length[OF s2] in
        \<open>auto intro!: exec_step_trans[OF s2] take_reservation_step[OF exec_step_good[OF s2]]\<close>)
qed

lemma amo_commit_step:
  assumes s: "exec_step h m m1" and h: "h < length (hartlist m)"
    and e: "amo_commit h d a r x m1 = Some (c, m')"
  shows "exec_step h m m'"
proof -
  define m2 where "m2 = upd_hart h (set_reg (rd d) (amo_signed d x)) m1"
  have s2: "exec_step h m m2" unfolding m2_def by (rule exec_step_then_upd[OF s]) (rule keeps)
  show ?thesis
  proof (cases "drop_bit 2 (funct7 d) = 0b00010")
    case True
    then have "exec_lr h d m2 = Some (c, m')" using e by (simp add: amo_commit_def m2_def)
    then show ?thesis by (rule exec_lr_step[OF s2 h])
  next
    case False
    have s3: "exec_step h m (upd_hart h (set_mem_status False) m2)"
      by (rule exec_step_then_upd[OF s2]) (rule keeps)
    obtain v m4 where st: "virt_mem_store h (amo_size d) a v (upd_hart h (set_mem_status False) m2) = Some m4"
      and k: "handle_mem_error h SAFAULT SPFAULT a m4 (\<lambda>m3. Some (Done False, m3)) = Some (c, m')"
      using e False unfolding amo_commit_def Let_def m2_def[symmetric] by auto
    have s4: "exec_step h m m4" by (rule exec_step_mem_store[OF s3 h st])
    show ?thesis by (rule handle_mem_error_step[OF k s4]) (use s4 in auto)
  qed
qed

lemma exec_amo_step:
  assumes g: "machine_good m" and h: "h < length (hartlist m)" and e: "exec_amo h d m = Some (c, m')"
  shows "exec_step h m m'"
proof (cases "drop_bit 2 (funct7 d) = 0b00011")
  case True
  then show ?thesis using e exec_sc_step[OF g h] by (simp add: exec_amo_def)
next
  case False
  have s0: "exec_step h m (upd_hart h (set_mem_status True) m)"
    by (rule exec_step_then_upd[OF exec_step_refl[OF g]]) (rule keeps)
  obtain a r x m1 where f: "virt_mem_fetch h (amo_size d) a (upd_hart h (set_mem_status True) m) = Some (x, m1)"
    and k: "handle_mem_error h SAFAULT SPFAULT a (upd_hart h (set_reg (rd d) x) m1) (amo_commit h d a r x) = Some (c, m')"
    using e False by (auto simp: exec_amo_def Let_def)
  have s1: "exec_step h m (upd_hart h (set_reg (rd d) x) m1)"
    by (rule exec_step_then_upd[OF exec_step_mem_fetch[OF s0 h f]]) (rule keeps)
  show ?thesis by (rule handle_mem_error_step[OF k s1]) (rule amo_commit_step[OF s1 h])
qed

lemma simply_keeps: "(\<And>s. hart_keeps s (f s)) \<Longrightarrow> hart_keeps s (snd (simply f s))"
  by (simp add: simply_def)

lemma exec_any_step:
  assumes g: "machine_good m" and h: "h < length (hartlist m)" and e: "exec h d m = Some (c, m')"
  shows "exec_step h m m'"
proof -
  have o: "exec_step h m m'" if "on_hart h f m = (c, m')" "\<And>s. hart_keeps s (snd (f s))" for f
    by (rule on_hart_step[OF g that(2,1)])
  have oo: "exec_step h m m'" if "on_hart_opt h f m = Some (c, m')"
    "\<And>s a s'. f s = Some (a, s') \<Longrightarrow> hart_keeps s s'" for f
    by (rule on_hart_opt_step[OF g that(2,1)])
  show ?thesis
    using e g
    by (cases "op_fun d")
      (auto simp: exec_def intro: exec_step_refl o simply_keeps keeps exec_load_step[OF g h]
        exec_store_step[OF g h] exec_amo_step[OF g h] oo exec_op_32_keeps exec_system_keeps)
qed

lemma retire_keeps [keeps]: "hart_keeps s (retire b s)"
  by (rule hart_keepsI) (simp_all add: retire_def)

lemma exec_decoded_step:
  assumes g: "machine_good m" and h: "h < length (hartlist m)" and e: "exec_decoded h d m = Some (c, m')"
  shows "exec_step h m m'"
proof -
  define m0 where "m0 = upd_hart h (\<lambda>s. s\<lparr>inst := dinst d\<rparr>) m"
  have s0: "exec_step h m m0"
    unfolding m0_def by (rule exec_step_then_upd[OF exec_step_refl[OF g]]) (rule hart_keepsI; simp)
  obtain k m1 where x: "exec h d m0 = Some (k, m1)"
    and r: "(case k of Return e \<Rightarrow> (e, m1) | Done chg \<Rightarrow> (NOEXC, upd_hart h (retire chg) m1)) = (c, m')"
    using e unfolding exec_decoded_def m0_def[symmetric] by auto
  have m': "m' = m1 \<or> (\<exists>b. m' = upd_hart h (retire b) m1)" using r by (cases k) auto
  have "exec_step h m0 m1"
    using exec_any_step[OF exec_step_good[OF s0] _ x] h exec_step_length[OF s0] by simp
  then have s1: "exec_step h m m1" using s0 exec_step_trans by blast
  have "exec_step h m (upd_hart h (retire b) m1)" for b
    by (rule exec_step_then_upd[OF s1]) (rule keeps)
  then show ?thesis using m' s1 by blast
qed

lemma create_exception_at_keeps: "hart_keeps s t \<Longrightarrow> hart_keeps s (snd (create_exception t x v))"
  using hart_keeps_trans create_exception_keeps by blast

lemma inst_len_keeps [keeps]: "hart_keeps s (s\<lparr>inst_len := n\<rparr>)"
  by (rule hart_keepsI) simp_all

lemma decode_exc_step:
  assumes g: "machine_good m" and h: "h < length (hartlist m)" and e: "decode_exc h m = Some (c, m')"
  shows "exec_step h m m'"
proof -
  have o: "exec_step h m m'" if "on_hart h (\<lambda>s. create_exception (g s) x (v s)) m = (c, m')"
    "\<And>s. hart_keeps s (g s)" for g x v
    by (rule on_hart_step[OF g _ that(1)]) (rule create_exception_at_keeps[OF that(2)])
  show ?thesis
    using e exec_decoded_step[OF g h] o[of "\<lambda>s. s", OF _ hart_keeps_refl] o[OF _ inst_len_keeps]
    unfolding decode_exc_def Let_def by (auto split: if_splits option.splits)
qed

lemma fetch_split_keeps: "hart_keeps s (snd (fetch_split s))"
  by (auto simp: fetch_split_def Let_def intro: create_exception_at_keeps keeps hart_keepsI)

lemma fetch_word_step:
  assumes g: "machine_good m" and h: "h < length (hartlist m)" and e: "fetch_word h m = Some m'"
  shows "exec_step h m m'"
proof -
  define m0 where "m0 = upd_hart h (set_mem_status False) m"
  have s0: "exec_step h m m0"
    unfolding m0_def by (rule exec_step_then_upd[OF exec_step_refl[OF g]]) (rule keeps)
  have u: "hart_keeps s (s\<lparr>inst := x\<rparr>)" "hart_keeps s (s\<lparr>inst := x, instbuf := y\<rparr>)" for s x y
    by (rule hart_keepsI; simp)+
  show ?thesis
  proof (cases "instbuf (hart h m0) = 0")
    case True
    then obtain x m1 where f: "virt_mem_fetch h 4 (pc (hart h m0)) m0 = Some (x, m1)"
      and m': "m' = upd_hart h (\<lambda>s. s\<lparr>inst := ucast x\<rparr>) m1"
      using e unfolding fetch_word_def m0_def[symmetric] Let_def by auto
    show ?thesis unfolding m' by (rule exec_step_then_upd[OF exec_step_mem_fetch[OF s0 h f] u(1)])
  next
    case False
    then have m': "m' = upd_hart h (\<lambda>s. s\<lparr>inst := scast (instbuf s), instbuf := 0\<rparr>) m0"
      using e unfolding fetch_word_def m0_def[symmetric] Let_def by simp
    show ?thesis unfolding m' by (rule exec_step_then_upd[OF s0 u(2)])
  qed
qed

lemma fetch_step:
  assumes g: "machine_good m" and h: "h < length (hartlist m)" and e: "fetch h m = Some (x, m')"
  shows "exec_step h m m'"
proof -
  obtain m1 f where w: "fetch_word h m = Some m1" and m': "on_hart h f m1 = (x, m')"
    and f: "\<And>s. hart_keeps s (snd (f s))"
    using e fetch_split_keeps create_exception_at_keeps[OF status_keeps(1)] create_exception_at_keeps[OF status_keeps(2)]
    unfolding fetch_def Let_def
    by (auto split: if_splits)
  have s1: "exec_step h m m1" by (rule fetch_word_step[OF g h w])
  show ?thesis using exec_step_trans[OF s1 on_hart_step[OF exec_step_good[OF s1] f m']] .
qed

subsection \<open>The frame of a cycle\<close>

lemma try_setints_keeps: "try_setints s xs = (b, s') \<Longrightarrow> hart_keeps s s'"
proof (induction s xs arbitrary: b s' rule: try_setints.induct)
  case (1 s)
  then show ?case by (simp add: keeps)
next
  case (2 s n x rest)
  have c: "create_exception s x 0 = (e, t) \<Longrightarrow> hart_keeps s t" for e t
    using create_exception_keeps[of s x 0] by simp
  show ?case
    using 2 c hart_keeps_trans by (fastforce split: if_splits prod.splits)
qed

lemma setup_pending_int_keeps [keeps]: "hart_keeps s (snd (setup_pending_int s))"
proof -
  obtain b s1 where f: "(if (bit (mstatus s) 3 \<or> privmode s < 0b11) \<and> mip s \<noteq> 0
      then try_setints s mip_order else (False, s)) = (b, s1)" by fastforce
  then have s1: "hart_keeps s s1" by (auto split: if_splits simp: keeps dest: try_setints_keeps)
  have "hart_keeps s1 (snd (try_setints s1 xs))" for xs
    by (rule try_setints_keeps[OF surjective_pairing])
  then show ?thesis
    using s1 hart_keeps_trans unfolding setup_pending_int_def f by auto
qed

lemma cycle_end_keeps [keeps]: "hart_keeps s (cycle_end s)"
proof -
  define s1 where "s1 = s\<lparr>mcycle := mcycle s + 1, cycle_csr := mcycle s + 1, instret := minstret s\<rparr>"
  have s1: "hart_keeps s s1" unfolding s1_def by (rule hart_keepsI) simp_all
  have "hart_keeps s1 (snd (setup_pending_int (s1\<lparr>chk_int := False\<rparr>)))"
    by (rule hart_keeps_trans[OF chk_int_keeps setup_pending_int_keeps])
  then show ?thesis
    using s1 hart_keeps_trans unfolding cycle_end_def s1_def[symmetric] Let_def by auto
qed

lemma cycle_step:
  assumes g: "machine_good m" and h: "h < length (hartlist m)" and e: "cycle h m = Some (b, m')"
  shows "exec_step h m m'"
proof -
  define m0 where "m0 = upd_hart h (set_reg 0 0) m"
  have s0: "exec_step h m m0"
    unfolding m0_def by (rule exec_step_then_upd[OF exec_step_refl[OF g]]) (rule keeps)
  obtain x m1 where f: "fetch h m0 = Some (x, m1)" using e unfolding cycle_def m0_def[symmetric] by auto
  have s1: "exec_step h m m1"
    using exec_step_trans[OF s0 fetch_step[OF exec_step_good[OF s0] _ f]] h exec_step_length[OF s0] by simp
  have "m' = m1 \<or> (\<exists>m2. m' = upd_hart h cycle_end m2 \<and> (m2 = m1 \<or> (\<exists>y. decode_exc h m1 = Some (y, m2))))"
    using e f unfolding cycle_def m0_def[symmetric] by (auto split: if_splits)
  moreover have "exec_step h m m2" if "decode_exc h m1 = Some (y, m2)" for y m2
    using exec_step_trans[OF s1 decode_exc_step[OF exec_step_good[OF s1] _ that]] h exec_step_length[OF s1]
    by simp
  moreover have "exec_step h m (upd_hart h cycle_end m2)" if "exec_step h m m2" for m2
    by (rule exec_step_then_upd[OF that]) (rule keeps)
  ultimately show ?thesis using s1 by blast
qed

text \<open>A fetch, whatever it does to memory and devices, keeps the registers.\<close>

lemma access_hart_regs: "access_hart s s' \<Longrightarrow> regs s' = regs s"
  unfolding access_hart_def access_core_def by (drule arg_cong[where f = regs]) simp

lemma create_exception_regs: "regs (snd (create_exception s x v)) = regs s"
  by (simp add: create_exception_def trap_to_s_def trap_to_m_def Let_def)

lemma fetch_split_regs: "regs (snd (fetch_split s)) = regs s"
  by (simp add: fetch_split_def Let_def create_exception_regs)

lemma fetch_regs:
  assumes g: "machine_good m" and h: "h < length (hartlist m)" and e: "fetch h m = Some (x, m')"
  shows "regs (hart h m') = regs (hart h m)"
proof -
  define m0 where "m0 = upd_hart h (set_mem_status False) m"
  have s0: "exec_step h m m0"
    unfolding m0_def by (rule exec_step_then_upd[OF exec_step_refl[OF g]]) (rule keeps)
  have r0: "regs (hart h m0) = regs (hart h m)" using h by (simp add: m0_def set_mem_status_def)
  have l0: "h < length (hartlist m0)" using h by (simp add: m0_def)
  have rs: "regs (snd (create_exception (set_mem_status b s) y v)) = regs s"
    "regs (snd (create_exception (set_page_fault b s) y v)) = regs s" for b s y v
    by (simp_all add: create_exception_regs set_mem_status_def set_page_fault_def)
  obtain m1 f where w: "fetch_word h m = Some m1" and m': "on_hart h f m1 = (x, m')"
    and f: "\<And>s. regs (snd (f s)) = regs s"
    using e rs fetch_split_regs unfolding fetch_def Let_def by (auto split: if_splits)
  have "h < length (hartlist m1)" using exec_step_length[OF fetch_word_step[OF g h w]] h by simp
  then have r: "regs (hart h m') = regs (hart h m1)" using m' f by (auto simp: on_hart_def)
  have "regs (hart h m1) = regs (hart h m0)"
  proof (cases "instbuf (hart h m0) = 0")
    case True
    then obtain v m2 where f: "virt_mem_fetch h 4 (pc (hart h m0)) m0 = Some (v, m2)"
      and m1: "m1 = upd_hart h (\<lambda>s. s\<lparr>inst := ucast v\<rparr>) m2"
      using w unfolding fetch_word_def m0_def[symmetric] Let_def by auto
    have "access_step h m0 m2" by (rule virt_mem_fetch_step[OF exec_step_good[OF s0] l0 f])
    then have "access_hart (hart h m0) (hart h m2)" "h < length (hartlist m2)"
      using l0 by (auto simp: access_step_def access_frame_def)
    then show ?thesis unfolding m1 by (simp add: access_hart_regs)
  next
    case False
    then have "m1 = upd_hart h (\<lambda>s. s\<lparr>inst := scast (instbuf s), instbuf := 0\<rparr>) m0"
      using w unfolding fetch_word_def m0_def[symmetric] Let_def by simp
    then show ?thesis using l0 by simp
  qed
  then show ?thesis using r r0 by simp
qed

subsection \<open>The promises of a cycle\<close>

text \<open>
  C34. A cycle does not depend on what the slot of register x0 held before it, and the instruction
  it executes is decoded and executed in a state where x0 is zero and every other register is as
  the previous cycle left it, whether or not the fetch trapped.
\<close>

lemma cycle_x0_zero:
  assumes g: "machine_good m" and h: "h < length (hartlist m)" and c: "cycle h m = Some (go, m')"
  shows "cycle h (upd_hart h (\<lambda>s. s\<lparr>regs := (regs s)(0 := v)\<rparr>) m) = Some (go, m')
    \<and> (\<exists>exc m1. fetch h (upd_hart h (\<lambda>s. s\<lparr>regs := (regs s)(0 := 0)\<rparr>) m) = Some (exc, m1)
        \<and> regs (hart h m1) 0 = 0 \<and> (\<forall>r. r \<noteq> 0 \<longrightarrow> regs (hart h m1) r = regs (hart h m) r)
        \<and> (if go then \<exists>m2. (if exc = NOEXC then \<exists>e. decode_exc h m1 = Some (e, m2) else m2 = m1)
                \<and> m' = upd_hart h cycle_end m2
           else m' = m1))"
proof -
  have sr: "set_reg 0 w = (\<lambda>s. s\<lparr>regs := (regs s)(0 := w)\<rparr>)" for w by (rule ext) (simp add: set_reg_def)
  have twice: "set_reg 0 0 (set_reg 0 v s) = set_reg 0 0 s" for s by (simp add: set_reg_def)
  from c obtain exc m1 where f: "fetch h (upd_hart h (set_reg 0 0) m) = Some (exc, m1)"
    and rest: "(if sig_mode m1 \<and> inst (hart h m1) = 0xbad33013 then Some (False, m1)
     else do {
       (_, m2) \<leftarrow> (if exc \<noteq> NOEXC then Some (exc, m1) else decode_exc h m1);
       Some (True, upd_hart h cycle_end m2) }) = Some (go, m')"
    unfolding cycle_def by (cases "fetch h (upd_hart h (set_reg 0 0) m)") auto
  have "machine_good (upd_hart h (set_reg 0 0) m)" by (rule machine_good_keeps[OF g]) (rule keeps)
  then have "regs (hart h m1) = regs (hart h (upd_hart h (set_reg 0 0) m))"
    by (rule fetch_regs[OF _ _ f]) (simp add: h)
  then have r: "regs (hart h m1) = (regs (hart h m))(0 := 0)" using h by (simp add: set_reg_def)
  have "if go then \<exists>m2. (if exc = NOEXC then \<exists>e. decode_exc h m1 = Some (e, m2) else m2 = m1)
                \<and> m' = upd_hart h cycle_end m2 else m' = m1"
    using rest by (auto split: if_splits Option.bind_splits)
  moreover have "cycle h (upd_hart h (set_reg 0 v) m) = cycle h m" by (simp add: cycle_def twice)
  ultimately show ?thesis using c f r unfolding sr by auto
qed

text \<open>
  C18. Load-reserved and store-conditional form a lock: after an LR of an address, the hart holds
  the reservation, every other hart's reservation of that address is gone and all others are as
  before; an SC whose reservation is for another address writes 1 to its destination, stores
  nothing and gives up the reservation.
\<close>

lemma lr_sc_reservations:
  assumes g: "machine_good m" and h: "h < length (hartlist m)"
  shows "(\<forall>m'. take_reservation h pa m = Some m' \<longrightarrow> main_mem m' = main_mem m \<and> reservations m' ! h = pa
      \<and> (\<forall>k < length (hartlist m). k \<noteq> h \<longrightarrow>
           reservations m' ! k = (if reservations m ! k = pa then 0 else reservations m ! k)))
    \<and> (reservations m ! h \<noteq> pa \<longrightarrow> (\<exists>m'. sc_commit h d a pa m = Some (Done False, m')
      \<and> main_mem m' = main_mem m \<and> regs (hart h m') = (regs (hart h m))(rd d := 1)
      \<and> reservations m' = (reservations m)[h := 0]))"
proof (intro conjI allI impI)
  have id: "unat (hartid (hart h m)) = h" and l: "length (reservations m) = length (hartlist m)"
    using machine_goodD(1,5)[OF g] h by (auto simp: aclint_good_def)
  {
    fix m' assume t: "take_reservation h pa m = Some m'"
    note e = take_reservation_effect[OF g h t]
    show "main_mem m' = main_mem m" "reservations m' ! h = pa" using e by auto
    fix k assume "k < length (hartlist m)" "k \<noteq> h"
    then show "reservations m' ! k = (if reservations m ! k = pa then 0 else reservations m ! k)"
      using e l by auto
  }
  assume ne: "reservations m ! h \<noteq> pa"
  define m' where "m' = (upd_hart h (set_reg (rd d) 1) m)\<lparr>reservations := (reservations m)[h := 0]\<rparr>"
  have "sc_commit h d a pa m = Some (Done False, m')"
    using ne id l h by (simp add: sc_commit_def sc_done_def clear_reservation_def set_reg_def m'_def nth_opt_def upd_opt_def)
  moreover have "regs (hart h m') = (regs (hart h m))(rd d := 1)"
    using h by (simp add: m'_def hart_def upd_hart_def set_reg_def)
  ultimately show "\<exists>m'. sc_commit h d a pa m = Some (Done False, m')
      \<and> main_mem m' = main_mem m \<and> regs (hart h m') = (regs (hart h m))(rd d := 1)
      \<and> reservations m' = (reservations m)[h := 0]"
    by (intro exI[of _ m']) (simp add: m'_def)
qed

end
