(* ===== verification/Loader.thy ===== *)
theory Loader
  imports Physmem
begin

text \<open>
  Loading images into the RAM (\<open>load_elf\<close> of \<open>elf.cpp\<close>) and the files written at the end of
  a run: the signature (\<open>main.cpp\<close>) and the memory dump (\<open>dump_mem\<close> of \<open>mem.cpp\<close>).  What
  libelf and the operating system return for the open file is an argument, the record
  \<open>Image\<close>.
\<close>

subsection \<open>What libelf and the file return\<close>

record Phdr =
  p_type :: u32
  p_paddr :: u64
  p_memsz :: u64
  p_filesz :: u64
  p_offset :: u64

record Shdr =
  sh_type :: u32
  sh_size :: u64
  sh_entsize :: u64

record Sym =
  st_value :: u64
  sym_name :: "string option"

text \<open>
  \<open>fd_num\<close>: the descriptor \<open>open\<close> returned; \<open>elf_lib\<close>: \<open>elf_version\<close> does not fail; \<open>elf_open\<close>: \<open>elf_begin\<close> returns a handle;
  \<open>elf_is_elf\<close>: its kind is \<open>ELF_K_ELF\<close>.  \<open>sections\<close> are those \<open>elf_nextscn\<close> enumerates,
  \<open>symbols k i\<close> the \<open>i\<close>-th symbol of the \<open>k\<close>-th of them, with its name from the linked
  string table (\<^term>\<open>None\<close> is a null pointer).  \<open>fd_read\<close> and \<open>fd_pread\<close> are the bytes
  \<open>read\<close> and \<open>pread\<close> deliver, \<^term>\<open>None\<close> for the result \<open>-1\<close>.
\<close>

record Image =
  fd_num :: int
  elf_lib :: bool
  elf_open :: bool
  elf_is_elf :: bool
  phdrs :: "Phdr list"
  sections :: "Shdr list"
  symbols :: "nat \<Rightarrow> nat \<Rightarrow> Sym option"
  fd_read :: "nat \<Rightarrow> u8 list option"
  fd_pread :: "nat \<Rightarrow> nat \<Rightarrow> u8 list option"

definition PT_LOAD :: u32 where "PT_LOAD = 1"
definition SHT_SYMTAB :: u32 where "SHT_SYMTAB = 2"

subsection \<open>Writing into the RAM array\<close>

text \<open>The system call copies \<open>bs\<close> to \<open>main_mem + off\<close>; beyond the array this is undefined.\<close>

definition main_mem_put :: "u64 \<Rightarrow> u8 list \<Rightarrow> Machine \<Rightarrow> Machine option" where
  "main_mem_put off bs m = do {
     guard (bs = [] \<or> unat off + length bs \<le> unat (mach_mem_size m));
     Some (m\<lparr>main_mem := \<lambda>i. if unat (i - off) < length bs then bs ! unat (i - off) else main_mem m i\<rparr>)
   }"

subsection \<open>load_elf\<close>

text \<open>The fallback for what is not an ELF file; a failed read returns \<open>(size_t) -1\<close>.\<close>

definition load_flat :: "Image \<Rightarrow> u64 \<Rightarrow> Machine \<Rightarrow> (u64 \<times> Machine) option" where
  "load_flat f mem_offset m = (case fd_read f 0x2000000 of
       None \<Rightarrow> Some (- 1, m)
     | Some bs \<Rightarrow> do { m' \<leftarrow> main_mem_put mem_offset bs m; Some (of_nat (length bs), m') })"

text \<open>
  The loop over the program headers; the first component of the result is \<^term>\<open>None\<close> when a
  failed \<open>pread\<close> makes the function return 0.
\<close>

fun load_segments :: "Image \<Rightarrow> u64 \<Rightarrow> Phdr list \<Rightarrow> u64 \<Rightarrow> Machine \<Rightarrow> (u64 option \<times> Machine) option" where
  "load_segments f mem_offset [] file_size m = Some (Some file_size, m)"
| "load_segments f mem_offset (ph # phs) file_size m =
    (if p_type ph \<noteq> PT_LOAD then load_segments f mem_offset phs file_size m
     else if p_paddr ph < 0x80000000 then load_segments f mem_offset phs file_size m
     else
       let load_addr = p_paddr ph + mem_offset - 0x80000000
       in case fd_pread f (unat (p_memsz ph)) (unat (p_offset ph)) of
            None \<Rightarrow> Some (None, m)
          | Some bs \<Rightarrow> do {
              m' \<leftarrow> main_mem_put load_addr bs m;
              load_segments f mem_offset phs (file_size + of_nat (length bs)) m' })"

text \<open>The first section of type \<open>SHT_SYMTAB\<close>, with its position.\<close>

definition find_symtab :: "Image \<Rightarrow> (nat \<times> Shdr) option" where
  "find_symtab f = find (\<lambda>(k, sh). sh_type sh = SHT_SYMTAB) (enumerate 0 (sections f))"

definition note_symbol :: "Image \<Rightarrow> nat \<Rightarrow> nat \<Rightarrow> Machine \<Rightarrow> Machine option" where
  "note_symbol f k i m = do {
     sym \<leftarrow> symbols f k i;
     name \<leftarrow> sym_name sym;
     Some (m\<lparr>begin_signature := (if name = ''begin_signature'' then st_value sym else begin_signature m),
             end_signature := (if name = ''end_signature'' then st_value sym else end_signature m)\<rparr>)
   }"

text \<open>\<open>sh_size / sh_entsize\<close> traps when the entry size is 0.\<close>

definition find_signature :: "Image \<Rightarrow> Machine \<Rightarrow> Machine option" where
  "find_signature f m = (case find_symtab f of
       None \<Rightarrow> Some m
     | Some (k, sh) \<Rightarrow> do {
         guard (sh_entsize sh \<noteq> 0);
         for_each (note_symbol f k) [0..<unat (sh_size sh div sh_entsize sh)] m })"

definition load_elf :: "Image \<Rightarrow> u64 \<Rightarrow> Machine \<Rightarrow> (u64 \<times> Machine) option" where
  "load_elf f mem_offset m =
    (if \<not> elf_lib f then Some (0, m)
     else if \<not> elf_open f then load_flat f mem_offset m
     else if \<not> elf_is_elf f then load_flat f mem_offset m
     else do {
       (r, m1) \<leftarrow> load_segments f mem_offset (phdrs f) 0 m;
       case r of
         None \<Rightarrow> Some (0, m1)
       | Some file_size \<Rightarrow> do {
           m2 \<leftarrow> (if sig_mode m1 then find_signature f m1 else Some m1);
           Some (file_size, m2) }
     })"

subsection \<open>The signature file\<close>

definition hex_digit :: "nat \<Rightarrow> char" where
  "hex_digit n = ''0123456789abcdef'' ! n"

text \<open>\<open>fprintf(sf, "%02x", byte)\<close>\<close>

definition hex_byte :: "u8 \<Rightarrow> string" where
  "hex_byte b = [hex_digit (unat b div 16), hex_digit (unat b mod 16)]"

definition mem_byte :: "Machine \<Rightarrow> u64 \<Rightarrow> u8 option" where
  "mem_byte m i = do { guard (i < mach_mem_size m); Some (main_mem m i) }"

text \<open>One line: the sixteen bytes at \<open>i\<close>, last byte first.\<close>

fun sig_bytes :: "Machine \<Rightarrow> u64 \<Rightarrow> nat \<Rightarrow> string option" where
  "sig_bytes m i 0 = Some []"
| "sig_bytes m i (Suc k) = do {
     b \<leftarrow> mem_byte m (i + of_nat k);
     t \<leftarrow> sig_bytes m i k;
     Some (hex_byte b @ t) }"

definition sig_line :: "Machine \<Rightarrow> u64 \<Rightarrow> string option" where
  "sig_line m offset = do {
     t \<leftarrow> sig_bytes m (begin_signature m - 0x80000000 + offset) 16;
     Some (t @ [CHR 0x0A]) }"

text \<open>\<open>for (uint64_t offset = 0; offset < sig_difference; offset += 16)\<close>, from \<open>offset\<close> on.\<close>

partial_function (option) dump_signature_from :: "Machine \<Rightarrow> u64 \<Rightarrow> string option" where
  "dump_signature_from m offset =
    (if offset < end_signature m - begin_signature m then
       Option.bind (sig_line m offset) (\<lambda>l.
         Option.bind (dump_signature_from m (offset + 16)) (\<lambda>rest. Some (l @ rest)))
     else Some [])"

definition dump_signature :: "Machine \<Rightarrow> string option" where
  "dump_signature m = dump_signature_from m 0"

definition dump_mem :: "Machine \<Rightarrow> u8 list" where
  "dump_mem m = map (\<lambda>i. main_mem m (of_nat i)) [0..<unat (mach_mem_size m)]"

subsection \<open>What loading does\<close>

text \<open>Loading touches the RAM and the two signature addresses, nothing else.\<close>

definition load_core :: "Machine \<Rightarrow> Machine" where
  "load_core m = m\<lparr>main_mem := \<lambda>_. 0, begin_signature := 0, end_signature := 0\<rparr>"

definition load_frame :: "Machine \<Rightarrow> Machine \<Rightarrow> bool" where
  "load_frame m m' \<longleftrightarrow> load_core m' = load_core m"

lemma load_frame_refl [simp]: "load_frame m m"
  by (simp add: load_frame_def)

lemma load_frame_trans [trans]: "load_frame a b \<Longrightarrow> load_frame b c \<Longrightarrow> load_frame a c"
  by (simp add: load_frame_def)

lemma main_mem_put_frame: "main_mem_put off bs m = Some m' \<Longrightarrow> load_frame m m'"
  by (auto simp: main_mem_put_def load_frame_def load_core_def)

lemma load_segments_frame: "load_segments f mo phs n m = Some (r, m') \<Longrightarrow> load_frame m m'"
proof (induction f mo phs n m arbitrary: r m' rule: load_segments.induct)
  case (2 f mo ph phs n m)
  show ?case
  proof (cases "p_type ph \<noteq> PT_LOAD \<or> p_paddr ph < 0x80000000 \<or>
      fd_pread f (unat (p_memsz ph)) (unat (p_offset ph)) = None")
    case True
    then show ?thesis using 2 by (auto split: if_splits)
  next
    case False
    then obtain bs m1 where "fd_pread f (unat (p_memsz ph)) (unat (p_offset ph)) = Some bs"
      and "main_mem_put (p_paddr ph + mo - 0x80000000) bs m = Some m1"
      and "load_segments f mo phs (n + of_nat (length bs)) m1 = Some (r, m')"
      using 2(4) by auto
    note put = main_mem_put_frame[OF this(2)] and rest = this
    have "load_frame m1 m'" using 2(3)[OF _ _ refl rest(1) _ rest(3)] rest(2) False by auto
    with put show ?thesis by (rule load_frame_trans)
  qed
qed simp

lemma find_signature_frame: "find_signature f m = Some m' \<Longrightarrow> load_frame m m'"
proof -
  have n: "note_symbol f k i a = Some b \<Longrightarrow> load_frame a b" for k i a b
  proof -
    assume "note_symbol f k i a = Some b"
    then have "\<exists>x y. a\<lparr>begin_signature := x, end_signature := y\<rparr> = b"
      unfolding note_symbol_def bind_eq_Some_iff option.inject by (elim exE conjE) (rule exI, rule exI)
    then obtain x y where "b = a\<lparr>begin_signature := x, end_signature := y\<rparr>" by blast
    then show ?thesis by (simp add: load_frame_def load_core_def)
  qed
  assume f: "find_signature f m = Some m'"
  show ?thesis
  proof (cases "find_symtab f")
    case None
    then show ?thesis using f by (simp add: find_signature_def)
  next
    case (Some p)
    obtain k sh where p: "p = (k, sh)" by fastforce
    have "for_each (note_symbol f k) [0..<unat (sh_size sh div sh_entsize sh)] m = Some m'"
      using f by (simp add: find_signature_def Some p)
    then show ?thesis
    proof (rule for_each_inv)
      show "load_frame m m" by simp
    next
      fix x a b
      assume "load_frame m a" "note_symbol f k x a = Some b"
      then show "load_frame m b" using load_frame_trans n by blast
    qed
  qed
qed

lemma load_flat_frame: "load_flat f mo m = Some (r, m') \<Longrightarrow> load_frame m m'"
  by (auto simp: load_flat_def split: option.splits dest: main_mem_put_frame)

lemma load_elf_frame: "load_elf f mo m = Some (r, m') \<Longrightarrow> load_frame m m'"
proof -
  assume l: "load_elf f mo m = Some (r, m')"
  show ?thesis
  proof (cases "elf_lib f \<and> elf_open f \<and> elf_is_elf f")
    case False
    then show ?thesis using l load_flat_frame by (auto simp: load_elf_def split: if_splits)
  next
    case True
    then obtain q m1 where s: "load_segments f mo (phdrs f) 0 m = Some (q, m1)"
      and t: "m' = m1 \<or> find_signature f m1 = Some m'"
      using l by (auto simp: load_elf_def split: option.splits if_splits)
    show ?thesis
      using load_segments_frame[OF s] t find_signature_frame load_frame_trans by blast
  qed
qed

text \<open>The bytes a program header claims, and a file whose \<open>pread\<close> delivers its contents.\<close>

definition seg_loads :: "Phdr \<Rightarrow> bool" where
  "seg_loads ph \<longleftrightarrow> p_type ph = PT_LOAD \<and> 0x80000000 \<le> p_paddr ph"

definition seg_covers :: "u64 \<Rightarrow> Phdr \<Rightarrow> u64 \<Rightarrow> bool" where
  "seg_covers mo ph i \<longleftrightarrow> seg_loads ph
     \<and> unat (i - (p_paddr ph + mo - 0x80000000)) < unat (p_memsz ph)"

definition reads_file :: "u8 list \<Rightarrow> Image \<Rightarrow> bool" where
  "reads_file content f \<longleftrightarrow> (\<forall>n off. fd_pread f n off = Some (take n (drop off content)))"

lemma load_segments_Cons:
  assumes "reads_file content f"
  shows "load_segments f mo (ph # phs) n m =
    (if seg_loads ph then
       (let bs = take (unat (p_memsz ph)) (drop (unat (p_offset ph)) content)
        in Option.bind (main_mem_put (p_paddr ph + mo - 0x80000000) bs m)
             (load_segments f mo phs (n + of_nat (length bs))))
     else load_segments f mo phs n m)"
  using assms by (auto simp: reads_file_def seg_loads_def Let_def not_less)

lemma load_segments_loaded:
  assumes "reads_file content f" "seg_loads ph" "load_segments f mo (ph # phs) n m = Some (q, m')"
  obtains bs m1 where "bs = take (unat (p_memsz ph)) (drop (unat (p_offset ph)) content)"
    "main_mem_put (p_paddr ph + mo - 0x80000000) bs m = Some m1"
    "load_segments f mo phs (n + of_nat (length bs)) m1 = Some (q, m')"
  using assms(2,3) unfolding load_segments_Cons[OF assms(1)] by (auto simp: Let_def)

lemma load_segments_skipped:
  assumes "reads_file content f" "\<not> seg_loads ph"
  shows "load_segments f mo (ph # phs) n m = load_segments f mo phs n m"
  using assms(2) unfolding load_segments_Cons[OF assms(1)] by simp

lemma load_segments_other:
  assumes r: "reads_file content f" and l: "load_segments f mo phs n m = Some (q, m')"
    and c: "\<forall>ph \<in> set phs. \<not> seg_covers mo ph i"
  shows "main_mem m' i = main_mem m i"
  using l c
proof (induction phs arbitrary: n m)
  case (Cons ph phs)
  show ?case
  proof (cases "seg_loads ph")
    case True
    then obtain bs m1 where b: "bs = take (unat (p_memsz ph)) (drop (unat (p_offset ph)) content)"
      and p: "main_mem_put (p_paddr ph + mo - 0x80000000) bs m = Some m1"
      and s: "load_segments f mo phs (n + of_nat (length bs)) m1 = Some (q, m')"
      by (rule load_segments_loaded[OF r _ Cons.prems(1)])
    have "\<not> unat (i - (p_paddr ph + mo - 0x80000000)) < length bs"
      using Cons.prems(2) True b by (auto simp: seg_covers_def)
    then have "main_mem m1 i = main_mem m i" using p by (auto simp: main_mem_put_def)
    then show ?thesis using Cons.IH[OF s] Cons.prems(2) by simp
  next
    case False
    then show ?thesis using Cons load_segments_skipped[OF r False] by simp
  qed
qed simp

text \<open>
  C22. After the loadable segments of an image have been read, every byte of RAM that a segment
  covers and the file reaches holds the byte of the file at the segment's offset, provided the
  segments do not overlap.
\<close>

lemma load_segments_content:
  assumes r: "reads_file content f" and l: "load_segments f mo phs n m = Some (q, m')"
    and d: "sorted_wrt (\<lambda>a b. \<forall>i. \<not> (seg_covers mo a i \<and> seg_covers mo b i)) phs"
    and ph: "ph \<in> set phs" "seg_covers mo ph i"
    and k: "k = unat (i - (p_paddr ph + mo - 0x80000000))" "unat (p_offset ph) + k < length content"
  shows "main_mem m' i = content ! (unat (p_offset ph) + k)"
  using l d ph(1)
proof (induction phs arbitrary: n m)
  case (Cons p phs)
  show ?case
  proof (cases "p = ph")
    case True
    have sl: "seg_loads p" "k < unat (p_memsz p)" using ph(2) True k(1) by (simp_all add: seg_covers_def)
    then obtain bs m1 where b: "bs = take (unat (p_memsz p)) (drop (unat (p_offset p)) content)"
      and put: "main_mem_put (p_paddr p + mo - 0x80000000) bs m = Some m1"
      and s: "load_segments f mo phs (n + of_nat (length bs)) m1 = Some (q, m')"
      using load_segments_loaded[OF r _ Cons.prems(1)] by blast
    have kb: "k < length bs" "bs ! k = content ! (unat (p_offset p) + k)"
      using b sl k(2) True by auto
    then have "main_mem m1 i = content ! (unat (p_offset ph) + k)"
      using put k(1) True by (auto simp: main_mem_put_def)
    moreover have "main_mem m' i = main_mem m1 i"
      using load_segments_other[OF r s] Cons.prems(2) ph(2) True by auto
    ultimately show ?thesis by simp
  next
    case False
    then have "\<exists>n1 m1. load_segments f mo phs n1 m1 = Some (q, m')"
      using Cons.prems(1) load_segments_loaded[OF r] load_segments_skipped[OF r] by metis
    then show ?thesis using Cons False by auto
  qed
qed simp

subsection \<open>Reading the signature back\<close>

definition hex_val :: "char \<Rightarrow> nat" where
  "hex_val c = (let n = of_char c in if n < 58 then n - 48 else n - 87)"

lemma hex_val_digit: "n < 16 \<Longrightarrow> hex_val (hex_digit n) = n"
proof -
  have "\<forall>n \<in> set [0..<16]. hex_val (hex_digit n) = n"
    by (simp add: upt_rec hex_val_def hex_digit_def)
  then show "n < 16 \<Longrightarrow> hex_val (hex_digit n) = n" by simp
qed

fun unhex :: "string \<Rightarrow> u8 list" where
  "unhex (a # b # cs) = of_nat (16 * hex_val a + hex_val b) # unhex cs"
| "unhex _ = []"

lemma unhex_hex_byte [simp]: "unhex (hex_byte b @ t) = b # unhex t"
proof -
  have "unat b < 256" by (rule order_less_le_trans[OF unsigned_less]) simp
  then have "unat b div 16 < 16" by (simp add: less_mult_imp_div_less)
  then have h: "16 * hex_val (hex_digit (unat b div 16)) + hex_val (hex_digit (unat b mod 16)) = unat b"
    by (simp only: hex_val_digit[of "unat b div 16"] hex_val_digit[of "unat b mod 16"] mod_less_divisor
        zero_less_numeral mult_div_mod_eq)
  show ?thesis unfolding hex_byte_def by (simp only: append_Cons append_Nil unhex.simps h) simp
qed

text \<open>A line starts with the byte at the highest address.\<close>

fun parse_lines :: "nat \<Rightarrow> string \<Rightarrow> u8 list" where
  "parse_lines 0 s = []"
| "parse_lines (Suc n) s = rev (unhex (take 32 s)) @ parse_lines n (drop 33 s)"

lemma sig_bytes_Some:
  assumes "unat i + k \<le> unat (mach_mem_size m)"
  shows "\<exists>t. sig_bytes m i k = Some t \<and> length t = 2 * k
    \<and> (\<forall>r. unhex (t @ r) = rev (map (\<lambda>j. main_mem m (i + of_nat j)) [0..<k]) @ unhex r)"
  using assms
proof (induction k)
  case (Suc k)
  then obtain t where t: "sig_bytes m i k = Some t" "length t = 2 * k"
    "\<And>r. unhex (t @ r) = rev (map (\<lambda>j. main_mem m (i + of_nat j)) [0..<k]) @ unhex r"
    by auto
  have "unat (mach_mem_size m) < 2 ^ 64" by (rule order_less_le_trans[OF unsigned_less]) simp
  then have "unat i + Suc k < 2 ^ 64" using Suc.prems by linarith
  then have "i + of_nat k < mach_mem_size m"
    using Suc.prems unat_add_offset[of i "Suc k" k] by (simp add: word_less_nat_alt)
  then have b: "mem_byte m (i + of_nat k) = Some (main_mem m (i + of_nat k))" by (simp add: mem_byte_def)
  show ?case
  proof (intro exI conjI allI)
    show "sig_bytes m i (Suc k) = Some (hex_byte (main_mem m (i + of_nat k)) @ t)" using t(1) b by simp
    show "length (hex_byte (main_mem m (i + of_nat k)) @ t) = 2 * Suc k" using t(2) by (simp add: hex_byte_def)
    show "unhex ((hex_byte (main_mem m (i + of_nat k)) @ t) @ r) =
        rev (map (\<lambda>j. main_mem m (i + of_nat j)) [0..<Suc k]) @ unhex r" for r
      by (simp add: t(3) del: unhex.simps)
  qed
qed simp

subsection \<open>The signature file is complete\<close>

definition sig_start :: "Machine \<Rightarrow> u64" where
  "sig_start m = begin_signature m - 0x80000000"

text \<open>The number of lines.\<close>

definition sig_lines :: "Machine \<Rightarrow> nat" where
  "sig_lines m = (unat (end_signature m - begin_signature m) + 15) div 16"

lemma sig_line_Some:
  assumes "unat (sig_start m) + 16 * n \<le> unat (mach_mem_size m)" and "k < n"
  shows "\<exists>t. sig_line m (of_nat (16 * k)) = Some (t @ [CHR 0x0A]) \<and> length t = 32
    \<and> rev (unhex t) = map (\<lambda>j. main_mem m (sig_start m + of_nat j)) [16 * k..<16 * Suc k]"
proof -
  let ?i = "sig_start m + of_nat (16 * k)"
  have lt: "unat (mach_mem_size m) < 2 ^ 64" by (rule order_less_le_trans[OF unsigned_less]) simp
  have "unat ?i = unat (sig_start m) + 16 * k"
    using assms lt by (intro unat_add_offset[of _ "16 * n"]) auto
  then have r: "unat ?i + 16 \<le> unat (mach_mem_size m)" using assms by simp
  obtain t where t: "sig_bytes m ?i 16 = Some t" "length t = 2 * 16"
    and u: "\<And>r. unhex (t @ r) = rev (map (\<lambda>j. main_mem m (?i + of_nat j)) [0..<16]) @ unhex r"
    using sig_bytes_Some[OF r] by blast
  have "map (\<lambda>j. main_mem m (sig_start m + of_nat j)) [16 * k..<16 * Suc k]
      = map (\<lambda>j. main_mem m (?i + of_nat j)) [0..<16]"
  proof -
    have "[16 * k..<16 * Suc k] = map (\<lambda>j. j + 16 * k) [0..<16]"
      using map_add_upt[of "16 * k" 16] by (simp add: add.commute)
    then show ?thesis by (simp add: algebra_simps)
  qed
  then show ?thesis
    using t u[of "[]"] by (intro exI[of _ t]) (simp add: sig_line_def sig_start_def)
qed

lemma unat_of_nat_u64: "n < 2 ^ 64 \<Longrightarrow> unat (of_nat n :: u64) = n"
  by (simp add: unat_of_nat)

lemma dump_signature_from_Some:
  assumes "unat (sig_start m) + 16 * sig_lines m \<le> unat (mach_mem_size m)" and "k \<le> sig_lines m"
  shows "\<exists>s. dump_signature_from m (of_nat (16 * k)) = Some s
    \<and> parse_lines (sig_lines m - k) s
      = map (\<lambda>j. main_mem m (sig_start m + of_nat j)) [16 * k..<16 * sig_lines m]"
  using assms(2)
proof (induction "sig_lines m - k" arbitrary: k)
  case 0
  let ?d = "end_signature m - begin_signature m"
  have lt: "unat (mach_mem_size m) < 2 ^ 64" by (rule order_less_le_trans[OF unsigned_less]) simp
  have "unat (of_nat (16 * k) :: u64) = 16 * k" by (rule unat_of_nat_u64) (use assms(1) lt 0 in linarith)
  moreover have "unat ?d \<le> 16 * k" using 0 by (auto simp: sig_lines_def)
  ultimately have "\<not> of_nat (16 * k) < ?d" by (simp only: word_less_nat_alt not_less)
  then have "dump_signature_from m (of_nat (16 * k)) = Some []"
    by (subst dump_signature_from.simps) (simp only: if_False)
  then show ?case using 0 by simp
next
  case (Suc r)
  let ?d = "end_signature m - begin_signature m"
  have lt: "unat (mach_mem_size m) < 2 ^ 64" by (rule order_less_le_trans[OF unsigned_less]) simp
  have k: "k < sig_lines m" using Suc.hyps(2) by simp
  have "unat (of_nat (16 * k) :: u64) = 16 * k" by (rule unat_of_nat_u64) (use assms(1) lt k in linarith)
  moreover have "16 * k < unat ?d" using k by (auto simp: sig_lines_def)
  ultimately have c: "of_nat (16 * k) < ?d" by (simp only: word_less_nat_alt)
  obtain t where t: "sig_line m (of_nat (16 * k)) = Some (t @ [CHR 0x0A])" "length t = 32"
    "rev (unhex t) = map (\<lambda>j. main_mem m (sig_start m + of_nat j)) [16 * k..<16 * Suc k]"
    using sig_line_Some[OF assms(1) k] by blast
  have nxt: "of_nat (16 * k) + 16 = (of_nat (16 * Suc k) :: u64)" by simp
  obtain s where s: "dump_signature_from m (of_nat (16 * Suc k)) = Some s"
    "parse_lines (sig_lines m - Suc k) s = map (\<lambda>j. main_mem m (sig_start m + of_nat j)) [16 * Suc k..<16 * sig_lines m]"
  proof -
    have "r = sig_lines m - Suc k" "Suc k \<le> sig_lines m" using Suc.hyps(2) k by simp_all
    then show thesis using Suc.hyps(1)[of "Suc k"] that by blast
  qed
  have "dump_signature_from m (of_nat (16 * k)) = Some ((t @ [CHR 0x0A]) @ s)"
    unfolding dump_signature_from.simps[of m "of_nat (16 * k)"] if_P[OF c] nxt t(1) s(1) by simp
  moreover have "parse_lines (sig_lines m - k) ((t @ [CHR 0x0A]) @ s)
      = map (\<lambda>j. main_mem m (sig_start m + of_nat j)) [16 * k..<16 * sig_lines m]"
  proof -
    have "sig_lines m - k = Suc (sig_lines m - Suc k)" using k by simp
    then have "parse_lines (sig_lines m - k) ((t @ [CHR 0x0A]) @ s) = rev (unhex t) @ parse_lines (sig_lines m - Suc k) s"
      using t(2) by simp
    moreover have "[16 * k..<16 * sig_lines m] = [16 * k..<16 * Suc k] @ [16 * Suc k..<16 * sig_lines m]"
      using upt_add_eq_append[of "16 * k" "16 * Suc k" "16 * (sig_lines m - Suc k)"] k by (simp add: algebra_simps)
    ultimately show ?thesis using t(3) s(2) by simp
  qed
  ultimately show ?case by blast
qed

text \<open>
  C20. When the signature, rounded up to whole lines of sixteen bytes, lies inside the memory, the
  loop that writes it ends, and reading the file back gives the bytes of memory in order.
\<close>

lemma signature_roundtrip:
  assumes "unat (sig_start m) + 16 * sig_lines m \<le> unat (mach_mem_size m)"
  shows "\<exists>s. dump_signature m = Some s
    \<and> parse_lines (sig_lines m) s = map (\<lambda>j. main_mem m (sig_start m + of_nat j)) [0..<16 * sig_lines m]"
  using dump_signature_from_Some[OF assms, of 0] by (simp add: dump_signature_def)

end
