(* ===== verification/System.thy ===== *)
theory System
  imports Cpu Loader
begin

text \<open>
  The program as a whole (\<open>main.cpp\<close>): option parsing, start-up, and the threads of a running
  machine: one \<open>hart_loop\<close> per hart, the main loop that polls the devices, the transmitter
  thread of the UART and the signal handler.  The threads are interleaved; one step is one
  iteration of a loop, for the main loop one iteration of its inner loop.
\<close>

subsection \<open>Hardware start-up, polling and shut-down\<close>

definition hw_init :: "(nat \<Rightarrow> u32) \<Rightarrow> (nat \<Rightarrow> u32) \<Rightarrow> Machine \<Rightarrow> Machine" where
  "hw_init mswi_junk plic_junk m =
     virtio_mmio_blk_init (uart_init (plic_init plic_junk
       (aclint_mswi_init mswi_junk (aclint_mtimer_init (mem_init m)))))"

definition hw_perhart_update :: "nat \<Rightarrow> Machine \<Rightarrow> Machine option" where
  "hw_perhart_update h m = do { m1 \<leftarrow> aclint_mtimer_chk h m; aclint_mswi_chk h m1 }"

definition hw_update :: "u8 \<Rightarrow> Machine \<Rightarrow> Machine option" where
  "hw_update ch m = do { m1 \<leftarrow> uart_chk ch m; plic_chk m1 }"

definition uart_uninit :: "Machine \<Rightarrow> Machine" where
  "uart_uninit m = upd_uart (\<lambda>u. u\<lparr>uart_end := True\<rparr>) m"

text \<open>\<open>mem_free\<close> ends the lifetime of the arrays; nothing reads them afterwards.\<close>

definition hw_uninit :: "Machine \<Rightarrow> Machine" where
  "hw_uninit m = uart_uninit (virtio_mmio_blk_uninit m)"

subsection \<open>The command line\<close>

record Args =
  fwfile :: "string option"
  kernelfile :: "string option"
  dtbfile :: "string option"
  initrdfile :: "string option"
  signaturefile :: "string option"
  arg_mem_size :: u64
  arg_hart_count :: u16
  arg_sig_mode :: bool
  dump_mem_atexit :: bool
  skip_pty :: bool

definition default_args :: Args where
  "default_args = \<lparr>fwfile = None, kernelfile = None, dtbfile = None, initrdfile = None,
     signaturefile = None, arg_mem_size = 0x20000000, arg_hart_count = 1, arg_sig_mode = False,
     dump_mem_atexit = False, skip_pty = False\<rparr>"

text \<open>\<open>atol\<close>: white space, a sign, digits up to the first other character, clamped to \<open>long\<close>.\<close>

definition is_space :: "char \<Rightarrow> bool" where
  "is_space c \<longleftrightarrow> c = CHR '' '' \<or> (9 \<le> (of_char c :: nat) \<and> (of_char c :: nat) \<le> 13)"

definition is_digit :: "char \<Rightarrow> bool" where
  "is_digit c \<longleftrightarrow> 48 \<le> (of_char c :: nat) \<and> (of_char c :: nat) \<le> 57"

definition digits_val :: "string \<Rightarrow> int" where
  "digits_val ds = fold (\<lambda>c n. 10 * n + (of_char c - 48)) ds 0"

definition atol :: "string \<Rightarrow> int" where
  "atol s = (let t = dropWhile is_space s;
       neg = (t \<noteq> [] \<and> hd t = CHR ''-'');
       u = (if t \<noteq> [] \<and> (hd t = CHR ''-'' \<or> hd t = CHR ''+'') then tl t else t);
       v = digits_val (takeWhile is_digit u)
     in max (- (2 ^ 63)) (min (2 ^ 63 - 1) (if neg then - v else v)))"

text \<open>
  One option as \<open>getopt\<close> delivers it: its letter and \<open>optarg\<close>.  The result is \<open>Inl\<close> the exit
  status or \<open>Inr\<close> the arguments so far; \<^term>\<open>None\<close> is \<open>atol(NULL)\<close>, when an optional argument
  is left out.
\<close>

definition parse_opt :: "char \<times> string option \<Rightarrow> Args \<Rightarrow> (int + Args) option" where
  "parse_opt opt a = (case opt of (c, optarg) \<Rightarrow>
     if c = CHR ''f'' then Some (Inr (a\<lparr>fwfile := optarg\<rparr>))
     else if c = CHR ''k'' then Some (Inr (a\<lparr>kernelfile := optarg\<rparr>))
     else if c = CHR ''i'' then Some (Inr (a\<lparr>initrdfile := optarg\<rparr>))
     else if c = CHR ''m'' then do { s \<leftarrow> optarg; Some (Inr (a\<lparr>arg_mem_size := word_of_int (atol s)\<rparr>)) }
     else if c = CHR ''c'' then do { s \<leftarrow> optarg; Some (Inr (a\<lparr>arg_hart_count := word_of_int (atol s)\<rparr>)) }
     else if c = CHR ''d'' then Some (Inr (a\<lparr>dtbfile := optarg\<rparr>))
     else if c = CHR ''s'' then Some (Inr (a\<lparr>signaturefile := optarg, arg_sig_mode := True\<rparr>))
     else if c = CHR ''e'' then Some (Inr (a\<lparr>dump_mem_atexit := True\<rparr>))
     else if c = CHR ''p'' then Some (Inr (a\<lparr>skip_pty := True\<rparr>))
     else if c = CHR ''h'' then Some (Inl 0)
     else Some (Inl 1))"

fun parse_opts :: "(char \<times> string option) list \<Rightarrow> Args \<Rightarrow> (int + Args) option" where
  "parse_opts [] a =
     Some (if fwfile a = None \<and> kernelfile a = None then Inl (- 1) else Inr a)"
| "parse_opts (x # xs) a = do {
     r \<leftarrow> parse_opt x a;
     case r of Inl e \<Rightarrow> Some (Inl e) | Inr a' \<Rightarrow> parse_opts xs a' }"

subsection \<open>From the arguments to a machine\<close>

text \<open>The globals before \<open>main\<close> runs, with the values the options have given them.\<close>

definition machine_globals :: "Args \<Rightarrow> bool \<Rightarrow> u64 \<Rightarrow> Machine" where
  "machine_globals a fallback now = \<lparr>mach_mem_size = arg_mem_size a, mach_hart_count = arg_hart_count a,
     hartlist = [], main_mem = (\<lambda>_. 0), reservations = [], dtb_buf = (\<lambda>_. 0),
     aclint = \<lparr>time_start = 0, mtimer_regs = [], mswi_regs = []\<rparr>,
     plic = \<lparr>int_prio_regs = [], int_pend_regs = [], int_en_regs = [], int_prio_thres = [],
       int_handling = [], highest_source = 0\<rparr>,
     uart = uart_globals, virtio = virtio_globals, pty = \<lparr>dbg_fallback = fallback, pty_out = []\<rparr>,
     system_now = now, sig_mode = arg_sig_mode a, begin_signature = 0, end_signature = 0,
     hart_start = False, interrupted = False\<rparr>"

text \<open>\<open>dbg_fallback\<close> after \<open>pty_init\<close>: the option asks for it, or \<open>openpty\<close> has failed.\<close>

definition pty_init :: "bool \<Rightarrow> bool \<Rightarrow> bool" where
  "pty_init skip openpty_ok = (if skip then True else if openpty_ok then False else True)"

definition init_harts :: "Machine \<Rightarrow> Machine" where
  "init_harts m = m\<lparr>hartlist := map (\<lambda>i. hart_init (mach_mem_size m) (of_nat i)) [0..<unat (mach_hart_count m)]\<rparr>"

text \<open>
  The files: what opening a firmware or kernel file gives, and the contents of the device
  tree and the initial RAM disk, \<^term>\<open>None\<close> when \<open>fopen\<close> fails.
\<close>

record Files =
  image_of :: "string option \<Rightarrow> Image"
  contents_of :: "string \<Rightarrow> u8 list option"

definition load_image :: "Files \<Rightarrow> string option \<Rightarrow> u64 \<Rightarrow> int \<Rightarrow> Machine \<Rightarrow> (int + Machine) option" where
  "load_image fs name mem_offset err m =
    (if fd_num (image_of fs name) = 0 then Some (Inl err)
     else do { (_, m') \<leftarrow> load_elf (image_of fs name) mem_offset m; Some (Inr m') })"

definition load_images :: "Files \<Rightarrow> Args \<Rightarrow> Machine \<Rightarrow> (int + Machine) option" where
  "load_images fs a m =
    (if fwfile a = None \<or> fwfile a = Some ''none'' then load_image fs (kernelfile a) 0 2 m
     else do {
       r \<leftarrow> load_image fs (fwfile a) 0 1 m;
       case r of
         Inl e \<Rightarrow> Some (Inl e)
       | Inr m1 \<Rightarrow> load_image fs (kernelfile a) 0x200000 2 m1 })"

text \<open>\<open>fread(dtb_buf,1,MAX_DTB_SIZE,df)\<close>\<close>

definition load_dtb :: "Files \<Rightarrow> Args \<Rightarrow> Machine \<Rightarrow> int + Machine" where
  "load_dtb fs a m = (case dtbfile a of
       None \<Rightarrow> Inr m
     | Some name \<Rightarrow> (case contents_of fs name of
         None \<Rightarrow> Inl 3
       | Some bs \<Rightarrow> Inr (m\<lparr>dtb_buf := \<lambda>i. if i < length bs \<and> i < MAX_DTB_SIZE then bs ! i else dtb_buf m i\<rparr>)))"

text \<open>\<open>fread(main_mem+0x820'0000,1,0x800'0000,initf)\<close>\<close>

definition load_initrd :: "Files \<Rightarrow> Args \<Rightarrow> Machine \<Rightarrow> (int + Machine) option" where
  "load_initrd fs a m = (case initrdfile a of
       None \<Rightarrow> Some (Inr m)
     | Some name \<Rightarrow> (case contents_of fs name of
         None \<Rightarrow> Some (Inl 4)
       | Some bs \<Rightarrow> do { m' \<leftarrow> main_mem_put 0x8200000 (take 0x8000000 bs) m; Some (Inr m') }))"

definition start_machine :: "Machine \<Rightarrow> Machine" where
  "start_machine m = (aclint_mtimer_reset (m\<lparr>hart_start := False\<rparr>))\<lparr>hart_start := True\<rparr>"

text \<open>
  \<open>main\<close> from the parsed options to the main loop.  The arguments are the state of the outside
  world: the files, whether \<open>openpty\<close> succeeds, the clock and the uninitialised arrays.
\<close>

definition boot :: "Files \<Rightarrow> bool \<Rightarrow> u64 \<Rightarrow> (nat \<Rightarrow> u32) \<Rightarrow> (nat \<Rightarrow> u32) \<Rightarrow> Args \<Rightarrow> (int + Machine) option" where
  "boot fs openpty_ok now mswi_junk plic_junk a = do {
     let m0 = hw_init mswi_junk plic_junk
                (init_harts (machine_globals a (pty_init (skip_pty a) openpty_ok) now));
     r1 \<leftarrow> load_images fs a m0;
     case r1 of Inl e \<Rightarrow> Some (Inl e) | Inr m1 \<Rightarrow>
       (case load_dtb fs a m1 of Inl e \<Rightarrow> Some (Inl e) | Inr m2 \<Rightarrow> do {
          r3 \<leftarrow> load_initrd fs a m2;
          Some (case r3 of Inl e \<Rightarrow> Inl e | Inr m3 \<Rightarrow> Inr (start_machine m3)) })
   }"

subsection \<open>The running program\<close>

datatype main_pc = TestInterrupted | HartUpdate nat | HwUpdate | Joining | Finished

text \<open>
  Besides the machine and the threads: the options, whether the signature file can be opened, and
  the contents of the files written on the way out.
\<close>

record Sys =
  mach :: Machine
  running :: "bool list"
  main_at :: main_pc
  options :: Args
  sig_opens :: bool
  sig_file :: "string option"
  mem_file :: "u8 list option"

definition sys_start :: "Args \<Rightarrow> bool \<Rightarrow> Machine \<Rightarrow> Sys" where
  "sys_start a so m = \<lparr>mach = m, running = replicate (unat (mach_hart_count m)) True,
     main_at = TestInterrupted, options = a, sig_opens = so, sig_file = None, mem_file = None\<rparr>"

text \<open>One iteration of \<open>while (cycle(hs) && !interrupted)\<close>, with what follows when the loop ends.\<close>

definition hart_loop_step :: "nat \<Rightarrow> Sys \<Rightarrow> Sys option" where
  "hart_loop_step h s = do {
     (go, m') \<leftarrow> cycle h (mach s);
     Some (if go \<and> \<not> interrupted m' then s\<lparr>mach := m'\<rparr>
           else s\<lparr>mach := m'\<lparr>interrupted := True\<rparr>, running := (running s)[h := False]\<rparr>)
   }"

text \<open>After all threads have been joined; \<open>mem_dump\<close> is taken to be writable.\<close>

definition main_exit :: "Sys \<Rightarrow> Sys option" where
  "main_exit s = do {
     sf \<leftarrow> (if sig_mode (mach s) \<and> sig_opens s then map_option Some (dump_signature (mach s)) else Some None);
     Some (s\<lparr>sig_file := sf,
             mem_file := (if dump_mem_atexit (options s) then Some (dump_mem (mach s)) else None),
             mach := hw_uninit (mach s), main_at := Finished\<rparr>) }"

text \<open>
  The main loop; \<open>ch\<close> is the next result of \<open>pty_getc\<close>.  Its \<open>sleep_for\<close> is not modelled.
  The counter of the inner loop is a \<open>size_t\<close>.
\<close>

fun main_step :: "u8 \<Rightarrow> Sys \<Rightarrow> Sys option" where
  "main_step ch s = (case main_at s of
       TestInterrupted \<Rightarrow>
         Some (s\<lparr>main_at := (if interrupted (mach s) then Joining else HartUpdate 0)\<rparr>)
     | HartUpdate i \<Rightarrow>
         if i < unat (mach_hart_count (mach s)) then do {
           m1 \<leftarrow> hw_perhart_update i (mach s);
           m2 \<leftarrow> at_hartlist i (\<lambda>hs. hs\<lparr>chk_int := True\<rparr>) m1;
           Some (s\<lparr>mach := m2, main_at := HartUpdate (Suc i)\<rparr>) }
         else Some (s\<lparr>main_at := HwUpdate\<rparr>)
     | HwUpdate \<Rightarrow> do {
         m1 \<leftarrow> hw_update ch (mach s);
         Some (s\<lparr>mach := m1, main_at := TestInterrupted\<rparr>) }
     | Joining \<Rightarrow> if True \<in> set (running s) then Some s else main_exit s
     | Finished \<Rightarrow> Some s)"

definition sigint_handler :: "Machine \<Rightarrow> Machine" where
  "sigint_handler m = m\<lparr>interrupted := True\<rparr>"

datatype event = E_hart nat | E_main u8 | E_uart | E_tick u64 | E_sigint

text \<open>Which thread moves is not determined.\<close>

inductive sys_step :: "event \<Rightarrow> Sys \<Rightarrow> Sys \<Rightarrow> bool" where
  hart_moves: "hart_start (mach s) \<Longrightarrow> h < length (running s) \<Longrightarrow> running s ! h \<Longrightarrow>
     hart_loop_step h s = Some s' \<Longrightarrow> sys_step (E_hart h) s s'"
| main_moves: "main_step ch s = Some s' \<Longrightarrow> sys_step (E_main ch) s s'"
| uart_moves: "tx_required (uart (mach s)) \<Longrightarrow> \<not> uart_end (uart (mach s)) \<Longrightarrow>
     uart_tx (mach s) = Some m' \<Longrightarrow> sys_step E_uart s (s\<lparr>mach := m'\<rparr>)"
| clock_ticks: "system_now (mach s) \<le> t \<Longrightarrow> sys_step (E_tick t) s (s\<lparr>mach := (mach s)\<lparr>system_now := t\<rparr>\<rparr>)"
| interrupt_key: "sys_step E_sigint s (s\<lparr>mach := sigint_handler (mach s)\<rparr>)"

inductive_cases hart_stepE: "sys_step (E_hart h) s s'"
inductive_cases main_stepE: "sys_step (E_main ch) s s'"
inductive_cases uart_stepE: "sys_step E_uart s s'"
inductive_cases tick_stepE: "sys_step (E_tick t) s s'"
inductive_cases sigint_stepE: "sys_step E_sigint s s'"

inductive sys_run :: "Sys \<Rightarrow> event list \<Rightarrow> Sys \<Rightarrow> bool" where
  run_nil: "sys_run s [] s"
| run_snoc: "sys_run s es t \<Longrightarrow> sys_step e t u \<Longrightarrow> sys_run s (es @ [e]) u"

subsection \<open>Polling keeps the invariant\<close>

lemma hart_fields_cong:
  "hartlist m' = hartlist m \<Longrightarrow> mach_hart_count m' = mach_hart_count m \<Longrightarrow> aclint m' = aclint m \<Longrightarrow>
   plic m' = plic m \<Longrightarrow> uart_good (uart m') = uart_good (uart m) \<Longrightarrow> virtio_good m' = virtio_good m \<Longrightarrow>
   reservations m' = reservations m \<Longrightarrow> machine_good m' = machine_good m"
  by (simp add: machine_good_def aclint_good_def uart_dev_good_def plic_good_def PLIC_CTX_COUNT_def hart_def)

lemma hw_perhart_update_good:
  assumes g: "machine_good m" and u: "hw_perhart_update h m = Some m'"
  shows "machine_good m' \<and> device_frame m m'"
proof -
  obtain m1 where a: "aclint_mtimer_chk h m = Some m1" and b: "aclint_mswi_chk h m1 = Some m'"
    using u by (auto simp: hw_perhart_update_def)
  have f: "device_frame m m'"
    using aclint_mtimer_chk_frame[OF a] aclint_mswi_chk_frame[OF b] device_frame_trans by blast
  have "aclint m' = aclint m" "plic m' = plic m" "uart m' = uart m" "virtio m' = virtio m"
    using a b by (auto simp: aclint_mtimer_chk_def aclint_mswi_chk_def)
  then show ?thesis
    using machine_good_step[OF f g] machine_goodD(2)[OF g] f by (simp add: uart_dev_good_def)
qed

lemma uart_frame_machine_good:
  assumes g: "machine_good m" and f: "uart_frame m m'" and u: "uart_good (uart m')"
  shows "machine_good m'"
  using machine_good_step[OF uart_frame_device[OF f] g _ _ u] machine_goodD(3)[OF g] f
  by (simp add: uart_frame_def)

lemma hw_update_good:
  assumes g: "machine_good m" and u: "hw_update ch m = Some m'"
  shows "machine_good m' \<and> device_frame m m'"
proof -
  obtain m1 where a: "uart_chk ch m = Some m1" and b: "plic_chk m1 = Some m'"
    using u by (auto simp: hw_update_def)
  have gu: "uart_good (uart m)" using machine_goodD(2)[OF g] by (simp add: uart_dev_good_def)
  note e = uart_chk_effect[OF gu a]
  have f1: "uart_frame m m'"
    using e uart_frame_plic[OF plic_chk_frame[OF b]] uart_frame_trans by blast
  have "uart m' = uart m1" using plic_chk_frame[OF b] by (simp add: plic_frame_def)
  then show ?thesis using uart_frame_machine_good[OF g f1] e uart_frame_device[OF f1] by simp
qed

lemma hw_uninit_good: "machine_good m \<Longrightarrow> machine_good (hw_uninit m)"
  by (subst hart_fields_cong[of _ m])
    (simp_all add: hw_uninit_def uart_uninit_def virtio_mmio_blk_uninit_def upd_uart_def upd_virtio_def
      uart_good_def virtio_good_def)

lemma uart_tx_good: "machine_good m \<Longrightarrow> uart_tx m = Some m' \<Longrightarrow> machine_good m' \<and> device_frame m m'"
  using uart_tx_effect[of m m'] uart_frame_machine_good uart_frame_device machine_goodD(2)
  by (auto simp: uart_dev_good_def)

subsection \<open>The invariant of the running program\<close>

text \<open>
  A hart thread has ended only if the program has been interrupted, the main loop is left only
  then, and the machine is torn down only when every hart thread has ended.
\<close>

definition sys_inv :: "Sys \<Rightarrow> bool" where
  "sys_inv s \<longleftrightarrow> machine_good (mach s) \<and> res_exclusive (reservations (mach s)) \<and> length (running s) = length (hartlist (mach s))
     \<and> (False \<in> set (running s) \<longrightarrow> interrupted (mach s))
     \<and> (main_at s = Joining \<or> main_at s = Finished \<longrightarrow> interrupted (mach s))
     \<and> (main_at s = Finished \<longrightarrow> True \<notin> set (running s))"

lemma set_list_update_False: "True \<notin> set xs \<Longrightarrow> True \<notin> set (xs[h := False])"
  using set_update_subset_insert[of xs h False] by auto

lemma exec_frame_interrupted: "exec_step h m m' \<Longrightarrow> interrupted m' = interrupted m"
  by (simp add: exec_step_def exec_frame_def)

lemma exec_frame_exclusive:
  "exec_step h m m' \<Longrightarrow> res_exclusive (reservations m) \<Longrightarrow> res_exclusive (reservations m')"
  by (simp add: exec_step_def exec_frame_def)

lemma main_exit_effect:
  assumes "main_exit s = Some s'"
  shows "mach s' = hw_uninit (mach s)" "running s' = running s" "main_at s' = Finished"
  using assms by (auto simp: main_exit_def split: if_splits)

lemma machine_good_flags [simp]:
  "machine_good (m\<lparr>interrupted := b\<rparr>) = machine_good m" "machine_good (m\<lparr>hart_start := b\<rparr>) = machine_good m"
  "machine_good (m\<lparr>system_now := t\<rparr>) = machine_good m"
  by (rule hart_fields_cong; simp add: virtio_good_def)+

lemma hart_loop_step_inv:
  assumes i: "sys_inv s" and h: "h < length (running s)" and st: "hart_loop_step h s = Some s'"
  shows "sys_inv s'"
proof -
  obtain go m' where c: "cycle h (mach s) = Some (go, m')"
    and s': "s' = (if go \<and> \<not> interrupted m' then s\<lparr>mach := m'\<rparr>
      else s\<lparr>mach := m'\<lparr>interrupted := True\<rparr>, running := (running s)[h := False]\<rparr>)"
    using st by (auto simp: hart_loop_step_def)
  have e: "exec_step h (mach s) m'" using cycle_step[OF _ _ c] i h by (simp add: sys_inv_def)
  show ?thesis
    using i exec_step_good[OF e] exec_step_length[OF e] exec_frame_interrupted[OF e] exec_frame_exclusive[OF e]
    by (auto simp: s' sys_inv_def set_list_update_False)
qed

lemma main_step_inv:
  assumes i: "sys_inv s" and st: "main_step ch s = Some s'"
  shows "sys_inv s'"
proof (cases "main_at s")
  case (HartUpdate k)
  show ?thesis
  proof (cases "k < unat (mach_hart_count (mach s))")
    case True
    obtain m1 where u: "hw_perhart_update k (mach s) = Some m1" and k: "k < length (hartlist m1)"
      and s': "s' = s\<lparr>mach := upd_hart k (\<lambda>hs. hs\<lparr>chk_int := True\<rparr>) m1, main_at := HartUpdate (Suc k)\<rparr>"
      using st HartUpdate True by auto
    have g: "machine_good (mach s)" using i by (simp add: sys_inv_def)
    note e = hw_perhart_update_good[OF g u]
    have "machine_good (upd_hart k (\<lambda>hs. hs\<lparr>chk_int := True\<rparr>) m1)"
      by (rule machine_good_keeps[OF e[THEN conjunct1]]) (rule keeps)
    moreover have "interrupted m1 = interrupted (mach s)" "length (hartlist m1) = length (hartlist (mach s))"
      "reservations m1 = reservations (mach s)"
      using e device_frame_length by (auto simp: device_frame_def)
    ultimately show ?thesis using i s' by (simp add: sys_inv_def)
  next
    case False
    then show ?thesis using i st HartUpdate by (auto simp: sys_inv_def)
  qed
next
  case HwUpdate
  then obtain m1 where u: "hw_update ch (mach s) = Some m1"
    and s': "s' = s\<lparr>mach := m1, main_at := TestInterrupted\<rparr>"
    using st by auto
  have g: "machine_good (mach s)" using i by (simp add: sys_inv_def)
  note e = hw_update_good[OF g u]
  have "interrupted m1 = interrupted (mach s)" "length (hartlist m1) = length (hartlist (mach s))"
    "reservations m1 = reservations (mach s)"
    using e device_frame_length by (auto simp: device_frame_def)
  then show ?thesis using i e s' by (simp add: sys_inv_def)
next
  case Joining
  show ?thesis
  proof (cases "True \<in> set (running s)")
    case True
    then show ?thesis using i st Joining by simp
  next
    case False
    then have e: "main_exit s = Some s'" using st Joining by simp
    have u: "hartlist (hw_uninit (mach s)) = hartlist (mach s)" "interrupted (hw_uninit (mach s)) = interrupted (mach s)"
      "reservations (hw_uninit (mach s)) = reservations (mach s)"
      by (simp_all add: hw_uninit_def uart_uninit_def virtio_mmio_blk_uninit_def upd_uart_def upd_virtio_def)
    show ?thesis
      using i False Joining hw_uninit_good main_exit_effect[OF e] by (simp add: sys_inv_def u)
  qed
qed (use i st in \<open>auto simp: sys_inv_def split: if_splits\<close>)

lemma sys_step_inv: "sys_step e s s' \<Longrightarrow> sys_inv s \<Longrightarrow> sys_inv s'"
proof (induction rule: sys_step.induct)
  case (hart_moves s h s')
  then show ?case using hart_loop_step_inv by blast
next
  case (main_moves ch s s')
  then show ?case using main_step_inv by blast
next
  case (uart_moves s m')
  then show ?case
    using uart_tx_good[of "mach s" m'] device_frame_length[of "mach s" m']
    by (auto simp: sys_inv_def device_frame_def)
qed (auto simp: sys_inv_def sigint_handler_def)

lemma sys_run_inv: "sys_run s es s' \<Longrightarrow> sys_inv s \<Longrightarrow> sys_inv s'"
  by (induction rule: sys_run.induct) (auto intro: sys_step_inv)

subsection \<open>Shutting down\<close>

definition running_harts :: "Sys \<Rightarrow> nat" where
  "running_harts s = length (filter id (running s))"

fun is_hart_event :: "event \<Rightarrow> bool" where
  "is_hart_event (E_hart h) = True"
| "is_hart_event _ = False"

lemma stop_hart: "h < length xs \<Longrightarrow> xs ! h \<Longrightarrow> Suc (length (filter id (xs[h := False]))) = length (filter id xs)"
proof (induction xs arbitrary: h)
  case (Cons x xs)
  then show ?case by (cases h) auto
qed simp

lemma main_step_flags:
  assumes i: "sys_inv s" and st: "main_step ch s = Some s'"
  shows "interrupted (mach s') = interrupted (mach s) \<and> running s' = running s"
proof -
  have g: "machine_good (mach s)" using i by (simp add: sys_inv_def)
  have d: "interrupted m1 = interrupted (mach s)" if "machine_good m1 \<and> device_frame (mach s) m1" for m1
    using that by (simp add: device_frame_def)
  show ?thesis
  proof (cases "main_at s")
    case (HartUpdate k)
    show ?thesis
    proof (cases "k < unat (mach_hart_count (mach s))")
      case True
      then obtain m1 where u: "hw_perhart_update k (mach s) = Some m1"
        and s': "s' = s\<lparr>mach := upd_hart k (\<lambda>hs. hs\<lparr>chk_int := True\<rparr>) m1, main_at := HartUpdate (Suc k)\<rparr>"
        using st HartUpdate by auto
      show ?thesis using d[OF hw_perhart_update_good[OF g u]] unfolding s' by simp
    qed (use st HartUpdate in auto)
  next
    case HwUpdate
    then obtain m1 where u: "hw_update ch (mach s) = Some m1"
      and s': "s' = s\<lparr>mach := m1, main_at := TestInterrupted\<rparr>"
      using st by auto
    show ?thesis using d[OF hw_update_good[OF g u]] unfolding s' by simp
  next
    case Joining
    then consider "s' = s" | "main_exit s = Some s'" using st by (cases "True \<in> set (running s)") simp_all
    then show ?thesis
    proof cases
      case 2
      note e = main_exit_effect[OF 2]
      have "interrupted (hw_uninit (mach s)) = interrupted (mach s)"
        by (simp add: hw_uninit_def uart_uninit_def virtio_mmio_blk_uninit_def upd_uart_def upd_virtio_def)
      then show ?thesis unfolding e by simp
    qed simp
  next
    case TestInterrupted
    then have "s' = s\<lparr>main_at := (if interrupted (mach s) then Joining else HartUpdate 0)\<rparr>" using st by simp
    then show ?thesis by simp
  next
    case Finished
    then show ?thesis using st by simp
  qed
qed

text \<open>After an interrupt no step resets the flag, and every step of a hart ends its thread.\<close>

lemma interrupted_step:
  assumes "sys_step e s s'" "sys_inv s" "interrupted (mach s)"
  shows "interrupted (mach s') \<and> running_harts s' + (if is_hart_event e then 1 else 0) = running_harts s"
  using assms
proof (induction rule: sys_step.induct)
  case (hart_moves s h s')
  obtain go m' where c: "cycle h (mach s) = Some (go, m')"
    and s': "s' = (if go \<and> \<not> interrupted m' then s\<lparr>mach := m'\<rparr>
      else s\<lparr>mach := m'\<lparr>interrupted := True\<rparr>, running := (running s)[h := False]\<rparr>)"
    using hart_moves(4) by (auto simp: hart_loop_step_def)
  have "interrupted m'"
    using exec_frame_interrupted[OF cycle_step[OF _ _ c]] hart_moves by (simp add: sys_inv_def)
  then show ?case
    using s' stop_hart[OF hart_moves(2,3)] by (simp add: running_harts_def)
next
  case (main_moves ch s s')
  have "interrupted (mach s') = interrupted (mach s) \<and> running s' = running s"
    using main_moves by (intro main_step_flags)
  then show ?case using main_moves by (simp only: running_harts_def is_hart_event.simps if_False add_0_right)
next
  case (uart_moves s m')
  then show ?case
    using uart_tx_good[of "mach s" m'] by (auto simp: sys_inv_def device_frame_def running_harts_def)
qed (auto simp: sigint_handler_def running_harts_def)

lemma interrupted_run:
  "sys_run s es s' \<Longrightarrow> sys_inv s \<Longrightarrow> interrupted (mach s) \<Longrightarrow>
   interrupted (mach s') \<and> running_harts s' + length (filter is_hart_event es) = running_harts s"
proof (induction rule: sys_run.induct)
  case (run_snoc s es t e u)
  have "sys_inv t" using sys_run_inv[OF run_snoc(1)] run_snoc(4) .
  then show ?case using interrupted_step[OF run_snoc(2)] run_snoc(3)[OF run_snoc(4,5)] by auto
qed simp

subsection \<open>A booted machine is in order\<close>

lemma load_core_fields:
  "hartlist (load_core m) = hartlist m" "mach_hart_count (load_core m) = mach_hart_count m"
  "mach_mem_size (load_core m) = mach_mem_size m" "aclint (load_core m) = aclint m"
  "plic (load_core m) = plic m" "uart (load_core m) = uart m" "virtio (load_core m) = virtio m"
  "reservations (load_core m) = reservations m" "interrupted (load_core m) = interrupted m"
  "sig_mode (load_core m) = sig_mode m" "dtb_buf (load_core m) = dtb_buf m"
  by (simp_all add: load_core_def)

lemma load_frame_fields:
  assumes "load_frame m m'"
  shows "hartlist m' = hartlist m" "mach_hart_count m' = mach_hart_count m"
    "mach_mem_size m' = mach_mem_size m" "aclint m' = aclint m" "plic m' = plic m" "uart m' = uart m"
    "virtio m' = virtio m" "reservations m' = reservations m" "interrupted m' = interrupted m"
    "sig_mode m' = sig_mode m" "dtb_buf m' = dtb_buf m"
  using assms unfolding load_frame_def by (metis load_core_fields)+

text \<open>What the steps of \<open>boot\<close> after \<open>hw_init\<close> leave alone.\<close>

definition boot_frame :: "Machine \<Rightarrow> Machine \<Rightarrow> bool" where
  "boot_frame m m' \<longleftrightarrow> hartlist m' = hartlist m \<and> mach_hart_count m' = mach_hart_count m
     \<and> mach_mem_size m' = mach_mem_size m
     \<and> mtimer_regs (aclint m') = mtimer_regs (aclint m) \<and> mswi_regs (aclint m') = mswi_regs (aclint m)
     \<and> plic m' = plic m \<and> uart m' = uart m \<and> virtio m' = virtio m \<and> reservations m' = reservations m
     \<and> interrupted m' = interrupted m \<and> sig_mode m' = sig_mode m"

lemma boot_frame_trans: "boot_frame a b \<Longrightarrow> boot_frame b c \<Longrightarrow> boot_frame a c"
  by (simp add: boot_frame_def)

lemma load_frame_boot: "load_frame m m' \<Longrightarrow> boot_frame m m'"
  by (simp add: boot_frame_def load_frame_fields)

lemma boot_frame_good: "boot_frame m m' \<Longrightarrow> machine_good m \<Longrightarrow> machine_good m'"
  by (simp add: boot_frame_def machine_good_def aclint_good_def uart_dev_good_def plic_good_def
      PLIC_CTX_COUNT_def virtio_good_def hart_def)

lemma load_image_frame: "load_image fs name mo e m = Some (Inr m') \<Longrightarrow> boot_frame m m'"
  by (auto simp: load_image_def split: if_splits dest: load_elf_frame intro: load_frame_boot)

lemma load_images_frame: "load_images fs a m = Some (Inr m') \<Longrightarrow> boot_frame m m'"
proof (cases "fwfile a = None \<or> fwfile a = Some ''none''")
  case True
  then show "load_images fs a m = Some (Inr m') \<Longrightarrow> boot_frame m m'"
    unfolding load_images_def by (simp only: if_True) (rule load_image_frame)
next
  case False
  assume l: "load_images fs a m = Some (Inr m')"
  obtain r where r: "load_image fs (fwfile a) 0 1 m = Some r"
    and k: "(case r of Inl e \<Rightarrow> Some (Inl e) | Inr m1 \<Rightarrow> load_image fs (kernelfile a) 0x200000 2 m1) = Some (Inr m')"
    using l False unfolding load_images_def by (simp only: if_False bind_eq_Some_iff) blast
  then obtain m1 where "r = Inr m1" by (cases r) auto
  then show ?thesis using r k load_image_frame boot_frame_trans by fastforce
qed

lemma load_dtb_frame: "load_dtb fs a m = Inr m' \<Longrightarrow> boot_frame m m'"
  by (auto simp: load_dtb_def boot_frame_def split: option.splits)

lemma load_initrd_frame: "load_initrd fs a m = Some (Inr m') \<Longrightarrow> boot_frame m m'"
  by (auto simp: load_initrd_def boot_frame_def main_mem_put_def split: option.splits)

lemma start_machine_frame: "boot_frame m (start_machine m)"
  by (simp add: start_machine_def aclint_mtimer_reset_def boot_frame_def)

definition boot_hardware :: "Args \<Rightarrow> bool \<Rightarrow> u64 \<Rightarrow> (nat \<Rightarrow> u32) \<Rightarrow> (nat \<Rightarrow> u32) \<Rightarrow> Machine" where
  "boot_hardware a ok now jm jp =
     hw_init jm jp (init_harts (machine_globals a (pty_init (skip_pty a) ok) now))"

lemma boot_from_hardware:
  assumes "boot fs ok now jm jp a = Some (Inr m)"
  shows "boot_frame (boot_hardware a ok now jm jp) m \<and> hart_start m"
proof -
  obtain r1 where r1: "load_images fs a (boot_hardware a ok now jm jp) = Some r1"
    and k1: "(case r1 of Inl e \<Rightarrow> Some (Inl e) | Inr m1 \<Rightarrow>
       (case load_dtb fs a m1 of Inl e \<Rightarrow> Some (Inl e) | Inr m2 \<Rightarrow> do {
          r3 \<leftarrow> load_initrd fs a m2;
          Some (case r3 of Inl e \<Rightarrow> Inl e | Inr m3 \<Rightarrow> Inr (start_machine m3)) })) = Some (Inr m)"
    using assms unfolding boot_def Let_def boot_hardware_def by auto
  obtain m1 where m1: "r1 = Inr m1" using k1 by (cases r1) auto
  obtain m2 where m2: "load_dtb fs a m1 = Inr m2" using k1 m1 by (cases "load_dtb fs a m1") auto
  obtain m3 where m3: "load_initrd fs a m2 = Some (Inr m3)" and m: "m = start_machine m3"
  proof -
    obtain r3 where "load_initrd fs a m2 = Some r3" "(case r3 of Inl e \<Rightarrow> Inl e | Inr m3 \<Rightarrow> Inr (start_machine m3)) = Inr m"
      using k1 m1 m2 by auto
    then show thesis using that by (cases r3) auto
  qed
  have "boot_frame (boot_hardware a ok now jm jp) m3"
    using load_images_frame load_dtb_frame[OF m2] load_initrd_frame[OF m3] r1 m1 boot_frame_trans by blast
  then show ?thesis
    using start_machine_frame boot_frame_trans by (auto simp: m start_machine_def)
qed

lemma boot_hardware_harts:
  "hartlist (boot_hardware a ok now jm jp) =
     map (\<lambda>i. hart_init (arg_mem_size a) (of_nat i)) [0..<unat (arg_hart_count a)]"
  "mach_hart_count (boot_hardware a ok now jm jp) = arg_hart_count a"
  "mach_mem_size (boot_hardware a ok now jm jp) = arg_mem_size a"
  "interrupted (boot_hardware a ok now jm jp) = False"
  "sig_mode (boot_hardware a ok now jm jp) = arg_sig_mode a"
  by (simp_all add: boot_hardware_def hw_init_def virtio_mmio_blk_init_def upd_virtio_def uart_init_def
      upd_uart_def plic_init_def aclint_mswi_init_def aclint_mtimer_init_def aclint_mtimer_reset_def
      mem_init_def init_harts_def machine_globals_def Let_def)

lemma boot_hardware_hart:
  "h < unat (arg_hart_count a) \<Longrightarrow> hart h (boot_hardware a ok now jm jp) = hart_init (arg_mem_size a) (of_nat h)"
  by (simp add: hart_def boot_hardware_harts)

lemma boot_hardware_devices:
  "reservations (boot_hardware a ok now jm jp) = replicate (unat (arg_hart_count a)) 0"
  "uart (boot_hardware a ok now jm jp) = uart (uart_init (machine_globals a True now))"
  "virtio (boot_hardware a ok now jm jp) = virtio (virtio_mmio_blk_init (machine_globals a True now))"
  "aclint (boot_hardware a ok now jm jp) = \<lparr>time_start = now,
     mtimer_regs = replicate (unat (arg_hart_count a)) 0xffffffffffffffff,
     mswi_regs = map jm [0..<unat (arg_hart_count a)]\<rparr>"
  "plic (boot_hardware a ok now jm jp) = plic (plic_init jp (machine_globals a True now))"
  by (simp_all add: boot_hardware_def hw_init_def virtio_mmio_blk_init_def upd_virtio_def uart_init_def
      upd_uart_def plic_init_def aclint_mswi_init_def aclint_mtimer_init_def aclint_mtimer_reset_def
      mem_init_def init_harts_def machine_globals_def Let_def readtime_def PLIC_CTX_COUNT_def)

lemma boot_hardware_good: "machine_good (boot_hardware a ok now jm jp)"
proof -
  let ?m = "boot_hardware a ok now jm jp"
  have l: "length (hartlist ?m) = unat (arg_hart_count a)" by (simp add: boot_hardware_harts)
  have "unat (arg_hart_count a) < 2 ^ 16" by (rule order_less_le_trans[OF unsigned_less]) simp
  then have id: "unat (of_nat h :: u16) = h" if "h < unat (arg_hart_count a)" for h
    using that by (simp add: unat_of_nat)
  have "aclint_good ?m"
    by (simp add: aclint_good_def l boot_hardware_devices boot_hardware_hart id)
  moreover have "uart_good (uart ?m)"
    by (simp add: boot_hardware_devices uart_init_def machine_globals_def)
      (simp add: uart_good_def uart_globals_def)
  moreover have "plic_good ?m"
    by (simp add: plic_good_def l boot_hardware_devices boot_hardware_harts PLIC_CTX_COUNT_def plic_init_def
        machine_globals_def)
  moreover have "virtio_good ?m"
    by (simp add: virtio_good_def boot_hardware_devices virtio_mmio_blk_init_def upd_virtio_def
        machine_globals_def virtio_globals_def virtio_dev_cfg_def virtqueue_def)
  moreover have "hart_good (hart h ?m)" if "h < unat (arg_hart_count a)" for h
    using that by (simp add: boot_hardware_hart hart_good_def u8_le_3)
  ultimately show ?thesis by (simp add: machine_good_def uart_dev_good_def l boot_hardware_devices(1))
qed

lemma boot_good:
  assumes b: "boot fs ok now jm jp a = Some (Inr m)"
  shows "machine_good m" and "sys_inv (sys_start a' so m)"
    and "\<And>h. h < unat (arg_hart_count a) \<Longrightarrow> hart h m = hart_init (arg_mem_size a) (of_nat h)"
    and "length (hartlist m) = unat (arg_hart_count a)" and "\<not> interrupted m" and "hart_start m"
proof -
  note f = boot_from_hardware[OF b]
  show g: "machine_good m" using f boot_frame_good boot_hardware_good by blast
  show "\<And>h. h < unat (arg_hart_count a) \<Longrightarrow> hart h m = hart_init (arg_mem_size a) (of_nat h)"
    using f boot_hardware_hart[of _ a ok now jm jp] by (simp add: boot_frame_def hart_def)
  show l: "length (hartlist m) = unat (arg_hart_count a)" and "\<not> interrupted m" and "hart_start m"
    using f by (simp_all add: boot_frame_def boot_hardware_harts)
  have "mach_hart_count m = arg_hart_count a" using f by (simp add: boot_frame_def boot_hardware_harts)
  moreover have "reservations m = replicate (unat (arg_hart_count a)) 0"
    using f by (simp add: boot_frame_def boot_hardware_devices)
  ultimately show "sys_inv (sys_start a' so m)" using g l by (simp add: sys_inv_def sys_start_def res_exclusive_def)
qed

end
