(* ===== verification/Boot.thy ===== *)
theory Boot
  imports System
begin

text \<open>
  The first instructions of a booted hart: the boot ROM of \<open>mem.h\<close> is fetched, decoded and
  executed, and control reaches the RAM in machine mode.
\<close>

text \<open>
  A specification device: \<open>n\<close> consecutive cycles of one hart, alone and uninterrupted.  The thread
  itself, with its test of \<open>interrupted\<close> and the other threads in between, is \<open>sys_step\<close>.
\<close>

fun hart_cycles :: "nat \<Rightarrow> nat \<Rightarrow> Machine \<Rightarrow> (bool \<times> Machine) option" where
  "hart_cycles 0 h m = Some (True, m)"
| "hart_cycles (Suc n) h m = do {
     (go, m') \<leftarrow> cycle h m;
     if go then hart_cycles n h m' else Some (False, m') }"

subsection \<open>Fetching from the ROM\<close>

text \<open>Machine mode, an empty instruction buffer, no status left over, no protection entry in force.\<close>

definition rom_ready :: "HartState \<Rightarrow> bool" where
  "rom_ready hs \<longleftrightarrow> privmode hs = 3 \<and> instbuf hs = 0 \<and> \<not> page_fault hs \<and> \<not> chk_int hs
     \<and> pmp_all_enabled hs = 0 \<and> pmp_expanded hs = (\<lambda>_. zero_ExpPMP)"

lemma unsynced_range: "\<forall>i. \<not> enable (pmp_expanded hs i) \<Longrightarrow> chk_pmp_range_exp_loop hs lo hi is = 0xFF"
  by (induction "is") simp_all

lemma rom_not_denied:
  assumes "rom_ready hs"
  shows "\<not> fetch_denied (set_mem_status False hs) (chk_pmp_range_exp (set_mem_status False hs) lo hi)"
proof -
  have "chk_pmp_range_exp (set_mem_status False hs) lo hi = 0xFF"
    using assms by (simp add: chk_pmp_range_exp_def rom_ready_def unsynced_range zero_ExpPMP_def)
  then show ?thesis using assms by (simp add: fetch_denied_def rom_ready_def)
qed

lemma rom_phy_fetch:
  assumes "0x1000 \<le> p" "p < 0x1000 + 12" "rom_load 4 p = Some x"
  shows "phy_mem_fetch 4 p m = Some (x, m)"
proof -
  have "p < 0x1100" "\<not> 0x80000000 \<le> p" using assms(2) by (simp_all add: word_less_nat_alt word_le_nat_alt)
  then show ?thesis
    using assms by (simp add: phy_mem_fetch_def mem_map_order mem_map_no_rom)
qed

lemma rom_fetch:
  assumes h: "h < length (hartlist m)" and r: "rom_ready (hart h m)" and p: "pc (hart h m) = p"
    and rng: "mem_in_range p m" "0x1000 \<le> p" "p < 0x1000 + 12"
    and x: "rom_load 4 p = Some x" and w: "w = ucast x" "w \<noteq> 0" "w \<noteq> 0xffffffff" "w AND 0b11 = 0b11" "w AND 0b11100 \<noteq> 0b11100"
  shows "fetch h m = Some (NOEXC, upd_hart h (\<lambda>s. s\<lparr>mem_status := False, inst := w, inst_len := 32\<rparr>) m)"
proof -
  define m0 where "m0 = upd_hart h (set_mem_status False) m"
  have hs: "hart h m0 = set_mem_status False (hart h m)" using h by (simp add: m0_def)
  have nd: "\<not> fetch_denied (hart h m0) (chk_pmp_range_exp (hart h m0) lo hi)" for lo hi
    unfolding hs by (rule rom_not_denied[OF r])
  have "mem_in_range p m0" using rng(1) by (simp add: mem_in_range_def m0_def)
  then have "mem_fetch h 4 p m0 = phy_mem_fetch 4 p (upd_hart h (set_mem_status False) m0)"
    using nd by (simp add: mem_fetch_def mem_fetch_T_def)
  then have f: "virt_mem_fetch h 4 p m0 = Some (x, m0)"
    using r rom_phy_fetch[OF rng(2,3) x]
    by (simp add: virt_mem_fetch_def hs rom_ready_def) (simp add: m0_def)
  have fw: "fetch_word h m = Some (upd_hart h (\<lambda>s. s\<lparr>mem_status := False, inst := w\<rparr>) m)"
    using r f p w(1) unfolding fetch_word_def m0_def[symmetric] Let_def hs
    by (simp add: rom_ready_def set_mem_status_def) (simp add: m0_def set_mem_status_def)
  show ?thesis
    using h r w unfolding fetch_def fw by (simp add: rom_ready_def on_hart_def fetch_split_def Let_def)
qed

subsection \<open>The three instructions\<close>

lemma rom_words:
  "rom_load 4 0x1000 = Some 0x00100413" "rom_load 4 0x1004 = Some 0x01f41413"
  "rom_load 4 0x1008 = Some 0x00040067"
  by (simp_all add: rom_load_def boot_rom_content_def)

lemma rom_decode:
  "decode32 0x00100413 = \<lparr>op_fun = OP_IMM, rd = 8, rs1 = 0, rs2 = 0, funct3 = 0, funct7 = 0,
     imm = 1, cebreak = False, dinst = 0x00100413\<rparr>"
  "decode32 0x01f41413 = \<lparr>op_fun = OP_IMM, rd = 8, rs1 = 8, rs2 = 0, funct3 = 1, funct7 = 0,
     imm = 31, cebreak = False, dinst = 0x01f41413\<rparr>"
  "decode32 0x00040067 = \<lparr>op_fun = JALR, rd = 0, rs1 = 8, rs2 = 0, funct3 = 0, funct7 = 0,
     imm = 0, cebreak = False, dinst = 0x00040067\<rparr>"
  by (simp_all add: decode32_def op32_of_def inst_op_32_enum_def reg5_def imm_i_def Let_def)

definition rom_fetched :: "u32 \<Rightarrow> HartState \<Rightarrow> HartState" where
  "rom_fetched w s = (set_reg 0 0 s)\<lparr>mem_status := False, inst := w, inst_len := 32\<rparr>"

lemma rom_cycle:
  assumes h: "h < length (hartlist m)" and r: "rom_ready (hart h m)" and p: "pc (hart h m) = p"
    and rng: "mem_in_range p m" "0x1000 \<le> p" "p < 0x1000 + 12"
    and x: "rom_load 4 p = Some x"
    and w: "w = ucast x" "w \<noteq> 0" "w \<noteq> 0xffffffff" "w AND 0b11 = 0b11" "w AND 0b11100 \<noteq> 0b11100" "w \<noteq> 0xbad33013"
  shows "cycle h m = do {
     (_, m2) \<leftarrow> exec_decoded h (decode32 w) (upd_hart h (rom_fetched w) m);
     Some (True, upd_hart h cycle_end m2) }"
proof -
  define m0 where "m0 = upd_hart h (set_reg 0 0) m"
  have hs: "hart h m0 = set_reg 0 0 (hart h m)" using h by (simp add: m0_def)
  have r0: "rom_ready (hart h m0)" using r unfolding hs by (simp add: rom_ready_def set_reg_def)
  have p0: "pc (hart h m0) = p" using p unfolding hs by (simp add: set_reg_def)
  have "h < length (hartlist m0)" "mem_in_range p m0" using h rng(1) by (simp_all add: m0_def mem_in_range_def)
  note f = rom_fetch[OF this(1) r0 p0 this(2) rng(2,3) x w(1-5)]
  have m1: "upd_hart h (\<lambda>s. s\<lparr>mem_status := False, inst := w, inst_len := 32\<rparr>) m0 = upd_hart h (rom_fetched w) m"
    by (simp add: m0_def rom_fetched_def[abs_def])
  have hm1: "hart h (upd_hart h (rom_fetched w) m) = rom_fetched w (hart h m)" using h by simp
  have d: "decode_exc h (upd_hart h (rom_fetched w) m) =
      exec_decoded h (decode32 w) (upd_hart h (rom_fetched w) m)"
    unfolding decode_exc_def hm1 Let_def by (simp add: rom_fetched_def)
  show ?thesis
    unfolding cycle_def m0_def[symmetric] f m1 using w(6) by (simp add: hm1 d) (simp add: rom_fetched_def)
qed

definition rom_op_imm :: "u32 \<Rightarrow> HartState \<Rightarrow> HartState" where
  "rom_op_imm w s = cycle_end (retire False (exec_op_imm (decode32 w)
     ((rom_fetched w s)\<lparr>inst := dinst (decode32 w)\<rparr>)))"

lemma rom_cycle_op_imm:
  assumes "h < length (hartlist m)" "op_fun (decode32 w) = OP_IMM"
    and "cycle h m = do {
     (_, m2) \<leftarrow> exec_decoded h (decode32 w) (upd_hart h (rom_fetched w) m);
     Some (True, upd_hart h cycle_end m2) }"
  shows "cycle h m = Some (True, upd_hart h (rom_op_imm w) m)"
  unfolding assms(3) exec_decoded_def exec_def
  by (simp add: assms(1,2) on_hart_def simply_def rom_op_imm_def[abs_def])

definition rom_jalr :: "u32 \<Rightarrow> HartState \<Rightarrow> HartState" where
  "rom_jalr w s = cycle_end (retire True (snd (exec_jalr (decode32 w)
     ((rom_fetched w s)\<lparr>inst := dinst (decode32 w)\<rparr>))))"

lemma rom_cycle_jalr:
  assumes "h < length (hartlist m)" "op_fun (decode32 w) = JALR"
    and "cycle h m = do {
     (_, m2) \<leftarrow> exec_decoded h (decode32 w) (upd_hart h (rom_fetched w) m);
     Some (True, upd_hart h cycle_end m2) }"
    and "\<And>s. fst (exec_jalr (decode32 w) s) = Done True"
  shows "cycle h m = Some (True, upd_hart h (rom_jalr w) m)"
  unfolding assms(3) exec_decoded_def exec_def
  by (simp add: assms(1,2,4) on_hart_def rom_jalr_def[abs_def])

lemma jalr_aligned: "fst (exec_jalr d s) = Done True"
proof -
  have "\<not> bit (x AND NOT 1 :: u64) 0" for x by (simp add: bit_simps)
  then show ?thesis by (simp add: exec_jalr_def Let_def set_reg_def)
qed

lemma cycle_end_quiet:
  "\<not> chk_int s \<Longrightarrow> cycle_end s = s\<lparr>mcycle := mcycle s + 1, cycle_csr := mcycle s + 1, instret := minstret s\<rparr>"
  by (simp add: cycle_end_def Let_def)

lemma rom_addi:
  assumes "rom_ready s"
  shows "rom_ready (rom_op_imm 0x00100413 s)" "pc (rom_op_imm 0x00100413 s) = pc s + 4"
    "regs (rom_op_imm 0x00100413 s) = (regs s)(0 := 0, 8 := 1)"
    "privmode (rom_op_imm 0x00100413 s) = privmode s"
  using assms
  by (simp_all add: rom_op_imm_def rom_decode exec_op_imm_def op_imm_val_def set_reg_def rom_fetched_def
      retire_def inst_bytes_def cycle_end_quiet rom_ready_def)

lemma rom_slli:
  assumes "rom_ready s"
  shows "rom_ready (rom_op_imm 0x01f41413 s)" "pc (rom_op_imm 0x01f41413 s) = pc s + 4"
    "regs (rom_op_imm 0x01f41413 s) = (regs s)(0 := 0, 8 := push_bit 31 (regs s 8))"
    "privmode (rom_op_imm 0x01f41413 s) = privmode s"
proof -
  have u: "unat (0x1F AND 0x3F :: u64) = 31" by simp
  show "rom_ready (rom_op_imm 0x01f41413 s)" "pc (rom_op_imm 0x01f41413 s) = pc s + 4"
    "regs (rom_op_imm 0x01f41413 s) = (regs s)(0 := 0, 8 := push_bit 31 (regs s 8))"
    "privmode (rom_op_imm 0x01f41413 s) = privmode s"
    using assms
    by (simp_all add: rom_op_imm_def rom_decode exec_op_imm_def op_imm_val_def set_reg_def rom_fetched_def
        retire_def inst_bytes_def cycle_end_quiet rom_ready_def shl64_def)
qed

lemma rom_jump:
  assumes "rom_ready s" and "\<not> bit (regs s 8) 0"
  shows "rom_ready (rom_jalr 0x00040067 s)" "pc (rom_jalr 0x00040067 s) = regs s 8"
    "regs (rom_jalr 0x00040067 s) = (regs s)(0 := pc s + 4)" "privmode (rom_jalr 0x00040067 s) = privmode s"
proof -
  have e: "regs s 8 AND NOT 1 = regs s 8"
  proof (rule bit_word_eqI)
    fix n show "bit (regs s 8 AND NOT 1) n = bit (regs s 8) n"
      using assms(2) by (cases "n = 0") (auto simp: bit_simps dest: bit_imp_le_length)
  qed
  show "rom_ready (rom_jalr 0x00040067 s)" "pc (rom_jalr 0x00040067 s) = regs s 8"
    "regs (rom_jalr 0x00040067 s) = (regs s)(0 := pc s + 4)" "privmode (rom_jalr 0x00040067 s) = privmode s"
    using assms e
    by (simp_all add: rom_jalr_def rom_decode exec_jalr_def Let_def set_reg_def rom_fetched_def
        retire_def inst_bytes_def cycle_end_quiet rom_ready_def)
qed

text \<open>Three cycles take a ready hart from the reset vector to the start of the RAM.\<close>

lemma rom_boots:
  assumes h: "h < length (hartlist m)" and r: "rom_ready (hart h m)" and p: "pc (hart h m) = 0x1000"
    and sz: "mach_mem_size m < 0x8000000000000000"
  shows "\<exists>f. hart_cycles 3 h m = Some (True, upd_hart h f m)
    \<and> pc (f (hart h m)) = 0x80000000 \<and> privmode (f (hart h m)) = 3
    \<and> (\<forall>k. k \<noteq> 0 \<longrightarrow> k \<noteq> 8 \<longrightarrow> regs (f (hart h m)) k = regs (hart h m) k)"
proof -
  let ?s = "hart h m"
  let ?s1 = "rom_op_imm 0x00100413 ?s"
  let ?s2 = "rom_op_imm 0x01f41413 ?s1"
  let ?s3 = "rom_jalr 0x00040067 ?s2"
  have rng: "mem_in_range a (upd_hart h g m)" if "0x1000 \<le> a" "a < 0x1000 + 12" for a g
  proof -
    have "unat (0x80000000 + mach_mem_size m) = 0x80000000 + unat (mach_mem_size m)"
      using sz by (simp add: word_less_nat_alt unat_word_ariths)
    then show ?thesis using that by (simp add: mem_in_range_def word_less_nat_alt word_le_nat_alt)
  qed
  have m: "upd_hart h (\<lambda>s. s) m = m" by (simp add: upd_hart_def)
  have hu: "hart h (upd_hart h g m) = g ?s" "h < length (hartlist (upd_hart h g m))" for g
    using h by simp_all
  note a = rom_addi[OF r]
  note b = rom_slli[OF a(1)]
  have r8: "regs ?s2 8 = 0x80000000" using a(3) b(3) by simp
  then have nb: "\<not> bit (regs ?s2 8) 0" by simp
  note c = rom_jump[OF b(1) nb]
  have c1: "cycle h m = Some (True, upd_hart h (rom_op_imm 0x00100413) m)"
    by (rule rom_cycle_op_imm[OF h _ rom_cycle[OF h r p _ _ _ rom_words(1)]])
      (use rng[where a = "0x1000" and g = "\<lambda>s. s"] in \<open>simp_all add: rom_decode m\<close>)
  have p1: "pc (hart h (upd_hart h (rom_op_imm 0x00100413) m)) = 0x1004" using a(2) p hu by simp
  have r1: "rom_ready (hart h (upd_hart h (rom_op_imm 0x00100413) m))" using a(1) hu by simp
  have c2: "cycle h (upd_hart h (rom_op_imm 0x00100413) m) =
      Some (True, upd_hart h (rom_op_imm 0x01f41413) (upd_hart h (rom_op_imm 0x00100413) m))"
    by (rule rom_cycle_op_imm[OF hu(2) _ rom_cycle[OF hu(2) r1 p1 _ _ _ rom_words(2)]])
      (use rng[where a = "0x1004"] in \<open>simp_all add: rom_decode\<close>)
  define m2 where "m2 = upd_hart h (\<lambda>s. rom_op_imm 0x01f41413 (rom_op_imm 0x00100413 s)) m"
  have h2: "h < length (hartlist m2)" "hart h m2 = ?s2" using h by (simp_all add: m2_def)
  have p2: "pc (hart h m2) = 0x1008" using h2 b(2) a(2) p by simp
  have r2: "rom_ready (hart h m2)" using h2 b(1) by simp
  have c3: "cycle h m2 = Some (True, upd_hart h (rom_jalr 0x00040067) m2)"
    by (rule rom_cycle_jalr[OF h2(1) _ rom_cycle[OF h2(1) r2 p2 _ _ _ rom_words(3)] jalr_aligned])
      (use rng[where a = "0x1008"] in \<open>simp_all add: rom_decode m2_def\<close>)
  let ?f = "\<lambda>s. rom_jalr 0x00040067 (rom_op_imm 0x01f41413 (rom_op_imm 0x00100413 s))"
  have "hart_cycles 3 h m = Some (True, upd_hart h ?f m)"
    using c1 c2 c3 by (simp add: eval_nat_numeral m2_def)
  moreover have "pc (?f ?s) = 0x80000000" using c(2) r8 by simp
  moreover have "privmode (?f ?s) = 3" using c(4) b(4) a(4) r by (simp add: rom_ready_def)
  moreover have "\<forall>k. k \<noteq> 0 \<longrightarrow> k \<noteq> 8 \<longrightarrow> regs (?f ?s) k = regs ?s k" using a(3) b(3) c(3) by simp
  ultimately show ?thesis by blast
qed

lemma hart_init_rom_ready: "rom_ready (hart_init n i)"
  by (simp add: rom_ready_def)

end
