(* ===== verification/Rvc.thy ===== *)
theory Rvc
  imports Cpu
begin

text \<open>
  The compressed instructions (\<open>decode_exc\<close> of \<open>cpu.cpp\<close>, \<open>inst_len = 16\<close>) against the ISA
  manual: an assembler for the RVC formats, the expansion of every compressed instruction into
  an instruction of the base set, and the proof that the hart executes the one as the other.
\<close>

subsection \<open>The compressed instructions of the manual\<close>

text \<open>
  Registers of three bits name \<open>x8\<close> to \<open>x15\<close>.  An immediate is given without the low bits its
  encoding leaves out: \<open>imm[9:2]\<close> of C.ADDI4SPN is an 8-bit word.
\<close>

datatype cinstr =
    CAddi4spn "3 word" "8 word"
  | CLw "3 word" "3 word" "5 word" | CLd "3 word" "3 word" "5 word"
  | CSw "3 word" "3 word" "5 word" | CSd "3 word" "3 word" "5 word"
  | CAddi "5 word" "6 word" | CAddiw "5 word" "6 word" | CLi "5 word" "6 word"
  | CAddi16sp "6 word" | CLui "5 word" "6 word"
  | CSrli "3 word" "6 word" | CSrai "3 word" "6 word" | CAndi "3 word" "6 word"
  | CSub "3 word" "3 word" | CXor "3 word" "3 word" | COr "3 word" "3 word"
  | CAnd "3 word" "3 word" | CSubw "3 word" "3 word" | CAddw "3 word" "3 word"
  | CJ "11 word" | CBeqz "3 word" "8 word" | CBnez "3 word" "8 word"
  | CSlli "5 word" "6 word" | CLwsp "5 word" "6 word" | CLdsp "5 word" "6 word"
  | CJr "5 word" | CMv "5 word" "5 word" | CJalr "5 word" | CAdd "5 word" "5 word"
  | CSwsp "5 word" "6 word" | CSdsp "5 word" "6 word"

text \<open>
  \<open>scatter p [b\<^sub>1, b\<^sub>2, \<dots>] v\<close>: bit \<open>b\<^sub>1\<close> of the immediate \<open>v\<close> at position \<open>p\<close> of the
  instruction, \<open>b\<^sub>2\<close> at \<open>p - 1\<close>, and so on: the manual's notation \<open>uimm[5:3]\<close>.
\<close>

fun scatter :: "nat \<Rightarrow> nat list \<Rightarrow> u64 \<Rightarrow> u32" where
  "scatter p [] v = 0"
| "scatter p (b # bs) v = push_bit p (of_bool (bit v b)) OR scatter (p - 1) bs v"

definition cbase :: "2 word \<Rightarrow> 3 word \<Rightarrow> u32" where
  "cbase quadrant f3 = ucast quadrant OR push_bit 13 (ucast f3)"

definition at :: "nat \<Rightarrow> 'a::len word \<Rightarrow> u32" where
  "at p w = push_bit p (ucast w)"

fun casm :: "cinstr \<Rightarrow> u32" where
  "casm (CAddi4spn d u) = cbase 0 0 OR scatter 12 [5,4,9,8,7,6,2,3] (push_bit 2 (ucast u)) OR at 2 d"
| "casm (CLw d s u) = cbase 0 2 OR scatter 12 [5,4,3] (push_bit 2 (ucast u)) OR at 7 s
     OR scatter 6 [2,6] (push_bit 2 (ucast u)) OR at 2 d"
| "casm (CLd d s u) = cbase 0 3 OR scatter 12 [5,4,3] (push_bit 3 (ucast u)) OR at 7 s
     OR scatter 6 [7,6] (push_bit 3 (ucast u)) OR at 2 d"
| "casm (CSw s t u) = cbase 0 6 OR scatter 12 [5,4,3] (push_bit 2 (ucast u)) OR at 7 s
     OR scatter 6 [2,6] (push_bit 2 (ucast u)) OR at 2 t"
| "casm (CSd s t u) = cbase 0 7 OR scatter 12 [5,4,3] (push_bit 3 (ucast u)) OR at 7 s
     OR scatter 6 [7,6] (push_bit 3 (ucast u)) OR at 2 t"
| "casm (CAddi d i) = cbase 1 0 OR scatter 12 [5] (ucast i) OR at 7 d OR scatter 6 [4,3,2,1,0] (ucast i)"
| "casm (CAddiw d i) = cbase 1 1 OR scatter 12 [5] (ucast i) OR at 7 d OR scatter 6 [4,3,2,1,0] (ucast i)"
| "casm (CLi d i) = cbase 1 2 OR scatter 12 [5] (ucast i) OR at 7 d OR scatter 6 [4,3,2,1,0] (ucast i)"
| "casm (CAddi16sp i) = cbase 1 3 OR scatter 12 [9] (push_bit 4 (ucast i)) OR at 7 (2 :: 5 word)
     OR scatter 6 [4,6,8,7,5] (push_bit 4 (ucast i))"
| "casm (CLui d i) = cbase 1 3 OR scatter 12 [17] (push_bit 12 (ucast i)) OR at 7 d
     OR scatter 6 [16,15,14,13,12] (push_bit 12 (ucast i))"
| "casm (CSrli d u) = cbase 1 4 OR scatter 12 [5] (ucast u) OR at 10 (0 :: 2 word) OR at 7 d
     OR scatter 6 [4,3,2,1,0] (ucast u)"
| "casm (CSrai d u) = cbase 1 4 OR scatter 12 [5] (ucast u) OR at 10 (1 :: 2 word) OR at 7 d
     OR scatter 6 [4,3,2,1,0] (ucast u)"
| "casm (CAndi d i) = cbase 1 4 OR scatter 12 [5] (ucast i) OR at 10 (2 :: 2 word) OR at 7 d
     OR scatter 6 [4,3,2,1,0] (ucast i)"
| "casm (CSub d t) = cbase 1 4 OR at 10 (3 :: 3 word) OR at 7 d OR at 5 (0 :: 2 word) OR at 2 t"
| "casm (CXor d t) = cbase 1 4 OR at 10 (3 :: 3 word) OR at 7 d OR at 5 (1 :: 2 word) OR at 2 t"
| "casm (COr d t) = cbase 1 4 OR at 10 (3 :: 3 word) OR at 7 d OR at 5 (2 :: 2 word) OR at 2 t"
| "casm (CAnd d t) = cbase 1 4 OR at 10 (3 :: 3 word) OR at 7 d OR at 5 (3 :: 2 word) OR at 2 t"
| "casm (CSubw d t) = cbase 1 4 OR at 10 (7 :: 3 word) OR at 7 d OR at 5 (0 :: 2 word) OR at 2 t"
| "casm (CAddw d t) = cbase 1 4 OR at 10 (7 :: 3 word) OR at 7 d OR at 5 (1 :: 2 word) OR at 2 t"
| "casm (CJ off) = cbase 1 5 OR scatter 12 [11,4,9,8,10,6,7,3,2,1,5] (push_bit 1 (ucast off))"
| "casm (CBeqz s off) = cbase 1 6 OR scatter 12 [8,4,3] (push_bit 1 (ucast off)) OR at 7 s
     OR scatter 6 [7,6,2,1,5] (push_bit 1 (ucast off))"
| "casm (CBnez s off) = cbase 1 7 OR scatter 12 [8,4,3] (push_bit 1 (ucast off)) OR at 7 s
     OR scatter 6 [7,6,2,1,5] (push_bit 1 (ucast off))"
| "casm (CSlli d u) = cbase 2 0 OR scatter 12 [5] (ucast u) OR at 7 d OR scatter 6 [4,3,2,1,0] (ucast u)"
| "casm (CLwsp d u) = cbase 2 2 OR scatter 12 [5] (push_bit 2 (ucast u)) OR at 7 d
     OR scatter 6 [4,3,2,7,6] (push_bit 2 (ucast u))"
| "casm (CLdsp d u) = cbase 2 3 OR scatter 12 [5] (push_bit 3 (ucast u)) OR at 7 d
     OR scatter 6 [4,3,8,7,6] (push_bit 3 (ucast u))"
| "casm (CJr s) = cbase 2 4 OR at 7 s"
| "casm (CMv d t) = cbase 2 4 OR at 7 d OR at 2 t"
| "casm (CJalr s) = cbase 2 4 OR push_bit 12 1 OR at 7 s"
| "casm (CAdd d t) = cbase 2 4 OR push_bit 12 1 OR at 7 d OR at 2 t"
| "casm (CSwsp t u) = cbase 2 6 OR scatter 12 [5,4,3,2,7,6] (push_bit 2 (ucast u)) OR at 2 t"
| "casm (CSdsp t u) = cbase 2 7 OR scatter 12 [5,4,3,8,7,6] (push_bit 3 (ucast u)) OR at 2 t"

text \<open>The encodings the manual reserves or gives to another instruction.\<close>

fun cwf :: "cinstr \<Rightarrow> bool" where
  "cwf (CLui d i) = (d \<noteq> 2)"
| "cwf (CMv d t) = (t \<noteq> 0)"
| "cwf (CAdd d t) = (t \<noteq> 0)"
| "cwf (CJalr s) = (s \<noteq> 0)"
| "cwf _ = True"

text \<open>The expansions the manual gives.\<close>

definition creg :: "3 word \<Rightarrow> 5 word" where
  "creg r = ucast r OR 8"

fun cexpand :: "cinstr \<Rightarrow> asm" where
  "cexpand (CAddi4spn d u) = AsmI 0b0010011 (creg d) 0 2 (push_bit 2 (ucast u))"
| "cexpand (CLw d s u) = AsmI 0b0000011 (creg d) 2 (creg s) (push_bit 2 (ucast u))"
| "cexpand (CLd d s u) = AsmI 0b0000011 (creg d) 3 (creg s) (push_bit 3 (ucast u))"
| "cexpand (CSw s t u) = AsmS 0b0100011 2 (creg s) (creg t) (push_bit 2 (ucast u))"
| "cexpand (CSd s t u) = AsmS 0b0100011 3 (creg s) (creg t) (push_bit 3 (ucast u))"
| "cexpand (CAddi d i) = AsmI 0b0010011 d 0 d (scast i)"
| "cexpand (CAddiw d i) = AsmI 0b0011011 d 0 d (scast i)"
| "cexpand (CLi d i) = AsmI 0b0010011 d 0 0 (scast i)"
| "cexpand (CAddi16sp i) = AsmI 0b0010011 2 0 2 (push_bit 4 (scast i))"
| "cexpand (CLui d i) = AsmU 0b0110111 d (scast i)"
| "cexpand (CSrli d u) = AsmI 0b0010011 (creg d) 5 (creg d) (ucast u)"
| "cexpand (CSrai d u) = AsmI 0b0010011 (creg d) 5 (creg d) (ucast u OR push_bit 10 1)"
| "cexpand (CAndi d i) = AsmI 0b0010011 (creg d) 7 (creg d) (scast i)"
| "cexpand (CSub d t) = AsmR 0b0110011 (creg d) 0 (creg d) (creg t) 0b0100000"
| "cexpand (CXor d t) = AsmR 0b0110011 (creg d) 4 (creg d) (creg t) 0"
| "cexpand (COr d t) = AsmR 0b0110011 (creg d) 6 (creg d) (creg t) 0"
| "cexpand (CAnd d t) = AsmR 0b0110011 (creg d) 7 (creg d) (creg t) 0"
| "cexpand (CSubw d t) = AsmR 0b0111011 (creg d) 0 (creg d) (creg t) 0b0100000"
| "cexpand (CAddw d t) = AsmR 0b0111011 (creg d) 0 (creg d) (creg t) 0"
| "cexpand (CJ off) = AsmJ 0b1101111 0 (scast off)"
| "cexpand (CBeqz s off) = AsmB 0b1100011 0 (creg s) 0 (scast off)"
| "cexpand (CBnez s off) = AsmB 0b1100011 1 (creg s) 0 (scast off)"
| "cexpand (CSlli d u) = AsmI 0b0010011 d 1 d (ucast u)"
| "cexpand (CLwsp d u) = AsmI 0b0000011 d 2 2 (push_bit 2 (ucast u))"
| "cexpand (CLdsp d u) = AsmI 0b0000011 d 3 2 (push_bit 3 (ucast u))"
| "cexpand (CJr s) = AsmI 0b1100111 0 0 s 0"
| "cexpand (CMv d t) = AsmR 0b0110011 d 0 0 t 0"
| "cexpand (CJalr s) = AsmI 0b1100111 1 0 s 0"
| "cexpand (CAdd d t) = AsmR 0b0110011 d 0 d t 0"
| "cexpand (CSwsp t u) = AsmS 0b0100011 2 2 t (push_bit 2 (ucast u))"
| "cexpand (CSdsp t u) = AsmS 0b0100011 3 2 t (push_bit 3 (ucast u))"

subsection \<open>Which opcode\<close>

lemma word_of_two_bits: "(w :: u32) AND 0b11 = of_bool (bit w 0) OR push_bit 1 (of_bool (bit w 1))"
proof (rule bit_word_eqI)
  fix n
  show "bit (w AND 0b11) n = bit (of_bool (bit w 0) OR push_bit 1 (of_bool (bit w 1)) :: u32) n"
    unfolding mask_numerals by (cases "n = 0 \<or> n = 1") (auto simp: bit_simps)
qed

lemma drop_13: "drop_bit 13 ((w :: u32) AND 0xE000) =
    of_bool (bit w 13) OR push_bit 1 (of_bool (bit w 14)) OR push_bit 2 (of_bool (bit w 15))"
proof (rule bit_word_eqI)
  have m: "(0xE000 :: u32) = push_bit 13 (mask 3)" by (simp add: mask_eq_exp_minus_1)
  fix n
  show "bit (drop_bit 13 (w AND 0xE000)) n =
    bit (of_bool (bit w 13) OR push_bit 1 (of_bool (bit w 14)) OR push_bit 2 (of_bool (bit w 15)) :: u32) n"
    unfolding m by (cases "n = 0 \<or> n = 1 \<or> n = 2") (auto simp: bit_simps)
qed

lemma op16_index_bits: "op16_index w =
    of_bool (bit w 13) + 2 * of_bool (bit w 14) + 4 * of_bool (bit w 15)
    + 8 * of_bool (bit w 0) + 16 * of_bool (bit w 1)"
  unfolding op16_index_def word_of_two_bits drop_13
  by (cases "bit w 0"; cases "bit w 1"; cases "bit w 13"; cases "bit w 14"; cases "bit w 15") simp_all

lemma bit_cbase: "bit (cbase q f) n \<longleftrightarrow> n < 32 \<and> (bit q n \<or> 13 \<le> n \<and> bit f (n - 13))"
  by (auto simp: cbase_def bit_simps dest: bit_imp_le_length)

lemma bit_at: "bit (at p w) n \<longleftrightarrow> n < 32 \<and> p \<le> n \<and> bit w (n - p)"
  by (auto simp: at_def bit_simps dest: bit_imp_le_length)


lemma bit_short: "2 \<le> n \<Longrightarrow> \<not> bit (a :: 2 word) n" "6 \<le> n \<Longrightarrow> \<not> bit (b :: 6 word) n"
  "8 \<le> n \<Longrightarrow> \<not> bit (c :: 8 word) n" "11 \<le> n \<Longrightarrow> \<not> bit (d :: 11 word) n"
  by (rule bit_above; simp)+

lemma bit_scatter:
  "bit (scatter p (b # bs) v) n \<longleftrightarrow> n = p \<and> n < 32 \<and> bit v b \<or> bit (scatter (p - 1) bs v) n"
  "bit (scatter p [] v) n \<longleftrightarrow> False"
  by (auto simp: bit_simps)

declare scatter.simps [simp del]

lemma bit_times2: "bit (x * 2 :: u64) n \<longleftrightarrow> 0 < n \<and> n < 64 \<and> bit x (n - 1)"
  by (cases n) (simp_all add: mult.commute[of x 2] bit_double_iff)

lemmas cbits = bit_cbase bit_at bit_scatter bit_times2 bit_simps bits bit_short small_bits

lemma casm_index:
  "op16_index (casm (CAddi4spn d i8)) = 0"
  "op16_index (casm (CLw d s i5)) = 2" "op16_index (casm (CLd d s i5)) = 3"
  "op16_index (casm (CSw d s i5)) = 6" "op16_index (casm (CSd d s i5)) = 7"
  "op16_index (casm (CAddi r i6)) = 8" "op16_index (casm (CAddiw r i6)) = 9"
  "op16_index (casm (CLi r i6)) = 10" "op16_index (casm (CAddi16sp i6)) = 11"
  "op16_index (casm (CLui r i6)) = 11" "op16_index (casm (CSrli d i6)) = 12"
  "op16_index (casm (CSrai d i6)) = 12" "op16_index (casm (CAndi d i6)) = 12"
  "op16_index (casm (CSub d s)) = 12" "op16_index (casm (CXor d s)) = 12"
  "op16_index (casm (COr d s)) = 12" "op16_index (casm (CAnd d s)) = 12"
  "op16_index (casm (CSubw d s)) = 12" "op16_index (casm (CAddw d s)) = 12"
  "op16_index (casm (CJ i11)) = 13" "op16_index (casm (CBeqz s i8)) = 14"
  "op16_index (casm (CBnez s i8)) = 15" "op16_index (casm (CSlli r i6)) = 16"
  "op16_index (casm (CLwsp r i6)) = 18" "op16_index (casm (CLdsp r i6)) = 19"
  "op16_index (casm (CJr r)) = 20" "op16_index (casm (CMv r t)) = 20"
  "op16_index (casm (CJalr r)) = 20" "op16_index (casm (CAdd r t)) = 20"
  "op16_index (casm (CSwsp t i6)) = 22" "op16_index (casm (CSdsp t i6)) = 23"
  by (simp_all add: op16_index_bits cbits)

subsection \<open>Immediates\<close>

lemma add_disjoint: "a AND b = 0 \<Longrightarrow> a + b = a OR (b :: u64)"
  by (rule disjunctive_add_eq_or)

lemma masked_disjoint: "m AND m' = 0 \<Longrightarrow> (x AND m) AND (y AND m') = (0 :: u64)"
  by (metis (no_types) and.assoc and.commute and_zero_eq zero_and_eq)

lemma or_disjoint: "(a OR b) AND c = (0 :: u64) \<longleftrightarrow> a AND c = 0 \<and> b AND c = 0"
  by (simp add: bit.conj_disj_distrib2 or_eq_0_iff)

lemmas cimm_or = cimm_addi4spn_def cimm_lw_def cimm_ld_def cimm_ci_def cimm_addi16sp_def
  cimm_lui_def cimm_j_def cimm_b_def cimm_lwsp_def cimm_ldsp_def cimm_swsp_def cimm_sdsp_def


text \<open>Two values agree when their low 18 bits and all the higher ones do.\<close>

lemma low_high_eqI:
  assumes "\<forall>n\<in>{0,1,2,3,4,5,6,7,8,9,10,11,12,13,14,15,16,17}. bit a n = bit b n"
    and "\<And>n. 18 \<le> n \<Longrightarrow> n < 64 \<Longrightarrow> bit a n = bit b n"
  shows "a = (b :: u64)"
proof (rule bit_word_eqI)
  fix n :: nat
  assume n: "n < LENGTH(64)"
  have "n < 18 \<Longrightarrow> n \<in> {0,1,2,3,4,5,6,7,8,9,10,11,12,13,14,15,16,17}" by simp presburger
  then show "bit a n = bit b n" using assms n by (cases "n < 18") (blast, simp)
qed

lemma bit_sext: "0 < b \<Longrightarrow> b \<le> 64 \<Longrightarrow> n < 64 \<Longrightarrow> bit (sext b x) n = bit x (if n < b then n else b - 1)"
  by (auto simp: sext_def bit_simps min_def)

lemma bit_small_int:
  assumes "0 \<le> x" "x < 2 ^ 18" "18 \<le> n"
  shows "\<not> bit (x :: int) n"
proof -
  have "(2 :: int) ^ 18 \<le> 2 ^ n" using assms(3) by (intro power_increasing) simp_all
  then have "x div 2 ^ n = 0" using assms by (intro div_pos_pos_trivial) linarith+
  then show ?thesis by (simp add: bit_iff_odd)
qed

lemma small_mask: "numeral m < (2 ^ 18 :: int) \<Longrightarrow> 18 \<le> n \<Longrightarrow> \<not> bit (numeral m :: int) n"
  by (rule bit_small_int) simp_all

lemmas imm_simps = cimm_or add_disjoint masked_disjoint or_disjoint bit_sext min_def small_mask
  less_imp_diff_less

lemma casm_imm:
  "cimm_addi4spn (ucast (casm (CAddi4spn d i8))) = scast (push_bit 2 (ucast i8) :: 12 word)"
  "cimm_lw (ucast (casm (CLw d s i5))) = scast (push_bit 2 (ucast i5) :: 12 word)"
  "cimm_lw (ucast (casm (CSw d s i5))) = scast (push_bit 2 (ucast i5) :: 12 word)"
  "cimm_ld (ucast (casm (CLd d s i5))) = scast (push_bit 3 (ucast i5) :: 12 word)"
  "cimm_ld (ucast (casm (CSd d s i5))) = scast (push_bit 3 (ucast i5) :: 12 word)"
  "cimm_lwsp (ucast (casm (CLwsp r i6))) = scast (push_bit 2 (ucast i6) :: 12 word)"
  "cimm_ldsp (ucast (casm (CLdsp r i6))) = scast (push_bit 3 (ucast i6) :: 12 word)"
  "cimm_swsp (ucast (casm (CSwsp r i6))) = scast (push_bit 2 (ucast i6) :: 12 word)"
  "cimm_sdsp (ucast (casm (CSdsp r i6))) = scast (push_bit 3 (ucast i6) :: 12 word)"
  by (rule low_high_eqI; simp add: imm_simps cbits)+

lemma casm_shamt:
  "cimm_ci (ucast (casm (CSlli r i6))) = scast (ucast i6 :: 12 word)"
  "cimm_ci (ucast (casm (CSrli d i6))) = scast (ucast i6 :: 12 word)"
  "cimm_ci (ucast (casm (CSrai d i6))) = scast (ucast i6 :: 12 word)"
  by (rule low_high_eqI; simp add: imm_simps cbits)+

lemma casm_simm:
  "sext 6 (cimm_ci (ucast (casm (CAddi r i6)))) = scast (scast i6 :: 12 word)"
  "sext 6 (cimm_ci (ucast (casm (CAddiw r i6)))) = scast (scast i6 :: 12 word)"
  "sext 6 (cimm_ci (ucast (casm (CLi r i6)))) = scast (scast i6 :: 12 word)"
  "sext 6 (cimm_ci (ucast (casm (CAndi d i6)))) = scast (scast i6 :: 12 word)"
  "sext 10 (cimm_addi16sp (ucast (casm (CAddi16sp i6)))) = scast (push_bit 4 (scast i6) :: 12 word)"
  "sext 18 (cimm_lui (ucast (casm (CLui r i6)))) = push_bit 12 (scast (scast i6 :: 20 word))"
  by (rule low_high_eqI; simp add: imm_simps cbits)+

lemma casm_offset:
  "sext 12 (cimm_j (ucast (casm (CJ i11)))) = push_bit 1 (scast (scast i11 :: 20 word))"
  "sext 9 (cimm_b (ucast (casm (CBeqz s i8)))) = push_bit 1 (scast (scast i8 :: 12 word))"
  "sext 9 (cimm_b (ucast (casm (CBnez s i8)))) = push_bit 1 (scast (scast i8 :: 12 word))"
  by (rule low_high_eqI; simp add: imm_simps cbits)+

subsection \<open>Fields\<close>

lemma u8_eqI:
  assumes "\<forall>n\<in>{0,1,2,3,4,5,6,7}. bit a n = bit b n"
  shows "a = (b :: u8)"
proof (rule bit_word_eqI)
  fix n :: nat
  assume n: "n < LENGTH(8)"
  then have "n \<in> {0,1,2,3,4,5,6,7}" by simp presburger
  then show "bit a n = bit b n" using assms by blast
qed

lemma creg_reg: "ucast r + 8 = (ucast (creg r) :: u8)"
proof -
  have "ucast r AND (8 :: u8) = 0" by (rule u8_eqI) (simp add: cbits)
  then have "ucast r + 8 = (ucast r OR 8 :: u8)" by (rule disjunctive_add_eq_or)
  also have "\<dots> = ucast (creg r)" by (rule u8_eqI) (simp add: creg_def cbits)
  finally show ?thesis .
qed

lemma REG16TO32_at:
  assumes "bit ins lo = bit r 0" "bit ins (lo + 1) = bit r 1" "bit ins (lo + 2) = bit r 2"
  shows "REG16TO32 lo ins = ucast (creg r)"
proof -
  have "ucast (drop_bit lo ins AND 0b111) = (ucast r :: u8)"
    using assms by (intro u8_eqI) (simp add: cbits)
  then show ?thesis by (simp add: REG16TO32_def creg_reg)
qed

lemma casm_regs3:
  "REG16TO32 2 (casm (CAddi4spn d i8)) = ucast (creg d)"
  "REG16TO32 2 (casm (CLw d s i5)) = ucast (creg d)" "REG16TO32 7 (casm (CLw d s i5)) = ucast (creg s)"
  "REG16TO32 2 (casm (CLd d s i5)) = ucast (creg d)" "REG16TO32 7 (casm (CLd d s i5)) = ucast (creg s)"
  "REG16TO32 2 (casm (CSw s d i5)) = ucast (creg d)" "REG16TO32 7 (casm (CSw s d i5)) = ucast (creg s)"
  "REG16TO32 2 (casm (CSd s d i5)) = ucast (creg d)" "REG16TO32 7 (casm (CSd s d i5)) = ucast (creg s)"
  "REG16TO32 7 (casm (CSrli s i6)) = ucast (creg s)" "REG16TO32 7 (casm (CSrai s i6)) = ucast (creg s)"
  "REG16TO32 7 (casm (CAndi s i6)) = ucast (creg s)"
  "REG16TO32 2 (casm (CSub s d)) = ucast (creg d)" "REG16TO32 7 (casm (CSub s d)) = ucast (creg s)"
  "REG16TO32 2 (casm (CXor s d)) = ucast (creg d)" "REG16TO32 7 (casm (CXor s d)) = ucast (creg s)"
  "REG16TO32 2 (casm (COr s d)) = ucast (creg d)" "REG16TO32 7 (casm (COr s d)) = ucast (creg s)"
  "REG16TO32 2 (casm (CAnd s d)) = ucast (creg d)" "REG16TO32 7 (casm (CAnd s d)) = ucast (creg s)"
  "REG16TO32 2 (casm (CSubw s d)) = ucast (creg d)" "REG16TO32 7 (casm (CSubw s d)) = ucast (creg s)"
  "REG16TO32 2 (casm (CAddw s d)) = ucast (creg d)" "REG16TO32 7 (casm (CAddw s d)) = ucast (creg s)"
  "REG16TO32 7 (casm (CBeqz s i8)) = ucast (creg s)" "REG16TO32 7 (casm (CBnez s i8)) = ucast (creg s)"
  by (rule REG16TO32_at; simp add: cbits)+

lemma casm_regs5:
  "reg5 7 (casm (CAddi r i6)) = ucast r" "reg5 7 (casm (CAddiw r i6)) = ucast r"
  "reg5 7 (casm (CLi r i6)) = ucast r" "reg5 7 (casm (CAddi16sp i6)) = 2"
  "reg5 7 (casm (CLui r i6)) = ucast r" "reg5 7 (casm (CSlli r i6)) = ucast r"
  "reg5 7 (casm (CLwsp r i6)) = ucast r" "reg5 7 (casm (CLdsp r i6)) = ucast r"
  "reg5 2 (casm (CSwsp r i6)) = ucast r" "reg5 2 (casm (CSdsp r i6)) = ucast r"
  "reg5 7 (casm (CJr r)) = ucast r" "reg5 2 (casm (CJr r)) = 0"
  "reg5 7 (casm (CJalr r)) = ucast r" "reg5 2 (casm (CJalr r)) = 0"
  "reg5 7 (casm (CMv r t)) = ucast r" "reg5 2 (casm (CMv r t)) = ucast t"
  "reg5 7 (casm (CAdd r t)) = ucast r" "reg5 2 (casm (CAdd r t)) = ucast t"
  by (rule u8_eqI; simp add: cbits)+

text \<open>The fields that select among the arithmetic instructions, and bit 12.\<close>

lemma two_bits: "drop_bit n w AND 0b11 = (of_bool (bit w n) OR push_bit 1 (of_bool (bit w (n + 1))) :: u32)"
  unfolding word_of_two_bits by (simp add: bit_simps)

lemma casm_select:
  "drop_bit 10 (casm (CSrli d i6)) AND 0b11 = 0" "drop_bit 10 (casm (CSrai d i6)) AND 0b11 = 1"
  "drop_bit 10 (casm (CAndi d i6)) AND 0b11 = 2"
  "drop_bit 10 (casm (CSub d s)) AND 0b11 = 3" "drop_bit 10 (casm (CXor d s)) AND 0b11 = 3"
  "drop_bit 10 (casm (COr d s)) AND 0b11 = 3" "drop_bit 10 (casm (CAnd d s)) AND 0b11 = 3"
  "drop_bit 10 (casm (CSubw d s)) AND 0b11 = 3" "drop_bit 10 (casm (CAddw d s)) AND 0b11 = 3"
  "drop_bit 5 (casm (CSub d s)) AND 0b11 = 0" "drop_bit 5 (casm (CXor d s)) AND 0b11 = 1"
  "drop_bit 5 (casm (COr d s)) AND 0b11 = 2" "drop_bit 5 (casm (CAnd d s)) AND 0b11 = 3"
  "drop_bit 13 (casm (CBeqz t i8)) AND 1 = 0" "drop_bit 13 (casm (CBnez t i8)) AND 1 = 1"
  unfolding two_bits by (simp_all add: cbits and_one_eq mod_2_eq_odd bit_0[symmetric])

lemma casm_bits:
  "\<not> bit (casm (CSub d s)) 12" "\<not> bit (casm (CXor d s)) 12" "\<not> bit (casm (COr d s)) 12"
  "\<not> bit (casm (CAnd d s)) 12" "bit (casm (CSubw d s)) 12" "bit (casm (CAddw d s)) 12"
  "\<not> bit (casm (CSubw d s)) 5" "bit (casm (CAddw d s)) 5"
  "\<not> bit (casm (CJr r)) 12" "\<not> bit (casm (CMv r t)) 12"
  "bit (casm (CJalr r)) 12" "bit (casm (CAdd r t)) 12"
  by (simp_all add: cbits)

lemma casm_bit30 [simp]: "\<not> bit (casm c) 30"
  by (cases c) (simp_all add: cbits)

lemma ucast5_eq [simp]: "ucast r = (ucast t :: u8) \<longleftrightarrow> r = (t :: 5 word)"
proof
  assume "ucast r = (ucast t :: u8)"
  then have "bit (ucast r :: u8) n = bit (ucast t :: u8) n" for n by simp
  then have "n < 8 \<Longrightarrow> bit r n = bit t n" for n by (auto simp: bit_simps)
  then show "r = t" by (intro bit_word_eqI) simp
qed simp

lemma ucast5_const [simp]: "(ucast (r :: 5 word) = (0 :: u8)) = (r = 0)" "(ucast r = (2 :: u8)) = (r = 2)"
  using ucast5_eq[of r 0] ucast5_eq[of r 2] by simp_all

lemma casm_not_ebreak:
  "casm (CJr r) \<noteq> 0x9002" "casm (CMv r t) \<noteq> 0x9002"
  "t \<noteq> 0 \<Longrightarrow> casm (CAdd r t) \<noteq> 0x9002" "r \<noteq> 0 \<Longrightarrow> casm (CJalr r) \<noteq> 0x9002"
proof -
  have "bit (0x9002 :: u32) 12" "reg5 2 0x9002 = 0" "reg5 7 0x9002 = 0" by (simp_all add: reg5_def)
  then show "casm (CJr r) \<noteq> 0x9002" "casm (CMv r t) \<noteq> 0x9002"
    "t \<noteq> 0 \<Longrightarrow> casm (CAdd r t) \<noteq> 0x9002" "r \<noteq> 0 \<Longrightarrow> casm (CJalr r) \<noteq> 0x9002"
    using casm_bits casm_regs5 ucast5_const by metis+
qed

declare casm.simps [simp del]

subsection \<open>Operands that execute alike\<close>

lemma decode32_fields:
  "op_fun (decode32 w) = op32_of w" "rd (decode32 w) = reg5 7 w" "rs1 (decode32 w) = reg5 15 w"
  "funct3 (decode32 w) = ucast (drop_bit 12 w AND 0b111)"
  "inst_type_lookup_32 (op32_of w) = R \<Longrightarrow> rs2 (decode32 w) = reg5 20 w"
  "inst_type_lookup_32 (op32_of w) = S \<Longrightarrow> rs2 (decode32 w) = reg5 20 w"
  "inst_type_lookup_32 (op32_of w) = B \<Longrightarrow> rs2 (decode32 w) = reg5 20 w"
  "inst_type_lookup_32 (op32_of w) = R \<Longrightarrow> funct7 (decode32 w) = ucast (drop_bit 25 w AND 0b1111111)"
  "inst_type_lookup_32 (op32_of w) = I \<Longrightarrow> imm (decode32 w) = imm_i w"
  "inst_type_lookup_32 (op32_of w) = S \<Longrightarrow> imm (decode32 w) = imm_s w"
  "inst_type_lookup_32 (op32_of w) = B \<Longrightarrow> imm (decode32 w) = imm_b w"
  "inst_type_lookup_32 (op32_of w) = U \<Longrightarrow> imm (decode32 w) = imm_u w"
  "inst_type_lookup_32 (op32_of w) = J \<Longrightarrow> imm (decode32 w) = imm_j w"
  by (simp_all add: decode32_def Let_def split: inst_type.split)

text \<open>
  The operands each execution unit reads.  A shift reads six bits of its immediate; OP and
  OP-32 treat the two function codes of the base set alike and tell them apart by bit 30 of
  the instruction word.
\<close>

definition same_operands :: "decoded \<Rightarrow> decoded \<Rightarrow> bool" where
  "same_operands d e \<longleftrightarrow> op_fun d = op_fun e \<and> (case op_fun d of
       OP_IMM \<Rightarrow> rd d = rd e \<and> rs1 d = rs1 e \<and> funct3 d = funct3 e \<and>
         (imm d = imm e \<or> funct3 d = 0b101 \<and> imm d AND 0b111111 = imm e AND 0b111111)
     | OP_IMM_32 \<Rightarrow> rd d = rd e \<and> rs1 d = rs1 e \<and> funct3 d = funct3 e \<and> imm d = imm e
     | LOAD \<Rightarrow> rd d = rd e \<and> rs1 d = rs1 e \<and> funct3 d = funct3 e \<and> imm d = imm e
     | JALR \<Rightarrow> rd d = rd e \<and> rs1 d = rs1 e \<and> imm d = imm e
     | STORE \<Rightarrow> rs1 d = rs1 e \<and> rs2 d = rs2 e \<and> funct3 d = funct3 e \<and> imm d = imm e
     | BRANCH \<Rightarrow> rs1 d = rs1 e \<and> rs2 d = rs2 e \<and> funct3 d = funct3 e \<and> imm d = imm e
     | OP \<Rightarrow> rd d = rd e \<and> rs1 d = rs1 e \<and> rs2 d = rs2 e \<and> funct3 d = funct3 e \<and>
         funct7 d \<in> {0, 0b0100000} \<and> funct7 e \<in> {0, 0b0100000}
     | OP_32 \<Rightarrow> rd d = rd e \<and> rs1 d = rs1 e \<and> rs2 d = rs2 e \<and> funct3 d = funct3 e \<and>
         funct7 d \<in> {0, 0b0100000} \<and> funct7 e \<in> {0, 0b0100000}
     | LUI \<Rightarrow> rd d = rd e \<and> imm d = imm e
     | JAL \<Rightarrow> rd d = rd e \<and> imm d = imm e
     | _ \<Rightarrow> False)"

lemma op_imm_shift_cong: "im AND 0b111111 = im' AND 0b111111 \<Longrightarrow> op_imm_val 0b101 b a im = op_imm_val 0b101 b a im'"
  by (simp add: op_imm_val_def)

lemma exec_op_imm_cong:
  "rd d = rd e \<Longrightarrow> rs1 d = rs1 e \<Longrightarrow> funct3 d = funct3 e \<Longrightarrow>
    imm d = imm e \<or> funct3 d = 0b101 \<and> imm d AND 0b111111 = imm e AND 0b111111 \<Longrightarrow>
    exec_op_imm d = exec_op_imm e"
  using op_imm_shift_cong[of "imm d" "imm e"] by (auto simp: exec_op_imm_def fun_eq_iff)

lemma exec_branch_cong:
  "rs1 d = rs1 e \<Longrightarrow> rs2 d = rs2 e \<Longrightarrow> funct3 d = funct3 e \<Longrightarrow> imm d = imm e \<Longrightarrow>
    exec_branch d = exec_branch e"
  by (simp add: exec_branch_def fun_eq_iff)

lemma exec_op_cong:
  assumes "rd d = rd e" "rs1 d = rs1 e" "rs2 d = rs2 e" "funct3 d = funct3 e"
    and "funct7 d \<in> {0, 0b0100000}" "funct7 e \<in> {0, 0b0100000}"
  shows "exec_op d = exec_op e" "exec_op_32 d = exec_op_32 e"
  using assms by (auto simp: exec_op_def exec_op_32_def fun_eq_iff)

lemma exec_rest_cong:
  assumes "rd d = rd e" "imm d = imm e"
  shows "exec_lui d = exec_lui e" "exec_jal d = exec_jal e"
    "rs1 d = rs1 e \<Longrightarrow> exec_jalr d = exec_jalr e"
    "rs1 d = rs1 e \<Longrightarrow> funct3 d = funct3 e \<Longrightarrow> exec_op_imm_32 d = exec_op_imm_32 e"
    "rs1 d = rs1 e \<Longrightarrow> funct3 d = funct3 e \<Longrightarrow> exec_load h d = exec_load h e"
  using assms
  by (simp_all add: exec_lui_def exec_jal_def exec_jalr_def exec_op_imm_32_def exec_load_def fun_eq_iff)

lemma exec_store_cong:
  "rs1 d = rs1 e \<Longrightarrow> rs2 d = rs2 e \<Longrightarrow> funct3 d = funct3 e \<Longrightarrow> imm d = imm e \<Longrightarrow>
    exec_store h d = exec_store h e"
  by (simp add: exec_store_def fun_eq_iff Let_def)

lemma exec_same_operands:
  assumes "same_operands d e"
  shows "exec h d m = exec h e m"
proof -
  have o: "op_fun e = op_fun d" using assms by (simp add: same_operands_def)
  show ?thesis
    using assms exec_op_imm_cong[of d e] exec_branch_cong[of d e] exec_op_cong[of d e]
      exec_rest_cong[of d e] exec_store_cong[of d e]
    by (cases "op_fun d") (auto simp: exec_def same_operands_def o)
qed

subsection \<open>Compressed instructions execute as their expansions\<close>

text \<open>The execution units that read bit 30 of the instruction word.\<close>

definition reads_bit30 :: "decoded \<Rightarrow> bool" where
  "reads_bit30 d \<longleftrightarrow> op_fun d \<in> {OP_IMM, OP_IMM_32} \<and> funct3 d = 0b101
     \<or> op_fun d \<in> {OP, OP_32} \<and> funct3 d \<in> {0b000, 0b101}"

definition executes_as :: "u32 \<Rightarrow> asm \<Rightarrow> bool" where
  "executes_as w a \<longleftrightarrow> (case decode16 w of None \<Rightarrow> False | Some d \<Rightarrow>
     same_operands d (decode32 (assemble a)) \<and>
     (reads_bit30 d \<longrightarrow> bit (dinst d) 30 = bit (assemble a) 30))"

lemma opc_numerals:
  "opc_op 0b0010011 = OP_IMM" "opc_op 0b0000011 = LOAD" "opc_op 0b0100011 = STORE"
  "opc_op 0b0011011 = OP_IMM_32" "opc_op 0b0110111 = LUI" "opc_op 0b0110011 = OP"
  "opc_op 0b0111011 = OP_32" "opc_op 0b1101111 = JAL" "opc_op 0b1100011 = BRANCH"
  "opc_op 0b1100111 = JALR"
  by (simp_all add: opc_op_def inst_op_32_enum_def)

lemmas c_decode = decode16_def casm_index inst_op_16_enum_def dec16_op_def dec16_base_def dec_misc_alu_def
  dec_c_jalr_def casm_regs3 casm_regs5 casm_select casm_bits casm_not_ebreak

lemma asm_bit30:
  "bit (asm_r opc d f3 s1 s2 f7) 30 = bit f7 5" "bit (asm_i opc d f3 s1 im) 30 = bit im 10"
  by (simp_all add: asm_defs cbits)

lemma srai_shamt: "scast (ucast i6 :: 12 word) AND 0b111111 = (scast (ucast (i6 :: 6 word) OR 1024 :: 12 word) AND 0b111111 :: u64)"
  by (rule low_high_eqI) (simp_all add: imm_simps cbits)

lemmas c_expand = decode32_fields op32_of_asm opc_numerals asm_fields asm_functs
  asm_i_imm asm_s_imm asm_b_imm asm_u_imm asm_j_imm

lemmas c_imms = casm_imm casm_shamt casm_simm casm_offset

lemma executes_as_expansion: "cwf c \<Longrightarrow> executes_as (casm c) (cexpand c)"
  by (cases c)
    (simp_all add: executes_as_def same_operands_def reads_bit30_def c_decode c_expand c_imms Let_def
      bit_bmask bit_or_iff bit_and_iff bit_not_iff asm_bit30 srai_shamt bit_ucast_iff bit_short)

text \<open>
  C13. Every compressed instruction of the integer set (the manual's RV64C without floating point
  and C.EBREAK, reserved encodings excepted) is decoded, and the hart executes what the decoder
  returns, in every state, exactly as it executes the decoding of the 32-bit instruction the
  manual expands it to; where the execution reads bit 30 of the instruction word, that bit is the
  expansion's too.
\<close>

lemma compressed_expansion:
  assumes "cwf c"
  shows "\<exists>d. decode16 (casm c) = Some d
    \<and> (reads_bit30 d \<longrightarrow> bit (dinst d) 30 = bit (assemble (cexpand c)) 30)
    \<and> (\<forall>h m. exec h d m = exec h (decode32 (assemble (cexpand c))) m)"
  using executes_as_expansion[OF assms] exec_same_operands
  by (cases "decode16 (casm c)") (simp_all add: executes_as_def)

text \<open>\<open>lw a0,12(sp)\<close>, compressed and not.\<close>

lemma lwsp_words: "casm (CLwsp 10 3) = 0x4532" "assemble (cexpand (CLwsp 10 3)) = 0x00c12503"
  by (simp_all add: casm.simps cbase_def at_def scatter.simps asm_i_def push_bit_eq_mult)

lemma compressed_expansion_witness:
  "\<exists>d. decode16 0x4532 = Some d \<and> (\<forall>h m. exec h d m = exec h (decode32 0x00c12503) m)"
  using compressed_expansion[of "CLwsp 10 3"] unfolding lwsp_words by fastforce

end
