(* ===== verification/Access.thy ===== *)
theory Access
  imports Cpu
begin

text \<open>
  What the memory instructions of \<open>decode_exc\<close> (\<open>cpu.cpp\<close>) do when nothing is in their way: in
  machine mode, without translation, on RAM the protection grants.  Loads, stores and atomics are
  put together here from the executed operation down to the bytes of the RAM.  At the end, what
  the protection promises of the accesses it denies.
\<close>

subsection \<open>Direct access\<close>

definition direct :: "nat \<Rightarrow> nat \<Rightarrow> u64 \<Rightarrow> Machine \<Rightarrow> bool" where
  "direct h n a m \<longleftrightarrow> h < length (hartlist m) \<and> n \<le> 8 \<and> privmode (hart h m) = 3
     \<and> \<not> mprv_active (hart h m) \<and> \<not> page_fault (hart h m) \<and> ram_access_ok n a m
     \<and> mem_access_ok h 0 n a m \<and> mem_access_ok h 1 n a m"

lemma protection_cong:
  assumes "privmode s = privmode t" "pmp_expanded s = pmp_expanded t" "pmp_all_enabled s = pmp_all_enabled t"
    and "min_lbound s = min_lbound t" "max_ubound s = max_ubound t"
  shows "range_check s p lo hi = range_check t p lo hi" "byte_check s p lo hi = byte_check t p lo hi"
proof -
  have "chk_pmp_range_exp_loop s lo hi is = chk_pmp_range_exp_loop t lo hi is" for "is"
    by (induction "is") (simp_all add: Let_def assms)
  then show "range_check s p lo hi = range_check t p lo hi"
    by (simp add: range_check_def range_grants_def chk_pmp_range_exp_def assms)
  have "chk_pmp_exp_loop s lo is = chk_pmp_exp_loop t lo is" for "is"
    by (induction "is") (simp_all add: Let_def assms)
  then show "byte_check s p lo hi = byte_check t p lo hi"
    by (simp add: byte_check_def byte_grants_def chk_pmp_exp_def assms)
qed

lemma direct_upd:
  assumes d: "direct h n a m"
    and "privmode (f (hart h m)) = privmode (hart h m)" "pmp_expanded (f (hart h m)) = pmp_expanded (hart h m)"
    "pmp_all_enabled (f (hart h m)) = pmp_all_enabled (hart h m)"
    "min_lbound (f (hart h m)) = min_lbound (hart h m)" "max_ubound (f (hart h m)) = max_ubound (hart h m)"
    "mstatus (f (hart h m)) = mstatus (hart h m)" "page_fault (f (hart h m)) = page_fault (hart h m)"
  shows "direct h n a (upd_hart h f m)"
proof -
  have h: "h < length (hartlist m)" using d by (simp add: direct_def)
  have "mem_access_ok h b n a (upd_hart h f m) = mem_access_ok h b n a m" for b
    using h protection_cong[OF assms(2-6)] by (simp add: mem_access_ok_def mem_in_range_def)
  moreover have "mprv_active (f (hart h m)) = mprv_active (hart h m)"
    using assms(7) by (simp add: mprv_active_def mpp_def)
  moreover have "ram_access_ok n a (upd_hart h f m) = ram_access_ok n a m"
    by (simp add: ram_access_ok_def ram_ok_def)
  ultimately show ?thesis using assms h by (simp add: direct_def)
qed

lemma set_reg_fields [simp]:
  "privmode (set_reg r v s) = privmode s" "pmp_expanded (set_reg r v s) = pmp_expanded s"
  "pmp_all_enabled (set_reg r v s) = pmp_all_enabled s" "min_lbound (set_reg r v s) = min_lbound s"
  "max_ubound (set_reg r v s) = max_ubound s" "mstatus (set_reg r v s) = mstatus s"
  "page_fault (set_reg r v s) = page_fault s" "mem_status (set_reg r v s) = mem_status s"
  "regs (set_reg r v s) = (regs s)(r := v)"
  by (simp_all add: set_reg_def)

lemma regs_status [simp]: "regs (set_mem_status b s) = regs s"
  by (simp add: set_mem_status_def)

lemma direct_status [simp]: "direct h n a m \<Longrightarrow> direct h n a (upd_hart h (set_mem_status b) m)"
  by (rule direct_upd) simp_all

lemma direct_set_reg [simp]: "direct h n a m \<Longrightarrow> direct h n a (upd_hart h (set_reg r v) m)"
  by (rule direct_upd) simp_all

lemma ram_st_fields [simp]:
  "hart h (ram_st n a d m) = hart h m" "hartlist (ram_st n a d m) = hartlist m"
  "upd_hart h f (ram_st n a d m) = ram_st n a d (upd_hart h f m)"
  by (simp_all add: ram_st_def hart_def upd_hart_def)

lemma ram_ld_upd [simp]: "ram_ld n a (upd_hart h f m) = ram_ld n a m"
  by (simp add: ram_ld_def)

lemma direct_st [simp]: "direct h n a (ram_st k b d m) = direct h n a m"
  by (simp add: direct_def mem_access_ok_def mem_in_range_def)
    (simp add: ram_st_def)

lemma fetch_direct:
  assumes d: "direct h n a m" and s: "mem_status (hart h m)"
  shows "virt_mem_fetch h n a m = Some (ram_ld n a m, upd_hart h (set_mem_status False) m)"
proof -
  have "direct h n a (upd_hart h (set_mem_status False) m)" using d by simp
  then have "phy_mem_fetch n a (upd_hart h (set_mem_status False) m) =
      Some (ram_ld n a m, upd_hart h (set_mem_status False) m)"
    by (simp add: direct_def phy_mem_fetch_ram)
  then show ?thesis using d s by (simp add: virt_mem_fetch_def Let_def direct_def mem_fetch_cases)
qed

lemma store_direct:
  assumes d: "direct h n a m"
  shows "virt_mem_store h n a v m = Some (ram_st n a v (upd_hart h (set_mem_status False) m))"
proof -
  have "direct h n a (upd_hart h (set_mem_status False) m)" using d by simp
  then have "phy_mem_store n a v (upd_hart h (set_mem_status False) m) =
      Some (ram_st n a v (upd_hart h (set_mem_status False) m))"
    by (simp add: direct_def phy_mem_store_ram)
  then show ?thesis using d by (simp add: virt_mem_store_def Let_def direct_def mem_store_cases)
qed

lemma handle_mem_error_direct:
  "direct h n a m \<Longrightarrow> \<not> mem_status (hart h m) \<Longrightarrow> handle_mem_error h x y t m k = k m"
  by (simp add: handle_mem_error_def direct_def Let_def)

subsection \<open>Loads and stores\<close>

lemma exec_load_direct:
  assumes f: "n = 2 ^ unat (funct3 d AND 0b11)" and a: "a = regs (hart h m) (rs1 d) + imm d"
    and d: "direct h n a m"
  shows "exec_load h d m = Some (Done False,
    upd_hart h (\<lambda>s. set_reg (rd d) (if bit (funct3 d) 2 then ram_ld n a m else sext_bytes n (ram_ld n a m))
      (set_mem_status False s)) m)"
proof -
  have h: "h < length (hartlist m)" using d by (simp add: direct_def)
  have "virt_mem_fetch h n a (upd_hart h (set_mem_status True) m) =
      Some (ram_ld n a m, upd_hart h (set_mem_status False) m)"
    using fetch_direct[of h n a "upd_hart h (set_mem_status True) m"] d h by simp
  then show ?thesis
    using d h handle_mem_error_direct[of h n a "upd_hart h (set_mem_status False) m"]
    by (simp add: exec_load_def f[symmetric] a[symmetric] Let_def)
qed

lemma exec_store_direct:
  assumes f: "funct3 d < 4" "n = 2 ^ unat (funct3 d)" and a: "a = regs (hart h m) (rs1 d) + imm d"
    and d: "direct h n a m"
  shows "exec_store h d m = Some (Done False,
    ram_st n a (regs (hart h m) (rs2 d)) (upd_hart h (set_mem_status False) m))"
proof -
  have h: "h < length (hartlist m)" using d by (simp add: direct_def)
  have "virt_mem_store h n a v (upd_hart h (set_mem_status False) m) =
      Some (ram_st n a v (upd_hart h (set_mem_status False) m))" for v
    using store_direct[of h n a "upd_hart h (set_mem_status False) m"] d by simp
  then show ?thesis
    using d h f(1) handle_mem_error_direct[of h n a "ram_st n a (regs (hart h m) (rs2 d)) (upd_hart h (set_mem_status False) m)"]
    by (simp add: exec_store_def f(2)[symmetric] a[symmetric] Let_def)
qed


text \<open>
  C6. What SB to SD store, LB to LD and LBU to LWU load: in machine mode without MPRV, on an
  unprotected range of the RAM, a store instruction followed by a load instruction of the same
  width to the same address puts the low bytes of the stored register into the destination,
  sign-extended or zero-extended as the load says, and changes no other register.
\<close>

lemma store_then_load:
  assumes store: "op_fun ds = STORE" "funct3 ds < 4" "a = regs (hart h m) (rs1 ds) + imm ds"
    and load: "op_fun dl = LOAD" "funct3 dl AND 0b11 = funct3 ds" "a = regs (hart h m) (rs1 dl) + imm dl"
    and d: "direct h (2 ^ unat (funct3 ds)) a m"
  shows "\<exists>m1 m2. exec h ds m = Some (Done False, m1) \<and> exec h dl m1 = Some (Done False, m2)
    \<and> regs (hart h m2) = (regs (hart h m))(rd dl :=
        (let v = regs (hart h m) (rs2 ds) AND mask (8 * 2 ^ unat (funct3 ds))
         in if bit (funct3 dl) 2 then v else sext (8 * 2 ^ unat (funct3 ds)) v))"
proof -
  define n :: nat where "n = 2 ^ unat (funct3 ds)"
  define m1 where "m1 = ram_st n a (regs (hart h m) (rs2 ds)) (upd_hart h (set_mem_status False) m)"
  have dn: "direct h n a m" using d by (simp add: n_def)
  then have h: "h < length (hartlist m)" and n: "n \<le> 8" by (simp_all add: direct_def)
  have s: "exec h ds m = Some (Done False, m1)"
    using exec_store_direct[OF store(2) n_def store(3) dn] store(1) by (simp add: exec_def m1_def)
  have d1: "direct h n a m1" using dn by (simp add: m1_def)
  have r: "regs (hart h m1) = regs (hart h m)" using h by (simp add: m1_def)
  have l: "ram_ld n a m1 = regs (hart h m) (rs2 ds) AND mask (8 * n)"
    using dn n unfolding m1_def direct_def by (intro ram.ld_st_same) (simp_all add: ram_access_ok_def ram_ok_def)
  have nl: "n = 2 ^ unat (funct3 dl AND 0b11)" by (simp add: n_def load(2))
  have e: "exec h dl m1 = Some (Done False, upd_hart h (\<lambda>s. set_reg (rd dl)
      (if bit (funct3 dl) 2 then ram_ld n a m1 else sext_bytes n (ram_ld n a m1)) (set_mem_status False s)) m1)"
    using exec_load_direct[OF nl _ d1] load(1,3) r by (simp add: exec_def)
  have h1: "h < length (hartlist m1)" using h by (simp add: m1_def)
  show ?thesis
    using s e h1 r by (simp add: l sext_bytes_def n_def[symmetric] Let_def)
qed

subsection \<open>Atomics\<close>

text \<open>The nine operations of the A extension, at the width of the operation.\<close>

definition amo_spec :: "u8 \<Rightarrow> 'a::len word \<Rightarrow> 'a word \<Rightarrow> 'a word" where
  "amo_spec funct5 old src =
    (if funct5 = 0b00001 then src
     else if funct5 = 0b00000 then old + src
     else if funct5 = 0b00100 then old XOR src
     else if funct5 = 0b01100 then old AND src
     else if funct5 = 0b01000 then old OR src
     else if funct5 = 0b10000 then (if sint old < sint src then old else src)
     else if funct5 = 0b10100 then (if sint src < sint old then old else src)
     else if funct5 = 0b11000 then (if old < src then old else src)
     else if funct5 = 0b11100 then (if src < old then old else src)
     else old)"

lemma lo32_zx32 [simp]: "lo32 (zx32 w) = w"
  by (rule bit_word_eqI) (simp add: lo32_def zx32_def bit_simps)

lemma lo32_ops:
  "lo32 (a + b) = lo32 a + lo32 b" "lo32 (a XOR b) = lo32 a XOR lo32 b"
  "lo32 (a AND b) = lo32 a AND lo32 b" "lo32 (a OR b) = lo32 a OR lo32 b"
proof -
  show "lo32 (a + b) = lo32 a + lo32 b"
    unfolding lo32_def
    by (simp add: word_unat_eq_iff unat_word_ariths unsigned_ucast_eq take_bit_eq_mod mod_simps mod_mod_cancel)
qed (simp_all add: lo32_def bit_eq_iff bit_simps)

lemma slt_sx32: "slt (sx32 a) (sx32 b) \<longleftrightarrow> sint a < sint b"
  by (simp add: slt_def sx32_def sint_up_scast is_up)

lemma zx32_less: "zx32 a < zx32 b \<longleftrightarrow> a < b"
proof -
  have "unat (zx32 w) = unat w" for w
    by (rule bit_eqI) (auto simp: zx32_def bit_simps dest: bit_imp_le_length)
  then show ?thesis by (simp add: word_less_nat_alt)
qed

lemma amo_result_32:
  "lo32 (amo_result f (sx32 a) (sx32 b) (zx32 a) (zx32 b)) = amo_spec f a b"
  by (simp add: amo_result_def amo_spec_def lo32_ops slt_sx32 zx32_less)

lemma amo_result_64: "amo_result f a b a b = amo_spec f a b"
  by (auto simp: amo_result_def amo_spec_def slt_def)

lemma exec_amo_direct:
  assumes f5: "drop_bit 2 (funct7 d) \<notin> {0b00010, 0b00011}" and a: "a = regs (hart h m) (rs1 d)"
    and d: "direct h (amo_size d) a m" and x: "x = ram_ld (amo_size d) a m" and y: "y = regs (hart h m) (rs2 d)"
  shows "exec_amo h d m = Some (Done False, ram_st (amo_size d) a
      (amo_result (drop_bit 2 (funct7 d)) (amo_signed d x) (amo_signed d y) (amo_unsigned d x) (amo_unsigned d y))
      (upd_hart h (\<lambda>s. set_mem_status False (set_reg (rd d) (amo_signed d x) (set_reg (rd d) x (set_mem_status False s)))) m))"
proof -
  define n where "n = amo_size d"
  have dn: "direct h n a m" using d by (simp add: n_def)
  then have h: "h < length (hartlist m)" by (simp add: direct_def)
  let ?m1 = "upd_hart h (set_mem_status False) m"
  let ?m2 = "upd_hart h (set_reg (rd d) x) ?m1"
  let ?m3 = "upd_hart h (set_reg (rd d) (amo_signed d x)) ?m2"
  let ?m4 = "upd_hart h (set_mem_status False) ?m3"
  have fetch: "virt_mem_fetch h n a (upd_hart h (set_mem_status True) m) = Some (x, ?m1)"
    using fetch_direct[of h n a "upd_hart h (set_mem_status True) m"] dn h x by (simp add: n_def)
  have d2: "direct h n a ?m2" and d4: "direct h n a ?m4"
    using dn by (simp_all only: direct_status direct_set_reg)
  have e1: "exec_amo h d m = handle_mem_error h SAFAULT SPFAULT a ?m2 (amo_commit h d a y x)"
    using f5 fetch by (simp add: exec_amo_def n_def[symmetric] a[symmetric] y[symmetric] Let_def)
  also have "\<dots> = amo_commit h d a y x ?m2"
    by (rule handle_mem_error_direct[OF d2]) (use h in simp)
  finally have e: "exec_amo h d m = amo_commit h d a y x ?m2" .
  show ?thesis
    using f5 store_direct[OF d4] h handle_mem_error_direct[of h n a "ram_st n a _ ?m4"] d4
    unfolding e amo_commit_def Let_def n_def[symmetric]
    by simp
qed

lemma mask_lo32: "lo32 (v AND mask 32) = lo32 v"
  by (rule bit_word_eqI) (simp add: lo32_def bit_simps)

text \<open>
  C19. An atomic memory operation of either width reads, modifies and writes in one step: in
  machine mode without MPRV, on an unprotected range of the RAM, the destination receives the old
  value (sign-extended), the memory the result of the operation at the operation's own width,
  although the code computes it in 64 bits, and every disjoint range of the RAM keeps its bytes.
\<close>

lemma amo_updates:
  assumes amo: "op_fun d = AMO" "drop_bit 2 (funct7 d) \<notin> {0b00010, 0b00011}"
    and a: "a = regs (hart h m) (rs1 d)" and d: "direct h (amo_size d) a m"
  shows "\<exists>m'. exec h d m = Some (Done False, m')
    \<and> regs (hart h m') = (regs (hart h m))(rd d := amo_signed d (ram_ld (amo_size d) a m))
    \<and> (if funct3 d = 0b010
       then lo32 (ram_ld 4 a m') = amo_spec (drop_bit 2 (funct7 d)) (lo32 (ram_ld 4 a m)) (lo32 (regs (hart h m) (rs2 d)))
       else ram_ld 8 a m' = amo_spec (drop_bit 2 (funct7 d)) (ram_ld 8 a m) (regs (hart h m) (rs2 d)))
    \<and> (\<forall>k b. k \<le> 8 \<longrightarrow> ram_access_ok k b m \<longrightarrow> ranges_disjoint (amo_size d) a k b \<longrightarrow> ram_ld k b m' = ram_ld k b m)"
proof -
  define n where "n = amo_size d"
  define x where "x = ram_ld n a m"
  define y where "y = regs (hart h m) (rs2 d)"
  define v where "v = amo_result (drop_bit 2 (funct7 d)) (amo_signed d x) (amo_signed d y) (amo_unsigned d x) (amo_unsigned d y)"
  define f where "f s = set_mem_status False (set_reg (rd d) (amo_signed d x) (set_reg (rd d) x (set_mem_status False s)))" for s
  define m' where "m' = ram_st n a v (upd_hart h f m)"
  have dn: "direct h n a m" using d by (simp add: n_def)
  then have h: "h < length (hartlist m)" and n: "n \<le> 8" and ok: "ram_access_ok n a (upd_hart h f m)"
    by (simp_all add: direct_def ram_access_ok_def ram_ok_def)
  have e: "exec h d m = Some (Done False, m')"
    using exec_amo_direct[OF amo(2) a d] amo(1) by (simp add: exec_def m'_def v_def f_def[abs_def] x_def y_def n_def)
  have r: "regs (hart h m') = (regs (hart h m))(rd d := amo_signed d x)"
    using h by (simp add: m'_def f_def)
  have l: "ram_ld n a m' = v AND mask (8 * n)" unfolding m'_def by (rule ram.ld_st_same[OF ok n])
  have "if funct3 d = 0b010 then lo32 (ram_ld 4 a m') = amo_spec (drop_bit 2 (funct7 d)) (lo32 x) (lo32 y)
      else ram_ld 8 a m' = amo_spec (drop_bit 2 (funct7 d)) x y"
  proof (cases "funct3 d = 0b010")
    case True
    then have "n = 4" "v = amo_result (drop_bit 2 (funct7 d)) (sx32 (lo32 x)) (sx32 (lo32 y)) (zx32 (lo32 x)) (zx32 (lo32 y))"
      by (simp_all add: n_def amo_size_def v_def amo_signed_def amo_unsigned_def)
    then show ?thesis using True l by (simp add: mask_lo32 amo_result_32)
  next
    case False
    then have "n = 8" "v = amo_result (drop_bit 2 (funct7 d)) x y x y"
      by (simp_all add: n_def amo_size_def v_def amo_signed_def amo_unsigned_def)
    moreover have "v AND mask 64 = v" by (rule bit_word_eqI) (simp add: bit_simps)
    ultimately show ?thesis using False l by (simp add: amo_result_64)
  qed
  moreover have "ram_ld k b m' = ram_ld k b m" if "k \<le> 8" "ram_access_ok k b m" "ranges_disjoint n a k b" for k b
  proof -
    have "ram_access_ok k b (upd_hart h f m)" using that(2) by (simp add: ram_access_ok_def ram_ok_def)
    from ram.ld_st_disjoint[OF ok n this that(1,3)] show ?thesis by (simp add: m'_def)
  qed
  moreover have "funct3 d = 0b010 \<Longrightarrow> n = 4" "funct3 d \<noteq> 0b010 \<Longrightarrow> n = 8"
    by (simp_all add: n_def amo_size_def)
  ultimately show ?thesis
    using e r by (intro exI[of _ m']) (auto simp: x_def y_def n_def[symmetric])
qed

subsection \<open>Denied accesses\<close>

text \<open>
  A hart whose PMP unit is in the state the last write of a configuration register left it in:
  its checks follow the rule for the whole access, or take the shortcut.
\<close>

lemma pmp_regs_synced:
  assumes "pmp_regs hs = pmp_regs (sync_exp_pmp s)"
  shows "pmp_synced hs" and "pmp_fast hs lo hi = pmp_bypass hs lo hi"
proof -
  have f: "pmpcfg hs = pmpcfg (sync_exp_pmp s)" "pmpaddr hs = pmpaddr (sync_exp_pmp s)"
    "pmp_expanded hs = pmp_expanded (sync_exp_pmp s)" "pmp_all_enabled hs = pmp_all_enabled (sync_exp_pmp s)"
    "min_lbound hs = min_lbound (sync_exp_pmp s)" "max_ubound hs = max_ubound (sync_exp_pmp s)"
    using assms by (simp_all add: pmp_regs_def)
  have b: "pmp_bounds hs = pmp_bounds (sync_exp_pmp s)" "pmp_bounds hs = pmp_bounds s"
    by (rule ext, simp add: pmp_bounds_def f)+
  have "pmp_synced (sync_exp_pmp s)" by (rule sync_exp_pmp_synced)
  then show "pmp_synced hs"
    by (simp only: pmp_synced_def entry_synced_def entry_in_range_def f b(1))
  have "pmp_bypass hs lo hi = pmp_bypass s lo hi"
    by (simp add: pmp_bypass_def pmp_opens_all_def pmp_restricts_def b(2) f list_ex_iff)
  then show "pmp_fast hs lo hi = pmp_bypass hs lo hi"
    using pmp_fast_bypass[of s lo hi] by (simp add: pmp_fast_def f)
qed

text \<open>
  C7. An access the PMP rules deny has no effect: it reports an access fault in \<open>mem_status\<close>, a
  read returns 0, and neither the RAM nor any device changes.  This holds for a hart in user,
  supervisor or machine mode that has written a PMP configuration register and no PMP register
  since; the access, of at most eight bytes, lies within two words.  It is denied if the
  first-match rule over all its bytes denies it and the shortcut for accesses outside every
  restricting entry does not apply.  After a reset, or after a write of an address register
  alone, the table the checks use is stale and nothing of the kind is promised.
\<close>

lemma denied_access_no_effect:
  assumes csr: "exec_csr t d s = Some (Return NOEXC, s0)" "0x3A0 \<le> csr_number d" "csr_number d < 0x3B0"
    and last: "pmp_regs (hart h m) = pmp_regs s0"
    and mode: "privmode (hart h m) \<le> 1 \<or> privmode (hart h m) = 3" and ok: "pmp_addrs_ok (hart h m)"
    and n: "0 < n" "unat addr mod 4 + n \<le> 8" "unat addr + n < 2 ^ 64"
  shows "(\<not> pmp_rule (hart h m) 1 addr n \<and> \<not> pmp_bypass (hart h m) addr (addr + of_nat (n - 1)) \<longrightarrow>
      mem_store h n addr v m = Some (upd_hart h (set_mem_status True) m))
    \<and> (\<not> pmp_rule (hart h m) (if mem_status (hart h m) then 0 else 2) addr n
        \<and> \<not> pmp_bypass (hart h m) addr (addr + of_nat (n - 1)) \<longrightarrow>
      mem_fetch h n addr m = Some (0, upd_hart h (set_mem_status True) m))"
proof -
  let ?hs = "hart h m" and ?hi = "addr + of_nat (n - 1)"
  obtain s' where s': "pmp_regs ?hs = pmp_regs (sync_exp_pmp s')"
    using pmpcfg_write_syncs[OF csr] last by auto
  note sync = pmp_regs_synced[OF s']
  have p3: "privmode ?hs \<le> 3" using mode order_trans[of _ 1 "3 :: u8"] by (auto simp: word_le_nat_alt)
  have hi: "addr + of_nat n - 1 = ?hi" using n(1) by (simp add: of_nat_diff)
  have top: "addr \<noteq> 0xffffffffffffffff"
  proof
    assume "addr = 0xffffffffffffffff"
    then have "unat addr = 2 ^ 64 - 1" by simp
    then show False using n(1,3) by linarith
  qed
  have "pmp_rule ?hs b addr n \<or> pmp_bypass ?hs addr ?hi" if a: "mem_access_ok h b n addr m" and b: "b < 3" for b
  proof (cases "n = 1")
    case True
    have "pmp_spec ?hs b addr addr"
      using a byte_exp_spec[OF sync(1) mode b top] by (simp add: True mem_access_ok_def byte_check_def)
    then show ?thesis by (simp add: True pmp_rule_byte del: One_nat_def)
  next
    case False
    then have g: "range_grants ?hs b (chk_pmp_range_exp ?hs addr ?hi)"
      using a by (simp add: mem_access_ok_def range_check_def hi)
    show ?thesis
    proof (cases "pmp_fast ?hs addr ?hi")
      case True
      then show ?thesis by (simp add: sync(2))
    next
      case False
      then show ?thesis using g range_exp_slow[OF sync(1) False p3 b] pmp_rule_ends[OF ok n(2,3,1), of b] by simp
    qed
  qed
  from this[of 1] this[of 0] this[of 2] show ?thesis unfolding mem_store_cases mem_fetch_cases by auto
qed

end
