(* ===== verification/Spec2Isabelle.thy ===== *)
theory Spec2Isabelle
  imports Boot Rvc Access
begin

text \<open>
  \<^bold>\<open>rv-emu, an RV64IMAC emulator: verification development\<close>

  The program (C++, under \<open>src/\<close>) emulates a multi-hart RISC-V machine with M, S and U mode,
  physical memory protection, Sv39/48/57 translation with a TLB, an ACLINT, a PLIC, a UART and an
  unfinished virtio block device.  \<open>main\<close> parses the options, initialises harts and devices, loads
  the images and starts one thread per hart (\<open>hart_loop\<close>, which calls \<open>cycle\<close> until told to stop)
  and one for the UART's transmitter; the main thread polls the devices until an interrupt, joins
  the threads and writes the requested files.

  \<^bold>\<open>Theories.\<close>
  \<^item> \<open>Prelude\<close>: machine integers, partial operations (\<open>guard\<close>, \<open>nth_opt\<close>, \<open>upd_opt\<close>, \<open>for_each\<close>),
    bit-level lemmas, the collections \<open>bits\<close> and \<open>model\<close>.
  \<^item> \<open>Hart\<close>: \<open>HartState\<close>, TLB and PMP entries, exceptions (\<open>cpu.h\<close>), \<open>reset_state\<close>, \<open>hart_init\<close>.
  \<^item> \<open>Decode\<close>: the decoding half of \<open>decode_exc\<close> (\<open>cpu.cpp\<close>); an assembler as its reference.
  \<^item> \<open>Alu\<close>: register-only instructions.  \<open>Csr\<close>: SYSTEM instructions, CSRs, \<open>pmpcfg_rw\<close>.
  \<^item> \<open>Trap\<close>: \<open>create_exception\<close>, \<open>setup_pending_int\<close> (\<open>hartexc.cpp\<close>), MRET, SRET; the reference for
    interrupts is \<open>int_enabled\<close> on cause numbers in a fixed order.
  \<^item> \<open>Pmp\<close>: \<open>chk_pmp\<close>, \<open>chk_pmp_range\<close>, their expanded variants and \<open>sync_exp_pmp\<close> (\<open>mem.cpp\<close>); the
    references are \<open>pmp_spec\<close> (a byte, or the two ends of an access) and \<open>pmp_rule\<close> (all bytes of an
    access), the first-match rule on the configuration registers.  \<open>pmp_bypass\<close> is the shortcut of
    the checks.
  \<^item> \<open>Tlb\<close>: \<open>tlb_hash\<close>, \<open>tlb_add\<close>, \<open>tlb_clear\<close>; interface \<open>translation_cache\<close>.
  \<^item> \<open>Machine\<close>: all global variables as one record; frames; interface \<open>mmio_device\<close>.
  \<^item> \<open>Aclint\<close>, \<open>Plic\<close>, \<open>Uart\<close>, \<open>Virtio\<close>: one device each, each an interpretation of \<open>mmio_device\<close>.
  \<^item> \<open>Physmem\<close>: memory map, RAM, boot ROM and device tree window (\<open>mem.h\<close>, \<open>mem.cpp\<close>), the protected
    accesses of \<open>mem.ipp\<close>; interfaces \<open>byte_memory\<close> (the RAM) and \<open>access_checker\<close> (the PMP unit).
  \<^item> \<open>Mmu\<close>: \<open>tlb_find\<close>, \<open>page_table_walk\<close>, \<open>virt_mem_fetch\<close>, \<open>virt_mem_store\<close>; the reference is
    \<open>sv_address\<close>, the translation of the privileged manual, written without the code's masks;
    \<open>sv_walk\<close> is the code's own search as a pure function.
  \<^item> \<open>Cpu\<close>: loads, stores, atomics, dispatch, \<open>fetch\<close> and \<open>cycle\<close>.
  \<^item> \<open>Rvc\<close>: the compressed instructions of the manual, an assembler for them, and their expansions.
  \<^item> \<open>Access\<close>: the memory instructions in machine mode on unprotected RAM, down to the bytes; and
    that denied accesses have no effect once the PMP table has been refreshed.
  \<^item> \<open>Loader\<close>: \<open>load_elf\<close> (\<open>elf.cpp\<close>), the signature file, \<open>dump_mem\<close>.
  \<^item> \<open>System\<close>: options, start-up and the interleaved threads of \<open>main.cpp\<close>.  \<open>Boot\<close>: the boot ROM run.
  \<^item> This theory: properties of the whole program, and the witnesses, on a machine with two harts.

  \<^bold>\<open>State and effects.\<close>  An operation of hart \<open>h\<close> maps a \<open>Machine\<close> to a \<open>Machine\<close>; record fields
  carry the names of the C++ variables.  \<^term>\<open>None\<close> is behaviour C++ leaves undefined (an access
  outside an array, a null pointer, a division the host refuses) or a wait that never ends.
  Emulated faults are values: \<open>mem_status\<close>, \<open>page_fault\<close>, \<open>HartException\<close>.  Machine integers are
  words of their width, shifts by a variable amount those of x86-64.  The threads are interleaved:
  \<open>sys_step\<close> lets one hart run one \<open>cycle\<close>, or the main loop, the transmitter, the clock or the
  signal handler make one step; \<open>sys_run\<close> is a finite run.  Within a step there is no interleaving.

  \<^bold>\<open>What is shown.\<close>  The invariant \<open>sys_inv\<close> of every reachable state and the isolation of harts;
  the boot sequence; refinement of the page-table walk, the PMP checks and the TLB, and their
  agreement; the effect of RAM accesses, loads, stores and atomics; that compressed instructions
  execute as their expansions; decode/assemble and trap/return round trips; the arithmetic of M and W instructions;
  LR/SC; the device registers; loading, the signature file, termination and shut-down; and, as
  theorems too, several places where the code departs from what it means to do.

  \<^bold>\<open>Bounds.\<close>  No fuel is used: every loop is structural or over a finite range, and the one
  unbounded loop, \<open>dump_signature_from\<close>, is a \<open>partial_function\<close> with a theorem that it returns.

  \<^bold>\<open>Not modelled.\<close>  The text printed for the user (\<open>dbg_print\<close>, \<open>dump_state\<close>, traces), terminal
  attributes, sleeps, the release of the RAM at the end (\<open>mem_free\<close>), and the compile-time
  variants that are off by default.  libelf and the files
  are the record \<open>Image\<close> and \<open>Files\<close>, the terminal's input is the argument of \<open>E_main\<close>, host time
  is \<open>system_now\<close>, uninitialised arrays are arguments of \<open>boot\<close>.  Data races inside a step and the
  host's memory model are out of scope.
\<close>

section \<open>The program as a whole\<close>

text \<open>
  C1. Every state that a booted machine can reach, whatever the interleaving of its threads, the
  terminal input, the passage of time and the interrupts from the keyboard, is in order: the
  devices, TLBs and privilege modes satisfy their invariants, no two harts hold a reservation of
  the same address, a hart thread has ended only after an interrupt, and the machine has been torn
  down only when all have ended.
\<close>

theorem booted_runs_in_order:
  assumes "boot fs openpty_ok now mswi_junk plic_junk a = Some (Inr m)"
    and "sys_run (sys_start a so m) es s"
  shows "sys_inv s"
  using sys_run_inv[OF assms(2) boot_good(2)[OF assms(1)]] .

text \<open>
  C11. A cycle of one hart leaves the machine in order and touches no other hart but for its
  pending interrupts; the sizes of the machine and the flags of the program stay as they are.
\<close>

theorem cycle_isolated:
  assumes "machine_good m" and "h < length (hartlist m)" and "cycle h m = Some (go, m')"
  shows "machine_good m' \<and> exec_frame h m m'"
  using cycle_step[OF assms] by (simp add: exec_step_def)

text \<open>
  C2. Every hart of a booted machine runs the three instructions of the boot ROM and arrives at
  the start of the RAM in machine mode, with its number in a0, the address of the device tree in
  a1 and the end of memory in sp.
\<close>

theorem boot_reaches_ram:
  assumes "boot fs openpty_ok now mswi_junk plic_junk a = Some (Inr m)"
    and "h < unat (arg_hart_count a)" and "arg_mem_size a < 0x8000000000000000"
  shows "\<exists>m'. hart_cycles 3 h m = Some (True, m') \<and> pc (hart h m') = 0x80000000
    \<and> privmode (hart h m') = 3 \<and> regs (hart h m') 10 = of_nat h \<and> regs (hart h m') 11 = 0x1100
    \<and> regs (hart h m') 2 = 0x80000000 + arg_mem_size a - 1"
proof -
  note g = boot_good[OF assms(1)]
  have h: "h < length (hartlist m)" using g(4) assms(2) by simp
  note hs = g(3)[OF assms(2)]
  have sz: "mach_mem_size m < 0x8000000000000000"
    using boot_from_hardware[OF assms(1)] assms(3) by (simp add: boot_frame_def boot_hardware_harts)
  obtain f where f: "hart_cycles 3 h m = Some (True, upd_hart h f m)" "pc (f (hart h m)) = 0x80000000"
    "privmode (f (hart h m)) = 3" "\<forall>k. k \<noteq> 0 \<longrightarrow> k \<noteq> 8 \<longrightarrow> regs (f (hart h m)) k = regs (hart h m) k"
    using rom_boots[OF h _ _ sz] hs hart_init_rom_ready by auto
  have "unat (arg_hart_count a) < 2 ^ 16" by (rule order_less_le_trans[OF unsigned_less]) simp
  then have "unat (of_nat h :: u16) = h" using assms(2) by (simp add: unat_of_nat)
  moreover have "ucast (of_nat h :: u16) = (of_nat (unat (of_nat h :: u16)) :: u64)" by simp
  ultimately have n: "ucast (of_nat h :: u16) = (of_nat h :: u64)" by metis
  have "regs (hart h m) 10 = of_nat h" "regs (hart h m) 11 = 0x1100"
    "regs (hart h m) 2 = 0x80000000 + arg_mem_size a - 1"
    unfolding hs by (simp_all add: hart_init_def reset_state_def Let_def n)
  then show ?thesis using f h by (intro exI[of _ "upd_hart h f m"]) simp
qed

text \<open>
  C21. After an interrupt every hart thread runs at most one more cycle: along any further run the
  program stays interrupted and the number of cycles run so far plus the number of threads still
  alive is the number of threads alive at the interrupt.
\<close>

theorem shutdown_bounded:
  assumes "boot fs openpty_ok now mswi_junk plic_junk a = Some (Inr m)"
    and "sys_run (sys_start a so m) es s" and "interrupted (mach s)" and "sys_run s es' s'"
  shows "interrupted (mach s') \<and> running_harts s' + length (filter is_hart_event es') = running_harts s"
  using interrupted_run[OF assms(4) sys_run_inv[OF assms(2) boot_good(2)[OF assms(1)]] assms(3)] .

section \<open>Witnesses\<close>

text \<open>A machine whose images cannot be opened: nothing is loaded, and yet it boots.\<close>

definition no_image :: Image where
  "no_image = \<lparr>fd_num = - 1, elf_lib = True, elf_open = False, elf_is_elf = False, phdrs = [],
     sections = [], symbols = (\<lambda>_ _. None), fd_read = (\<lambda>_. None), fd_pread = (\<lambda>_ _. None)\<rparr>"

definition no_files :: Files where
  "no_files = \<lparr>image_of = (\<lambda>_. no_image), contents_of = (\<lambda>_. None)\<rparr>"

definition demo_args :: Args where
  "demo_args = default_args\<lparr>kernelfile := Some ''kernel'', arg_hart_count := 2\<rparr>"

definition demo_machine :: Machine where
  "demo_machine = start_machine (boot_hardware demo_args True 0 (\<lambda>_. 0) (\<lambda>_. 0))"

lemma demo_boot: "boot no_files True 0 (\<lambda>_. 0) (\<lambda>_. 0) demo_args = Some (Inr demo_machine)"
  by (simp add: boot_def demo_machine_def load_images_def load_image_def no_files_def
      no_image_def load_elf_def load_flat_def load_dtb_def load_initrd_def boot_hardware_def demo_args_def default_args_def Let_def)

lemma demo_machine_facts [simp]:
  "machine_good demo_machine" "length (hartlist demo_machine) = 2" "hart_start demo_machine"
  "\<not> interrupted demo_machine"
  using boot_good(1,4,5,6)[OF demo_boot] by (simp_all add: demo_args_def)

lemma demo_machine_hart: "h < 2 \<Longrightarrow> hart h demo_machine = hart_init 0x20000000 (of_nat h)"
  using boot_good(3)[OF demo_boot, of h] by (simp add: demo_args_def default_args_def)

lemma demo_machine_size [simp]: "mach_mem_size demo_machine = 0x20000000"
  using boot_from_hardware[OF demo_boot] by (simp add: boot_frame_def boot_hardware_harts demo_args_def default_args_def)

theorem booted_runs_in_order_witness:
  "sys_inv (sys_start demo_args True demo_machine\<lparr>mach := sigint_handler demo_machine\<rparr>)"
proof -
  have "sys_step E_sigint (sys_start demo_args True demo_machine)
      (sys_start demo_args True demo_machine\<lparr>mach := sigint_handler demo_machine\<rparr>)"
    using interrupt_key[of "sys_start demo_args True demo_machine"] by (simp add: sys_start_def)
  from run_snoc[OF run_nil this] show ?thesis by (rule booted_runs_in_order[OF demo_boot])
qed

lemma demo_first_cycle:
  "\<exists>m'. cycle 0 demo_machine = Some (True, m')"
proof -
  obtain m' where "hart_cycles 3 0 demo_machine = Some (True, m')"
    using rom_boots[of 0 demo_machine] demo_machine_hart[of 0] hart_init_rom_ready by auto
  then show ?thesis by (auto simp: eval_nat_numeral split: if_splits)
qed

theorem cycle_isolated_witness:
  "\<exists>m'. cycle 0 demo_machine = Some (True, m') \<and> machine_good m' \<and> exec_frame 0 demo_machine m'"
proof -
  obtain m' where c: "cycle 0 demo_machine = Some (True, m')" using demo_first_cycle by blast
  show ?thesis using c cycle_isolated[OF _ _ c] by simp
qed

theorem boot_reaches_ram_witness:
  "\<exists>m'. hart_cycles 3 1 demo_machine = Some (True, m') \<and> pc (hart 1 m') = 0x80000000 \<and> regs (hart 1 m') 10 = 1"
  using boot_reaches_ram[OF demo_boot, of 1] by (auto simp: demo_args_def default_args_def)

theorem shutdown_bounded_witness:
  "interrupted (sigint_handler demo_machine) \<and>
   running_harts (sys_start demo_args True demo_machine\<lparr>mach := sigint_handler demo_machine, main_at := Joining\<rparr>) = 2"
proof -
  let ?s = "sys_start demo_args True demo_machine"
  let ?t = "?s\<lparr>mach := sigint_handler demo_machine\<rparr>"
  have a: "sys_run ?s [E_sigint] ?t"
    using run_snoc[OF run_nil interrupt_key[of ?s]] by (simp add: sys_start_def)
  have i: "interrupted (mach ?t)" by (simp add: sigint_handler_def)
  have "main_step 0 ?t = Some (?t\<lparr>main_at := Joining\<rparr>)"
    by (simp add: sys_start_def sigint_handler_def)
  from run_snoc[OF run_nil main_moves[OF this]]
  have b: "sys_run ?t [E_main 0] (?t\<lparr>main_at := Joining\<rparr>)" by simp
  have c: "mach_hart_count demo_machine = 2"
    using boot_from_hardware[OF demo_boot] by (simp add: boot_frame_def boot_hardware_harts demo_args_def)
  show ?thesis
    using shutdown_bounded[OF demo_boot a i b] i by (simp add: running_harts_def sys_start_def c)
qed

text \<open>The devices of the demonstration machine.\<close>

lemma demo_frame: "boot_frame (boot_hardware demo_args True 0 (\<lambda>_. 0) (\<lambda>_. 0)) demo_machine"
  using boot_from_hardware[OF demo_boot] by simp

lemma demo_counts [simp]: "mach_hart_count demo_machine = 2" "arg_hart_count demo_args = 2"
  using demo_frame by (simp_all add: boot_frame_def boot_hardware_harts demo_args_def)

lemma demo_good [simp]:
  "aclint_good demo_machine" "plic_good demo_machine" "virtio_good demo_machine" "uart_good (uart demo_machine)"
  using machine_goodD[OF demo_machine_facts(1)] by (simp_all add: uart_dev_good_def)

lemma demo_uart: "uart demo_machine = upd_reg 5 (\<lambda>_. 0b01100000) (upd_reg 2 (\<lambda>_. 0b01) uart_globals)"
  using demo_frame by (simp add: boot_frame_def boot_hardware_devices uart_init_def machine_globals_def)
    (simp add: uart_globals_def)

lemma aclint_mtime_roundtrip_witness:
  "\<exists>m'. aclint_mtimer_w 0x7ff8 1000 8 demo_machine = Some m' \<and> aclint_mtime_get m' = 1000"
proof -
  obtain m' where w: "aclint_mtimer_w 0x7ff8 1000 8 demo_machine = Some m'"
    by (simp add: aclint_mtimer_w_def data_as_def)
  show ?thesis using w aclint_mtime_roundtrip[OF _ w] by simp
qed

lemma plic_claim_best_witness:
  "\<exists>p h m'. plic_claim 0x200004 demo_machine = Some (view32 (of_nat h), m') \<and> plic_best 0 16 demo_machine p h"
  using plic_claim_best[of demo_machine "0x200004"] by (auto simp: OFFSET_TO_CTX_def PLIC_CTX_COUNT_def)

lemma plic_complete_clears_witness:
  "\<exists>m'. plic_complete 0 demo_machine = Some m' \<and> \<not> int_handling (plic m') ! 0"
  using plic_complete_clears[of demo_machine 0] by (auto simp: PLIC_CTX_COUNT_def)

lemma uart_rx_read_witness:
  "\<exists>m' m''. uart_rx 0x41 demo_machine = Some m' \<and> uart_r 0 1 m' = Some (view64 0x41, m'')"
proof -
  obtain m' where r: "uart_rx 0x41 demo_machine = Some m'"
    by (simp add: uart_rx_def demo_uart upd_reg_def uart_globals_def Let_def)
  have "\<exists>m''. uart_r 0 1 m' = Some (view64 (scast (0x41 :: u8)), m'') \<and> pending_in (uart m'') = 0"
    by (rule uart_rx_read[OF demo_good(4) _ _ _ r]) (simp_all add: demo_uart uart_globals_def)
  then show ?thesis using r by auto
qed

lemma uart_seventeen_characters_witness: "for_each uart_rx (replicate 17 0x41) demo_machine = None"
  by (rule uart_seventeen_characters[OF demo_good(4)]) (simp_all add: demo_uart uart_globals_def)

lemma uart_transmits_witness:
  "\<exists>m'. uart_tx (demo_machine\<lparr>uart := (uart demo_machine)\<lparr>output_buf := 0x41 # replicate 15 0, tx_offset := 1\<rparr>\<rparr>) = Some m'
    \<and> pty_out (pty m') = pty_out (pty demo_machine) @ [0x41]"
proof -
  define u where "u = (uart demo_machine)\<lparr>output_buf := 0x41 # replicate 15 0, tx_offset := 1\<rparr>"
  have b: "output_buf u = 0x41 # replicate 15 0" "tx_offset u = 1" "uart_regs u ! 1 = 0" "length (uart_regs u) = 8"
    by (simp_all add: u_def demo_uart upd_reg_def uart_globals_def)
  have t: "tx_text u = [0x41]" by (simp add: tx_text_def b)
  have g: "uart_good u"
    using demo_good(4) by (auto simp: u_def uart_good_def nth_Cons')
  have p: "\<not> sig_mode demo_machine"
    using demo_frame by (simp add: boot_frame_def boot_hardware_harts demo_args_def default_args_def)
  have "\<exists>m'. uart_tx (demo_machine\<lparr>uart := u\<rparr>) = Some m'"
    using c_string_buffer[OF g] by (simp add: uart_tx_def pty_print_def b b(3)[simplified] p t Let_def upd_uart_def upd_reg_def)
  then obtain m' where m': "uart_tx (demo_machine\<lparr>uart := u\<rparr>) = Some m'" by blast
  have "pty_out (pty m') = pty_out (pty demo_machine) @ [0x41]"
    using uart_transmits[OF _ m'] g t p by simp
  then show ?thesis using m' unfolding u_def by blast
qed

lemma virtio_queue_write_misplaced_witness:
  "\<exists>m'. virtio_mmio_blk_w 0x38 7 4 demo_machine = Some m'
    \<and> blk_queues (virtio m') = (blk_queues (virtio demo_machine))[43 := 7]"
proof -
  have "blk_devcfg (virtio demo_machine) ! 12 = 0"
    using demo_frame by (simp add: boot_frame_def boot_hardware_devices virtio_mmio_blk_init_def upd_virtio_def
        machine_globals_def virtio_globals_def virtio_dev_cfg_def)
  from virtio_queue_write_misplaced[OF demo_good(3) this, of "0x38" 4 7] show ?thesis by auto
qed

text \<open>A segment of three bytes, the last of them beyond the end of the two-byte file.\<close>

definition demo_segment :: Phdr where
  "demo_segment = \<lparr>p_type = 1, p_paddr = 0x80000000, p_memsz = 3, p_filesz = 2, p_offset = 0\<rparr>"

definition demo_image :: Image where
  "demo_image = no_image\<lparr>fd_pread := \<lambda>n off. Some (take n (drop off [0x13, 0x04]))\<rparr>"

lemma load_segments_content_witness:
  "\<exists>q m'. load_segments demo_image 0 [demo_segment] 0 demo_machine = Some (q, m') \<and> main_mem m' 1 = 0x04"
proof -
  obtain q m' where l: "load_segments demo_image 0 [demo_segment] 0 demo_machine = Some (q, m')"
    by (simp add: demo_image_def demo_segment_def PT_LOAD_def main_mem_put_def Let_def)
  have r: "reads_file [0x13, 0x04] demo_image" by (simp add: reads_file_def demo_image_def)
  have "main_mem m' 1 = [0x13, 0x04] ! (unat (p_offset demo_segment) + 1)"
    by (rule load_segments_content[OF r l])
      (simp_all add: demo_segment_def seg_covers_def seg_loads_def PT_LOAD_def)
  then show ?thesis using l by (simp add: demo_segment_def)
qed

lemma signature_roundtrip_witness:
  "\<exists>s. dump_signature (demo_machine\<lparr>begin_signature := 0x80000000, end_signature := 0x80000020\<rparr>) = Some s
    \<and> length (parse_lines 2 s) = 32"
  using signature_roundtrip[of "demo_machine\<lparr>begin_signature := 0x80000000, end_signature := 0x80000020\<rparr>"]
  by (auto simp: sig_start_def sig_lines_def)

text \<open>
  The firmware writes \<open>pmpcfg0\<close>: entry 0 gives the lower half of the address space to everyone,
  for reading and executing.  A supervisor's store there is then denied.
\<close>

definition demo_firmware :: HartState where
  "demo_firmware = (hart_init 0x20000000 0)\<lparr>regs := \<lambda>_. 0x0D\<rparr>"

lemma demo_pmpcfg_write:
  "\<exists>s0. exec_csr 0 (demo_csrrw 0x3A0) demo_firmware = Some (Return NOEXC, s0)
    \<and> pmpcfg s0 = (\<lambda>_. 0)(0 := 0x0D) \<and> pmpaddr s0 = (\<lambda>_. 0)(0 := 0x003fffffffffffff)"
proof -
  have u: "[0..<8] = [0, 1, 2, 3, 4, 5, 6, 7 :: nat]" by (simp add: upt_rec)
  have c: "pmpcfg demo_firmware = (\<lambda>_. 0)(0 := 0x1F)" "pmpaddr demo_firmware = (\<lambda>_. 0)(0 := 0x003fffffffffffff)"
    by (simp_all add: demo_firmware_def hart_init_def reset_state_def zero_hart_def Let_def)
  have d: "csr_number (demo_csrrw 0x3A0) = 0x3A0" "rd (demo_csrrw 0x3A0) = 0" "funct3 (demo_csrrw 0x3A0) = 1"
    "rs1 (demo_csrrw 0x3A0) = 6" "regs demo_firmware 6 = 0x0D" "privmode demo_firmware = 3"
    by (simp_all add: demo_csrrw_def csr_number_def demo_firmware_def)
  have "\<exists>rv hs'. for_each (pmpcfg_byte 0 0x0D 1) [0..<8] (0, hs) = Some (rv, hs')
      \<and> pmpcfg hs' = (pmpcfg hs)(0 := 0x0D, 1 := 0, 2 := 0, 3 := 0, 4 := 0, 5 := 0, 6 := 0, 7 := 0)
      \<and> pmpaddr hs' = pmpaddr hs" if "pmpcfg hs = (\<lambda>_. 0)(0 := 0x1F)" for hs
    unfolding u using that by (simp add: pmpcfg_byte_def pmpcfg_next_def Let_def) (simp add: numeral_2_eq_2)
  from this[of "demo_firmware\<lparr>pc := pc demo_firmware + inst_bytes demo_firmware, minstret := minstret demo_firmware + 1\<rparr>"]
  obtain rv hs' where l: "for_each (pmpcfg_byte 0 0x0D 1) [0..<8]
      (0, demo_firmware\<lparr>pc := pc demo_firmware + inst_bytes demo_firmware, minstret := minstret demo_firmware + 1\<rparr>) = Some (rv, hs')"
    "pmpcfg hs' = (\<lambda>_. 0)(0 := 0x0D)" "pmpaddr hs' = (\<lambda>_. 0)(0 := 0x003fffffffffffff)"
    using c by (auto simp: fun_eq_iff)
  have "exec_csr 0 (demo_csrrw 0x3A0) demo_firmware = Some (Return NOEXC, sync_exp_pmp (set_reg 0 rv hs'))"
    by (simp add: exec_csr_def d chk_ro0_csr_def pmpcfg_rw_def l(1)[simplified] Let_def)
  then show ?thesis using l(2,3) by (simp add: set_reg_def)
qed

lemma denied_access_no_effect_witness:
  "\<exists>s0. exec_csr 0 (demo_csrrw 0x3A0) demo_firmware = Some (Return NOEXC, s0)
    \<and> mem_store 0 4 0x80001000 7 (upd_hart 0 (\<lambda>_. s0\<lparr>privmode := 1\<rparr>) demo_machine)
      = Some (upd_hart 0 (set_mem_status True) (upd_hart 0 (\<lambda>_. s0\<lparr>privmode := 1\<rparr>) demo_machine))"
proof -
  obtain s0 where w: "exec_csr 0 (demo_csrrw 0x3A0) demo_firmware = Some (Return NOEXC, s0)"
    and c: "pmpcfg s0 = (\<lambda>_. 0)(0 := 0x0D)" "pmpaddr s0 = (\<lambda>_. 0)(0 := 0x003fffffffffffff)"
    using demo_pmpcfg_write by blast
  let ?m = "upd_hart 0 (\<lambda>_. s0\<lparr>privmode := 1\<rparr>) demo_machine"
  have h: "hart 0 ?m = s0\<lparr>privmode := 1\<rparr>" by simp
  have i: "0x3A0 \<le> csr_number (demo_csrrw 0x3A0)" "csr_number (demo_csrrw 0x3A0) < 0x3B0"
    by (simp_all add: demo_csrrw_def csr_number_def)
  have r: "pmp_regs (s0\<lparr>privmode := 1\<rparr>) = pmp_regs s0" by (simp add: pmp_regs_def)
  have ok: "pmp_addrs_ok (s0\<lparr>privmode := 1\<rparr>)" by (auto simp: pmp_addrs_ok_def c list_all_iff)
  have t: "pmp_touches (s0\<lparr>privmode := 1\<rparr>) a 0 \<longleftrightarrow> a < 0x00fffffffffffffc" for a
    by (simp add: pmp_touches_def c pmp_a_def pmp_bounds_def in_bounds_def)
  have u: "[0..<PMP_COUNT] = 0 # [1..<PMP_COUNT]" using upt_conv_Cons[of 0 PMP_COUNT] by simp
  have b: "access_bytes 0x80001000 4 = [0x80001000, 0x80001001, 0x80001002, 0x80001003]"
    by (simp add: access_bytes_def upt_conv_Cons)
  have deny: "\<not> pmp_rule (s0\<lparr>privmode := 1\<rparr>) 1 0x80001000 4" unfolding pmp_rule_def u b by (simp add: t c)
  have "\<not> pmp_bypass (s0\<lparr>privmode := 1\<rparr>) lo hi" for lo hi
    by (auto simp: pmp_bypass_def list_ex_iff pmp_opens_all_def c pmp_a_def split: if_splits)
  then have "mem_store 0 4 0x80001000 7 ?m = Some (upd_hart 0 (set_mem_status True) ?m)"
    using denied_access_no_effect[OF w i, of 0 ?m 4 "0x80001000" 7] deny by (simp add: h r ok)
  then show ?thesis using w by blast
qed

text \<open>Hart 0 of the demonstration machine may access its RAM.\<close>

lemma demo_range_check: "b < 3 \<Longrightarrow> range_check (hart_init s i) b lo hi"
proof -
  assume b: "b < 3"
  have "chk_pmp_range_exp (hart_init s i) lo hi = 0xFF"
    using unsynced_range[of "hart_init s i" lo hi] by (simp add: chk_pmp_range_exp_def zero_ExpPMP_def)
  then show ?thesis using less_3_cases[OF b] by (auto simp: range_check_def range_grants_def)
qed

lemma demo_ram_access: "ram_access_ok 8 0x80001000 demo_machine"
  by (simp add: ram_access_ok_def ram_ok_def ram_index_def)

lemma demo_access_ok: "b < 3 \<Longrightarrow> mem_access_ok 0 b 8 0x80001000 demo_machine"
  by (simp add: mem_access_ok_def mem_in_range_def demo_machine_hart demo_range_check)

lemma ram_store_visible_witness:
  "\<exists>m1. mem_store 0 8 0x80001000 0x1234 demo_machine = Some m1
    \<and> mem_fetch 0 8 0x80001000 (with_status 0 True m1) = Some (0x1234, m1)"
  using ram_store_visible[of 0 demo_machine 8 "0x80001000" "0x1234"]
  by (auto simp: demo_access_ok demo_ram_access mask_eq_exp_minus_1)

text \<open>The first instruction is \<open>addi s0, zero, 1\<close>: it finds zero in x0 although 7 had been left there.\<close>

lemma demo_addi_cycle: "cycle 0 demo_machine = Some (True, upd_hart 0 (rom_op_imm 0x00100413) demo_machine)"
proof -
  have r: "rom_ready (hart 0 demo_machine)" "pc (hart 0 demo_machine) = 0x1000"
    using hart_init_rom_ready by (simp_all add: demo_machine_hart)
  show ?thesis
    by (rule rom_cycle_op_imm[OF _ _ rom_cycle[OF _ r _ _ _ rom_words(1)]])
      (simp_all add: rom_decode mem_in_range_def)
qed

lemma cycle_x0_zero_witness:
  "\<exists>m'. cycle 0 (upd_hart 0 (\<lambda>s. s\<lparr>regs := (regs s)(0 := 7)\<rparr>) demo_machine) = Some (True, m')
    \<and> regs (hart 0 m') 8 = 1"
proof -
  have "regs (hart 0 (upd_hart 0 (rom_op_imm 0x00100413) demo_machine)) 8 = 1"
    using rom_addi(3)[OF hart_init_rom_ready] by (simp add: demo_machine_hart)
  then show ?thesis
    using cycle_x0_zero[OF demo_machine_facts(1) _ demo_addi_cycle, of 7] by auto
qed

definition demo_sc :: decoded where
  "demo_sc = \<lparr>op_fun = AMO, rd = 5, rs1 = 6, rs2 = 7, funct3 = 3, funct7 = 12, imm = 0, cebreak = False,
     dinst = 0\<rparr>"

lemma lr_sc_reservations_witness:
  "\<exists>m'. sc_commit 0 demo_sc 0x80001000 0x80001000 demo_machine = Some (Done False, m')
    \<and> regs (hart 0 m') 5 = 1 \<and> main_mem m' = main_mem demo_machine"
proof -
  have "reservations demo_machine = [0, 0]"
    using demo_frame by (simp add: boot_frame_def boot_hardware_devices) (simp add: numeral_2_eq_2)
  then have "reservations demo_machine ! 0 \<noteq> 0x80001000" by simp
  then obtain m' where "sc_commit 0 demo_sc 0x80001000 0x80001000 demo_machine = Some (Done False, m')"
    "main_mem m' = main_mem demo_machine" "regs (hart 0 m') = (regs (hart 0 demo_machine))(rd demo_sc := 1)"
    using lr_sc_reservations[of demo_machine 0 "0x80001000" demo_sc "0x80001000"] by auto
  then show ?thesis by (auto simp: demo_sc_def)
qed

text \<open>A root page table at the start of the RAM whose third entry maps a gigabyte page.\<close>

definition demo_paged :: Machine where
  "demo_paged = (upd_hart 0 (\<lambda>s. s\<lparr>satp := 0x8000000000080000\<rparr>) demo_machine)
     \<lparr>main_mem := ram_store 8 0x10 0x200000CF (\<lambda>_. 0)\<rparr>"

lemma demo_paged_facts:
  "hart 0 demo_paged = (hart_init 0x20000000 0)\<lparr>satp := 0x8000000000080000\<rparr>"
  "length (hartlist demo_paged) = 2" "machine_good demo_paged"
  "ram_access_ok 8 0x80000010 demo_paged" "ram_ld 8 0x80000010 demo_paged = 0x200000CF"
  "b < 3 \<Longrightarrow> mem_access_ok 0 b 8 0x80000010 demo_paged"
proof -
  have h: "hart 0 (upd_hart 0 (\<lambda>s. s\<lparr>satp := 0x8000000000080000\<rparr>) demo_machine)
      = (hart_init 0x20000000 0)\<lparr>satp := 0x8000000000080000\<rparr>"
    by (simp add: demo_machine_hart)
  then show hh: "hart 0 demo_paged = (hart_init 0x20000000 0)\<lparr>satp := 0x8000000000080000\<rparr>"
    unfolding demo_paged_def by (simp add: hart_def)
  show "length (hartlist demo_paged) = 2" by (simp add: demo_paged_def)
  have "machine_good (upd_hart 0 (\<lambda>s. s\<lparr>satp := 0x8000000000080000\<rparr>) demo_machine)"
    by (rule machine_good_upd) (simp_all add: hart_good_def)
  then show "machine_good demo_paged" by (simp add: demo_paged_def)
  show "ram_access_ok 8 0x80000010 demo_paged"
    by (simp add: demo_paged_def ram_access_ok_def ram_ok_def ram_index_def)
  show "ram_ld 8 0x80000010 demo_paged = 0x200000CF"
    using ram_load_store_same[of 8 "0x10" "0x200000CF" "\<lambda>_. 0"]
    by (simp add: ram_ld_def demo_paged_def ram_index_def mask_eq_exp_minus_1)
  show "mem_access_ok 0 b 8 0x80000010 demo_paged" if b: "b < 3"
  proof -
    have "chk_pmp_range_exp (hart 0 demo_paged) lo hi = 0xFF" for lo hi
      using unsynced_range[of "hart 0 demo_paged" lo hi] by (simp add: hh chk_pmp_range_exp_def zero_ExpPMP_def)
    moreover have "mem_in_range 0x80000010 demo_paged" by (simp add: mem_in_range_def demo_paged_def)
    ultimately show ?thesis
      using less_3_cases[OF b] by (auto simp: mem_access_ok_def range_check_def range_grants_def hh)
  qed
qed

lemma demo_paged_path:
  "satp_levels (satp (hart 0 demo_paged)) = 3"
  "sv_walk (\<lambda>a. ram_ld 8 a demo_paged) 0x80001234 (rev [0..<3]) (PAGENUM (satp (hart 0 demo_paged) AND 0xFFFFFFFFFFF))
     = Some (2, 0x80000010, 0x200000CF)"
  "sv_path (\<lambda>a. ram_ld 8 a demo_paged) 0x80001234 (rev [0..<3]) (PAGENUM (satp (hart 0 demo_paged) AND 0xFFFFFFFFFFF))
     = [0x80000010]"
  by (simp_all add: demo_paged_facts satp_levels_def PAGENUM_def pte_address_def upt_rec Let_def pte_invalid_def
      pte_pointer_def)

text \<open>The machine after the walk: the entry is written back and the TLB filled.\<close>

definition demo_walked :: Machine where
  "demo_walked = upd_hart 0 (\<lambda>hs. hs\<lparr>tlb := tlb_add (tlb hs) (leaf_entry 2 0x80001234 0x80000010 0x200000CF),
     mem_status := False\<rparr>) (ram_st 8 0x80000010 0x200000CF (with_status 0 False (with_status 0 False demo_paged)))"

lemma demo_readable:
  "\<forall>a \<in> set (sv_path (\<lambda>a. ram_ld 8 a demo_paged) 0x80001234 (rev [0..<satp_levels (satp (hart 0 demo_paged))])
      (PAGENUM (satp (hart 0 demo_paged) AND 0xFFFFFFFFFFF))).
      pte_readable 0 (mem_status (hart 0 demo_paged)) demo_paged a"
  unfolding demo_paged_path by (simp add: pte_readable_def demo_paged_facts)

lemma demo_not_denied: "\<not> leaf_denied (hart 0 demo_paged) (mem_status (hart 0 demo_paged)) False 2 0x200000CF"
  by (simp add: leaf_denied_def demo_paged_facts pte_ppn_def superpage_mask_def shl64_def mask_eq_exp_minus_1)

lemma demo_mark: "pte_needs_mark 0x200000CF" "pte_mark wr 0x200000CF = 0x200000CF"
  by (simp_all add: pte_needs_mark_def pte_mark_def bmask_def mask_eq_exp_minus_1)

lemma demo_walk: "page_table_walk 0 0x80001234 False demo_paged = Some (0x80001234, demo_walked)"
proof -
  let ?m = "with_status 0 False demo_paged"
  let ?m1 = "ram_st 8 0x80000010 0x200000CF (with_status 0 False ?m)"
  have nd: "\<not> leaf_denied (hart 0 ?m) (mem_status (hart 0 demo_paged)) False 2 0x200000CF"
    using demo_not_denied by (simp add: with_status_def demo_paged_facts leaf_denied_def)
  have st: "mem_store 0 8 0x80000010 0x200000CF ?m = Some ?m1"
    using demo_paged_facts by (simp add: mem_store_cases with_status_def[symmetric] phy_mem_store_ram)
  have s: "\<not> mem_status (hart 0 ?m1)" using demo_paged_facts(2) by (simp add: with_status_def)
  have "walk_leaf 0 0x80001234 False (mem_status (hart 0 demo_paged)) 2 0x80000010 0x200000CF ?m =
      Some ((0x80001234 AND superpage_mask 2) + pte_ppn 0x200000CF, demo_walked)"
    using st s nd by (simp add: walk_leaf_def Let_def demo_mark demo_walked_def del: ram_st_fields)
  moreover have "(0x80001234 AND superpage_mask 2) + pte_ppn 0x200000CF = 0x80001234"
    by (simp add: pte_ppn_def superpage_mask_def shl64_def mask_eq_exp_minus_1)
  ultimately show ?thesis
    using page_table_walk_sv[OF _ _ demo_readable, of False, unfolded demo_paged_path option.case prod.case]
      demo_paged_facts(2) by simp
qed

lemma demo_walked_facts:
  "length (hartlist demo_walked) = 2" "\<not> mem_status (hart 0 demo_walked)" "\<not> page_fault (hart 0 demo_walked)"
  "tlb (hart 0 demo_walked) = tlb_add zero_TLB (leaf_entry 2 0x80001234 0x80000010 0x200000CF)"
  "satp (hart 0 demo_walked) \<noteq> 0" "privmode (hart 0 demo_walked) = 3"
  "ram_access_ok 8 0x80000010 demo_walked" "ram_ld 8 0x80000010 demo_walked = 0x200000CF"
  "b < 3 \<Longrightarrow> mem_access_ok 0 b 8 0x80000010 demo_walked"
proof -
  show "length (hartlist demo_walked) = 2" "\<not> mem_status (hart 0 demo_walked)" "\<not> page_fault (hart 0 demo_walked)"
    "tlb (hart 0 demo_walked) = tlb_add zero_TLB (leaf_entry 2 0x80001234 0x80000010 0x200000CF)"
    "satp (hart 0 demo_walked) \<noteq> 0" "privmode (hart 0 demo_walked) = 3"
    by (simp_all add: demo_walked_def with_status_def demo_paged_facts set_mem_status_def)
  show r: "ram_access_ok 8 0x80000010 demo_walked"
    using demo_paged_facts(4) by (simp add: demo_walked_def with_status_def ram_access_ok_def ram_ok_def ram_st_def)
  show "ram_ld 8 0x80000010 demo_walked = 0x200000CF"
    using ram.ld_st_same[of 8 "0x80000010" "with_status 0 False (with_status 0 False demo_paged)" "0x200000CF"] demo_paged_facts(4)
    by (simp add: demo_walked_def mask_eq_exp_minus_1 del: ram_st_fields)
  have "range_check (hart 0 demo_walked) p lo hi = range_check (hart 0 demo_paged) p lo hi" for p lo hi
    by (rule protection_cong(1)) (simp_all add: demo_walked_def with_status_def demo_paged_facts)
  moreover have "mach_mem_size demo_walked = mach_mem_size demo_paged"
    by (simp add: demo_walked_def with_status_def ram_st_def)
  ultimately show "mem_access_ok 0 b 8 0x80000010 demo_walked" if "b < 3"
    using demo_paged_facts(6)[OF that] by (simp add: mem_access_ok_def mem_in_range_def)
qed

text \<open>
  The same table under a hart in mode \<open>p\<close> whose firmware has opened the address space to it.  A
  supervisor's fetch is translated; a user's is a page fault, since the page is not a user page.
\<close>

definition demo_open_hart :: "u8 \<Rightarrow> HartState" where
  "demo_open_hart p = sync_exp_pmp ((hart_init 0x20000000 0)\<lparr>satp := 0x8000000000080000, privmode := p, mstatus := 0,
     pmpcfg := (\<lambda>_. 0)(0 := 0x1F), pmpaddr := \<lambda>_. 0xffffffffffffffff\<rparr>)"

definition demo_super :: "u8 \<Rightarrow> Machine" where
  "demo_super p = (upd_hart 0 (\<lambda>_. demo_open_hart p) demo_machine)
     \<lparr>main_mem := ram_store 8 0x10 0x200000CF (\<lambda>_. 0)\<rparr>"

lemma sync_translation_frame [simp]:
  "satp (sync_exp_pmp hs) = satp hs" "mstatus (sync_exp_pmp hs) = mstatus hs" "tlb (sync_exp_pmp hs) = tlb hs"
  "page_fault (sync_exp_pmp hs) = page_fault hs" "mem_status (sync_exp_pmp hs) = mem_status hs"
  "hartid (sync_exp_pmp hs) = hartid hs"
proof -
  have "satp (fold sync_exp_entry is s) = satp s \<and> mstatus (fold sync_exp_entry is s) = mstatus s
      \<and> tlb (fold sync_exp_entry is s) = tlb s \<and> page_fault (fold sync_exp_entry is s) = page_fault s
      \<and> mem_status (fold sync_exp_entry is s) = mem_status s \<and> hartid (fold sync_exp_entry is s) = hartid s" for "is" s
    by (induction "is" arbitrary: s) (simp_all add: sync_exp_entry_def Let_def)
  then show "satp (sync_exp_pmp hs) = satp hs" "mstatus (sync_exp_pmp hs) = mstatus hs"
    "tlb (sync_exp_pmp hs) = tlb hs" "page_fault (sync_exp_pmp hs) = page_fault hs"
    "mem_status (sync_exp_pmp hs) = mem_status hs" "hartid (sync_exp_pmp hs) = hartid hs"
    by (simp_all add: sync_exp_pmp_def)
qed

lemma demo_super_facts:
  "hart 0 (demo_super p) = demo_open_hart p" "length (hartlist (demo_super p)) = 2"
  "p \<le> 1 \<Longrightarrow> machine_good (demo_super p)"
  "ram_access_ok 8 0x80000010 (demo_super p)" "ram_ld 8 0x80000010 (demo_super p) = 0x200000CF"
  "b < 3 \<Longrightarrow> mem_access_ok 0 b 8 0x80000010 (demo_super p)"
proof -
  show hh: "hart 0 (demo_super p) = demo_open_hart p" "length (hartlist (demo_super p)) = 2"
    by (simp_all add: demo_super_def hart_def) (simp add: upd_hart_def)
  have "machine_good (upd_hart 0 (\<lambda>_. demo_open_hart p) demo_machine)" if "p \<le> 1"
  proof (rule machine_good_upd)
    have "p \<le> 3" using that by (rule order_trans) (simp add: word_le_nat_alt)
    moreover have "hart_good (hart_init 0x20000000 0)"
      using machine_goodD[OF demo_machine_facts(1)] demo_machine_hart[of 0] by fastforce
    ultimately show "hart_good (demo_open_hart p)" by (simp add: demo_open_hart_def hart_good_def)
  qed (simp_all add: demo_open_hart_def demo_machine_hart)
  then show "p \<le> 1 \<Longrightarrow> machine_good (demo_super p)" by (simp add: demo_super_def)
  show "ram_access_ok 8 0x80000010 (demo_super p)"
    by (simp add: demo_super_def ram_access_ok_def ram_ok_def ram_index_def)
  show "ram_ld 8 0x80000010 (demo_super p) = 0x200000CF"
    using ram_load_store_same[of 8 "0x10" "0x200000CF" "\<lambda>_. 0"]
    by (simp add: ram_ld_def demo_super_def ram_index_def mask_eq_exp_minus_1)
  show "mem_access_ok 0 b 8 0x80000010 (demo_super p)" if b: "b < 3"
  proof -
    let ?hs = "(hart_init 0x20000000 0)\<lparr>satp := 0x8000000000080000, privmode := p, mstatus := 0,
     pmpcfg := (\<lambda>_. 0)(0 := 0x1F), pmpaddr := \<lambda>_. 0xffffffffffffffff\<rparr>"
    have "pmp_opens_all ?hs 0" by (simp add: pmp_opens_all_def pmp_a_def pmp_bounds_def napot_bounds_def)
    moreover have "\<not> pmp_restricts ?hs i" for i by (simp add: pmp_restricts_def pmp_a_def)
    ultimately have "pmp_bypass ?hs 0x80000010 0x80000017" by (auto simp: pmp_bypass_def list_ex_iff list_all_iff)
    then have "pmp_fast (demo_open_hart p) 0x80000010 0x80000017"
      by (simp only: demo_open_hart_def pmp_fast_bypass)
    then have "chk_pmp_range_exp (demo_open_hart p) 0x80000010 0x80000017 = 0b111"
      by (simp add: chk_pmp_range_exp_def pmp_fast_def)
    moreover have "mem_in_range 0x80000010 (demo_super p)" by (simp add: mem_in_range_def demo_super_def)
    ultimately show ?thesis
      using less_3_cases[OF b] by (auto simp: mem_access_ok_def range_check_def range_grants_def hh)
  qed
qed

lemma page_table_walk_correct_witness:
  "(\<exists>m'. page_table_walk 0 0x80001234 False (demo_super 1) = Some (0x80001234, m') \<and> \<not> page_fault (hart 0 m'))
    \<and> (\<exists>pa m'. page_table_walk 0 0x80001234 False (demo_super 0) = Some (pa, m') \<and> page_fault (hart 0 m'))"
proof -
  let ?rd = "\<lambda>p a. ram_ld 8 a (demo_super p)"
  have e: "sv_entry 0x80001234 2 0x80000 = 0x80000010" by (simp add: sv_entry_def)
  have reads: "sv_reads (?rd p) 0x80001234 3 0x80000 = [0x80000010]" for p
    using e demo_super_facts(5)[of p] by (simp add: eval_nat_numeral Let_def)
  have can: "sv_canonical 3 0x80001234"
    by (simp add: sv_canonical_def signed_take_bit_eq_if_positive)
  have adr: "sv_address (?rd p) ms p Fetch 0x80001234 3 0x80000 =
      (if p = 1 then Some 0x80001234 else None)" for p ms
  proof -
    have n: "sv_ppn 0x200000CF = 0x80000" by (simp add: sv_ppn_def)
    have perm: "sv_permits ms p Fetch 0x200000CF \<longleftrightarrow> p = 1" by simp
    have al: "take_bit (9 * 2) (0x80000 :: u64) = 0"
      "push_bit 12 0x80000 OR take_bit (12 + 9 * 2) 0x80001234 = (0x80001234 :: u64)" by simp_all
    have three: "(3 :: nat) = Suc 2" by simp
    have pte: "?rd p (sv_entry 0x80001234 2 0x80000) = 0x200000CF" using e demo_super_facts(5)[of p] by simp
    have b: "bit (0x200000CF :: u64) 0" "bit (0x200000CF :: u64) 1" by simp_all
    show ?thesis
      unfolding sv_address_def three sv_translate.simps Let_def pte n perm al
      using can by (simp only: b simp_thms if_False three[symmetric] if_True)
  qed
  have go: "\<exists>pa m'. page_table_walk 0 0x80001234 False (demo_super p) = Some (pa, m') \<and>
     (if p = 1 then pa = 0x80001234 \<and> \<not> page_fault (hart 0 m') else page_fault (hart 0 m'))" if p: "p \<le> 1" for p
  proof -
    note f = demo_super_facts[where p = p]
    have hs: "privmode (demo_open_hart p) = p" "mstatus (demo_open_hart p) = 0" "\<not> page_fault (demo_open_hart p)"
      "satp (demo_open_hart p) = 0x8000000000080000" "\<not> mem_status (demo_open_hart p)"
      by (simp_all add: demo_open_hart_def)
    have "\<exists>pa m'. page_table_walk 0 0x80001234 False (demo_super p) = Some (pa, m') \<and>
      (if mem_status (hart 0 m') then \<exists>a \<in> set (sv_reads (?rd p) 0x80001234 3 0x80000). \<not> mem_access_ok 0 1 8 a (demo_super p)
       else case sv_address (?rd p) (mstatus (demo_open_hart p)) (privmode (demo_open_hart p)) Fetch 0x80001234 3 0x80000 of
           None \<Rightarrow> page_fault (hart 0 m')
         | Some pa' \<Rightarrow> \<not> page_fault (hart 0 m') \<and> pa = pa')"
    proof (rule page_table_walk_correct[OF f(3)[OF p] _ f(1)[symmetric]])
      show "\<forall>a \<in> set (sv_reads (?rd p) 0x80001234 3 0x80000).
          pte_readable 0 (mem_status (demo_open_hart p)) (demo_super p) a \<and> drop_bit 54 (?rd p a) = 0"
        unfolding reads using f(4,5) f(6)[of 2] hs(5) by (simp add: pte_readable_def)
    qed (use p f(2) hs can in \<open>simp_all\<close>)
    then show ?thesis
      unfolding reads adr hs(1) using f(6)[of 1] by (auto split: if_splits)
  qed
  have "(0 :: u8) \<le> 1" "(1 :: u8) \<le> 1" by (simp_all add: word_le_nat_alt)
  from go[OF this(1)] go[OF this(2)] show ?thesis by auto
qed

lemma demo_hit: "\<exists>m2. tlb_find 0 0x80004567 4 demo_walked = Some (0x80004567, m2)"
proof -
  let ?e = "leaf_entry 2 0x80001234 0x80000010 0x200000CF"
  have e: "virt_page ?e = 0x80000000" "phy_page ?e = 0x80000000" "tlb_size ?e = 2" "permissions ?e = 7"
    "\<not> user ?e" "pte_addr ?e = 0x80000010"
    by (simp_all add: leaf_entry_def pte_ppn_def shl64_def mask_eq_exp_minus_1)
  have z: "tlb_sizes (tlb_add zero_TLB ?e) = [2, 1, 0]"
    by (simp add: tlb_sizes_def tlb_add_def Let_def e tlb_max_def upt_6 zero_TLB_def zero_TLBEntry_def upt_rec)
  have sl: "tlb_slot (tlb_add zero_TLB ?e) 2 0x80004567 = ?e"
    by (simp add: tlb_slot_def tlb_add_def Let_def e page_base_def offset_size_def shl64_def mask_eq_exp_minus_1)
  have hit: "tlb_hit (hart 0 demo_walked) 2 0x80004567 4 ?e"
    by (simp add: tlb_hit_def e demo_walked_facts(6) offset_size_def shl64_def)
  have ws: "upd_hart 0 (set_mem_status False) demo_walked = with_status 0 False demo_walked"
    by (simp add: with_status_def)
  have "mem_fetch 0 8 0x80000010 demo_walked = Some (0x200000CF, with_status 0 False demo_walked)"
    using demo_walked_facts by (simp add: mem_fetch_cases ws phy_mem_fetch_ram)
  moreover have "mem_store 0 8 0x80000010 0x200000CF (with_status 0 False demo_walked) =
      Some (ram_st 8 0x80000010 0x200000CF (with_status 0 False demo_walked))"
    using demo_walked_facts by (simp add: mem_store_cases with_status_def[symmetric] phy_mem_store_ram)
  moreover have "\<not> mem_status (hart 0 (ram_st 8 0x80000010 0x200000CF (with_status 0 False demo_walked)))"
    using demo_walked_facts(1) by simp
  ultimately have "\<exists>m2. tlb_touch_pte 0 4 ?e demo_walked = Some (True, m2)"
    by (simp add: tlb_touch_pte_def e demo_mark del: ram_st_fields)
  moreover have "0x80000000 + (0x80004567 AND shr64 (- 1) (64 - offset_size 2)) = (0x80004567 :: u64)"
    by (simp add: offset_size_def shr64_def mask_eq_exp_minus_1)
  ultimately show ?thesis
    using demo_walked_facts hit sl by (auto simp: tlb_find_def z e(2))
qed

lemma tlb_hit_repeats_walk_witness:
  "\<exists>m2. page_table_walk 0 0x80001234 False demo_paged = Some (0x80001234, demo_walked)
    \<and> tlb_find 0 0x80004567 4 demo_walked = Some (0x80004567, m2)
    \<and> drop_bit (12 + 9 * 2) (0x80004567 :: u64) = drop_bit (12 + 9 * 2) 0x80001234"
proof -
  obtain m2 where f: "tlb_find 0 0x80004567 4 demo_walked = Some (0x80004567, m2)" using demo_hit by blast
  have t: "tlb (hart 0 demo_paged) = zero_TLB" by (simp add: demo_paged_facts)
  have "\<exists>i a pte. Some (2, 0x80000010 :: u64, 0x200000CF :: u64) = Some (i, a, pte)
      \<and> drop_bit (12 + 9 * i) (0x80004567 :: u64) = drop_bit (12 + 9 * i) 0x80001234
      \<and> (0x80004567 :: u64) XOR 0x80001234 = 0x80004567 XOR 0x80001234"
    by (rule tlb_hit_repeats_walk[OF demo_paged_facts(3) _ _ demo_readable t demo_walk demo_walked_facts(2,3) f,
          unfolded demo_paged_path])
      (simp_all add: demo_paged_facts(2))
  then have "drop_bit (12 + 9 * 2) (0x80004567 :: u64) = drop_bit (12 + 9 * 2) 0x80001234" by blast
  then show ?thesis using f demo_walk by blast
qed

text \<open>A store and a load, and an atomic addition, at an address held in a register.\<close>

definition demo_pointer :: Machine where
  "demo_pointer = upd_hart 0 (\<lambda>s. set_reg 7 0xFFFFFFFF80000001 (set_reg 6 0x80001000 s)) demo_machine"

definition demo_sw :: decoded where
  "demo_sw = \<lparr>op_fun = STORE, rd = 0, rs1 = 6, rs2 = 7, funct3 = 2, funct7 = 0, imm = 0, cebreak = False,
     dinst = 0\<rparr>"

definition demo_lw :: decoded where
  "demo_lw = \<lparr>op_fun = LOAD, rd = 5, rs1 = 6, rs2 = 0, funct3 = 2, funct7 = 0, imm = 0, cebreak = False,
     dinst = 0\<rparr>"

definition demo_amoadd :: decoded where
  "demo_amoadd = \<lparr>op_fun = AMO, rd = 5, rs1 = 6, rs2 = 7, funct3 = 2, funct7 = 0, imm = 0, cebreak = False,
     dinst = 0\<rparr>"

lemma demo_direct: "direct 0 4 0x80001000 demo_pointer" "regs (hart 0 demo_pointer) 6 = 0x80001000"
  "regs (hart 0 demo_pointer) 7 = 0xFFFFFFFF80000001"
proof -
  have "direct 0 4 0x80001000 demo_machine"
    by (simp add: direct_def ram_access_ok_def ram_ok_def ram_index_def mem_access_ok_def mem_in_range_def
        demo_machine_hart demo_range_check mprv_active_def MSTATUS_def)
  then show "direct 0 4 0x80001000 demo_pointer" unfolding demo_pointer_def by (rule direct_upd) simp_all
  show "regs (hart 0 demo_pointer) 6 = 0x80001000" "regs (hart 0 demo_pointer) 7 = 0xFFFFFFFF80000001"
    by (simp_all add: demo_pointer_def)
qed

lemma store_then_load_witness:
  "\<exists>m1 m2. exec 0 demo_sw demo_pointer = Some (Done False, m1) \<and> exec 0 demo_lw m1 = Some (Done False, m2)
    \<and> regs (hart 0 m2) 5 = 0xFFFFFFFF80000001"
proof -
  have d: "op_fun demo_sw = STORE" "op_fun demo_lw = LOAD" "funct3 demo_sw = 2" "funct3 demo_lw = 2"
    "rs1 demo_sw = 6" "rs1 demo_lw = 6" "rs2 demo_sw = 7" "rd demo_lw = 5" "imm demo_sw = 0" "imm demo_lw = 0"
    by (simp_all add: demo_sw_def demo_lw_def)
  have v: "sext 32 (0xFFFFFFFF80000001 AND mask 32) = 0xFFFFFFFF80000001"
    by (simp add: sext_def mask_eq_exp_minus_1)
  obtain m1 m2 where e: "exec 0 demo_sw demo_pointer = Some (Done False, m1)" "exec 0 demo_lw m1 = Some (Done False, m2)"
    and r: "regs (hart 0 m2) = (regs (hart 0 demo_pointer))(5 := sext 32 (0xFFFFFFFF80000001 AND mask 32))"
    using store_then_load[of demo_sw "0x80001000" 0 demo_pointer demo_lw] demo_direct(1)
    unfolding d demo_direct(2,3) Let_def by auto
  have "regs (hart 0 m2) 5 = 0xFFFFFFFF80000001" by (simp only: r v fun_upd_same)
  then show ?thesis using e by blast
qed

lemma amo_updates_witness:
  "\<exists>m'. exec 0 demo_amoadd demo_pointer = Some (Done False, m')
    \<and> lo32 (ram_ld 4 0x80001000 m') = lo32 (ram_ld 4 0x80001000 demo_pointer) + 0x80000001"
proof -
  have d: "op_fun demo_amoadd = AMO" "funct3 demo_amoadd = 2" "funct7 demo_amoadd = 0" "rs1 demo_amoadd = 6"
    "rs2 demo_amoadd = 7" "amo_size demo_amoadd = 4"
    by (simp_all add: demo_amoadd_def amo_size_def)
  have "lo32 0xFFFFFFFF80000001 = 0x80000001" by (simp add: lo32_def)
  then show ?thesis
    using amo_updates[of demo_amoadd "0x80001000" 0 demo_pointer] demo_direct(1)
    unfolding d demo_direct(2,3) by (auto simp: amo_spec_def)
qed

end
